(* ===== verification/Prelude.thy ===== *)
theory Prelude
  imports Main "HOL-Library.Char_ord" "HOL-Library.List_Lexorder"
begin

text \<open>
  The prelude of the development: the collections of rewrite rules the component
  theories share, and the generic facts about lists, maps and sorting that more than
  one component needs.  Nothing here is about the program.
\<close>

named_theorems rune_simps "evaluation of runes and Go string literals"
named_theorems split_simps "strings split at a separator and joined again"

section \<open>Results of fallible code\<close>

text \<open>
  A Go function returning \<open>(value, error)\<close> is a function into \<open>'e + 'a\<close>, the error
  on the left.  \<open>try_bind\<close> is the early return \<open>if err != nil { return nil, err }\<close>.
\<close>

fun try_bind :: "'e + 'a \<Rightarrow> ('a \<Rightarrow> 'e + 'b) \<Rightarrow> 'e + 'b" where
  "try_bind (Inl e) f = Inl e"
| "try_bind (Inr x) f = f x"

lemma try_bind_Inr_iff: "try_bind r f = Inr y \<longleftrightarrow> (\<exists>x. r = Inr x \<and> f x = Inr y)"
  by (cases r) auto

lemma try_bind_cong [fundef_cong]:
  "r = r' \<Longrightarrow> (\<And>x. r' = Inr x \<Longrightarrow> f x = f' x) \<Longrightarrow> try_bind r f = try_bind r' f'"
  by (cases r') auto

section \<open>Lists\<close>

lemma concat_map_notin:
  "(\<And>x. x \<in> set xs \<Longrightarrow> c \<notin> set (f x)) \<Longrightarrow> c \<notin> set (concat (map f xs))"
  by auto

lemma concat_map_id: "(\<And>x. x \<in> set xs \<Longrightarrow> f x = [x]) \<Longrightarrow> concat (map f xs) = xs"
  by (induction xs) auto

lemma takeWhile_neq_append [simp]:
  "c \<notin> set xs \<Longrightarrow> takeWhile (\<lambda>x. x \<noteq> c) (xs @ c # ys) = xs"
  by (induction xs) auto

lemma dropWhile_neq_append [simp]:
  "c \<notin> set xs \<Longrightarrow> dropWhile (\<lambda>x. x \<noteq> c) (xs @ c # ys) = c # ys"
  by (induction xs) auto

lemma takeWhile_neq_id [simp]: "c \<notin> set xs \<Longrightarrow> takeWhile (\<lambda>x. x \<noteq> c) xs = xs"
  by (induction xs) auto

lemma dropWhile_neq_id [simp]: "c \<notin> set xs \<Longrightarrow> dropWhile (\<lambda>x. x \<noteq> c) xs = []"
  by (induction xs) auto

lemma find_SomeD: "List.find P xs = Some x \<Longrightarrow> x \<in> set xs \<and> P x"
  by (induction xs) (auto split: if_splits)

lemma find_None_list_all: "List.find P xs = None \<longleftrightarrow> list_all (\<lambda>x. \<not> P x) xs"
  by (induction xs) auto

lemma sum_list_map_ge: "x \<in> set xs \<Longrightarrow> (f x :: nat) \<le> sum_list (map f xs)"
  by (induction xs) auto

text \<open>A map built by updates in order is the map of the list, when no key repeats.\<close>

lemma map_upd_map_add:
  "k \<notin> fst ` set ps \<Longrightarrow> m(k \<mapsto> v) ++ map_of ps = m ++ map_of ((k, v) # ps)"
  by (auto simp: fun_eq_iff map_add_def map_of_eq_None_iff [symmetric] split: option.split)

section \<open>Sorting by a key\<close>

text \<open>
  Go's \<open>sort.Slice\<close> with the comparison \<open>key(i) < key(j)\<close> is not stable; where the keys
  are pairwise distinct the sorted order is unique, so \<open>sort_key\<close> is it.
\<close>

lemma sorted_distinct_map_unique:
  assumes "sorted (map f xs)" "sorted (map f ys)" "distinct (map f xs)" "set xs = set ys"
    and "distinct (map f ys)"
  shows "xs = ys"
proof -
  have "map f xs = map f ys"
    using assms by (metis sorted_distinct_set_unique list.set_map)
  moreover have "inj_on f (set xs \<union> set ys)"
    using assms(3,4) by (simp add: distinct_map)
  ultimately show ?thesis by (rule map_inj_on)
qed

lemma sort_key_unique:
  assumes "distinct (map f xs)" "sorted (map f ys)" "set ys = set xs" "distinct (map f ys)"
  shows "sort_key f xs = ys"
proof (rule sorted_distinct_map_unique [where f = f])
  show "distinct (map f (sort_key f xs))"
    using assms(1) by (simp add: distinct_map)
qed (use assms in auto)

lemma distinct_map_sort_key: "distinct (map f xs) \<Longrightarrow> distinct (map f (sort_key g xs))"
  by (simp add: distinct_map)

lemma sorted_sort_string [simp]: "sorted (sort (xs :: 'a :: linorder list))"
  by simp

end
