(* ===== verification/GoText.thy ===== *)
theory GoText
  imports Prelude
begin

text \<open>
  The parts of Go's standard library that the marker code calls on text: runes and their
  classes (\<open>unicode\<close>), \<open>strings.Split\<close>, \<open>Cut\<close>, \<open>ReplaceAll\<close>, \<open>Trim\<close>,
  \<open>strconv.Itoa\<close>, \<open>Atoi\<close>, \<open>ParseUint\<close>, the \<open>%06X\<close> and \<open>%04x\<close> verbs of \<open>fmt\<close>.

  A string that the code treats rune by rune is a list of code points, a \<open>gostring\<close>:
  the code ranges over runes, so an ill-formed byte would reach it as U+FFFD.
\<close>

section \<open>Runes\<close>

type_synonym rune = nat
type_synonym gostring = "rune list"

definition S :: "string \<Rightarrow> gostring" where
  "S s = map of_char s"

lemma S_simps [simp]: "S [] = []" "S (c # cs) = of_char c # S cs"
  by (simp_all add: S_def)

lemma S_append: "S (xs @ ys) = S xs @ S ys"
  by (simp add: S_def)

abbreviation r_plus :: rune where "r_plus \<equiv> 43"
abbreviation r_at :: rune where "r_at \<equiv> 64"
abbreviation r_dot :: rune where "r_dot \<equiv> 46"
abbreviation r_colon :: rune where "r_colon \<equiv> 58"
abbreviation r_lbr :: rune where "r_lbr \<equiv> 91"
abbreviation r_rbr :: rune where "r_rbr \<equiv> 93"
abbreviation r_quote :: rune where "r_quote \<equiv> 34"
abbreviation r_bslash :: rune where "r_bslash \<equiv> 92"
abbreviation r_space :: rune where "r_space \<equiv> 32"
abbreviation r_hyphen :: rune where "r_hyphen \<equiv> 45"
abbreviation r_underscore :: rune where "r_underscore \<equiv> 95"

text \<open>The Unicode scalar values; \<open>WriteRune\<close> writes anything else as U+FFFD.\<close>

definition valid_rune :: "rune \<Rightarrow> bool" where
  "valid_rune r \<longleftrightarrow> r < 0xD800 \<or> 0xE000 \<le> r \<and> r \<le> 0x10FFFF"

definition write_rune :: "rune \<Rightarrow> rune" where
  "write_rune r = (if valid_rune r then r else 0xFFFD)"

definition valid_string :: "gostring \<Rightarrow> bool" where
  "valid_string s \<longleftrightarrow> (\<forall>r \<in> set s. valid_rune r)"

lemma write_rune_valid [simp]: "valid_rune r \<Longrightarrow> write_rune r = r"
  by (simp add: write_rune_def)

lemma valid_string_simps [simp]:
  "valid_string []" "valid_string (r # s) \<longleftrightarrow> valid_rune r \<and> valid_string s"
  "valid_string (s @ t) \<longleftrightarrow> valid_string s \<and> valid_string t"
  by (auto simp: valid_string_def)

text \<open>
  Package \<open>unicode\<close> answers from a fixed table up to U+00FF and from its range tables
  above it.  The range tables (generated data of the standard library) are the record
  \<open>unicode\<close>, one field per major category; the Latin-1 part is written out.
\<close>

record unicode =
  tabL :: "rune \<Rightarrow> bool"   \<comment> \<open>letters\<close>
  tabM :: "rune \<Rightarrow> bool"   \<comment> \<open>marks\<close>
  tabNd :: "rune \<Rightarrow> bool"  \<comment> \<open>decimal digits\<close>
  tabNx :: "rune \<Rightarrow> bool"  \<comment> \<open>the other numbers\<close>
  tabP :: "rune \<Rightarrow> bool"   \<comment> \<open>punctuation\<close>
  tabS :: "rune \<Rightarrow> bool"   \<comment> \<open>symbols\<close>
  tabZ :: "rune \<Rightarrow> bool"   \<comment> \<open>White_Space\<close>

definition ascii_lower :: "rune \<Rightarrow> bool" where "ascii_lower r \<longleftrightarrow> 97 \<le> r \<and> r \<le> 122"
definition ascii_upper :: "rune \<Rightarrow> bool" where "ascii_upper r \<longleftrightarrow> 65 \<le> r \<and> r \<le> 90"
definition ascii_digit :: "rune \<Rightarrow> bool" where "ascii_digit r \<longleftrightarrow> 48 \<le> r \<and> r \<le> 57"

definition isLetter :: "unicode \<Rightarrow> rune \<Rightarrow> bool" where
  "isLetter u r = (if r \<le> 0xFF
     then ascii_upper r \<or> ascii_lower r \<or> r = 0xAA \<or> r = 0xB5 \<or> r = 0xBA
       \<or> (0xC0 \<le> r \<and> r \<le> 0xD6) \<or> (0xD8 \<le> r \<and> r \<le> 0xF6) \<or> 0xF8 \<le> r
     else tabL u r)"

definition isDigit :: "unicode \<Rightarrow> rune \<Rightarrow> bool" where
  "isDigit u r = (if r \<le> 0xFF then ascii_digit r else tabNd u r)"

definition isPrint :: "unicode \<Rightarrow> rune \<Rightarrow> bool" where
  "isPrint u r = (if r \<le> 0xFF
     then (0x20 \<le> r \<and> r \<le> 0x7E) \<or> (0xA1 \<le> r \<and> r \<noteq> 0xAD)
     else tabL u r \<or> tabM u r \<or> tabNd u r \<or> tabNx u r \<or> tabP u r \<or> tabS u r)"

definition isSpace :: "unicode \<Rightarrow> rune \<Rightarrow> bool" where
  "isSpace u r = (if r \<le> 0xFF
     then (9 \<le> r \<and> r \<le> 13) \<or> r = 0x20 \<or> r = 0x85 \<or> r = 0xA0
     else tabZ u r)"

lemmas ascii_defs = ascii_lower_def ascii_upper_def ascii_digit_def

lemma isLetter_isPrint: "isLetter u r \<Longrightarrow> isPrint u r"
  by (auto simp: isLetter_def isPrint_def ascii_defs split: if_splits)

lemma isDigit_isPrint: "isDigit u r \<Longrightarrow> isPrint u r"
  by (auto simp: isDigit_def isPrint_def ascii_defs split: if_splits)

text \<open>A small concrete table, for evaluation: Greek letters, an en dash, the euro sign.\<close>

definition demo_unicode :: unicode where
  "demo_unicode = \<lparr>tabL = (\<lambda>r. 0x391 \<le> r \<and> r \<le> 0x3C9), tabM = (\<lambda>_. False), tabNd = (\<lambda>_. False),
     tabNx = (\<lambda>_. False), tabP = (\<lambda>r. r = 0x2013), tabS = (\<lambda>r. r = 0x20AC),
     tabZ = (\<lambda>r. r = 0x2003)\<rparr>"

section \<open>Numbers in text\<close>

fun digits_base :: "nat \<Rightarrow> nat \<Rightarrow> nat list" where
  "digits_base b n = (if b < 2 \<or> n < b then [n] else digits_base b (n div b) @ [n mod b])"

declare digits_base.simps [simp del]

fun of_digits :: "nat \<Rightarrow> nat \<Rightarrow> nat list \<Rightarrow> nat" where
  "of_digits b acc [] = acc"
| "of_digits b acc (d # ds) = of_digits b (acc * b + d) ds"

lemma of_digits_append: "of_digits b acc (xs @ ys) = of_digits b (of_digits b acc xs) ys"
  by (induction xs arbitrary: acc) auto

lemma of_digits_digits_base: "of_digits b 0 (digits_base b n) = n"
proof (induction b n rule: digits_base.induct)
  case (1 b n)
  then show ?case
    by (subst digits_base.simps) (auto simp: of_digits_append div_mult_mod_eq)
qed

lemma digits_base_bound: "2 \<le> b \<Longrightarrow> d \<in> set (digits_base b n) \<Longrightarrow> d < b"
proof (induction b n rule: digits_base.induct)
  case (1 b n)
  from "1.prems" show ?case
    by (subst (asm) digits_base.simps) (auto split: if_splits intro: "1.IH")
qed

lemma digits_base_nonempty [simp]: "digits_base b n \<noteq> []"
  by (subst digits_base.simps) auto

lemma length_digits_base: "2 \<le> b \<Longrightarrow> n < b ^ k \<Longrightarrow> 0 < k \<Longrightarrow> length (digits_base b n) \<le> k"
proof (induction b n arbitrary: k rule: digits_base.induct)
  case (1 b n)
  show ?case
  proof (cases "n < b")
    case True
    then show ?thesis using "1.prems" by (subst digits_base.simps) auto
  next
    case False
    with "1.prems" obtain k' where k: "k = Suc k'" by (cases k) auto
    with False "1.prems" have "0 < k'" by (cases k') auto
    with k have k: "k = Suc k'" "0 < k'" by auto
    then have "n div b < b ^ k'"
      using "1.prems" by (simp add: less_mult_imp_div_less mult.commute)
    then have "length (digits_base b (n div b)) \<le> k'"
      using False "1.prems" k by (intro "1.IH") auto
    then show ?thesis using False "1.prems" k by (subst digits_base.simps) auto
  qed
qed

lemma digits_base_hd: "2 \<le> b \<Longrightarrow> b \<le> n \<Longrightarrow> hd (digits_base b n) \<noteq> 0"
proof (induction b n rule: digits_base.induct)
  case (1 b n)
  show ?case
  proof (cases "b \<le> n div b")
    case True
    then show ?thesis using 1 by (subst digits_base.simps) (auto simp: hd_append)
  next
    case False
    then have "digits_base b (n div b) = [n div b]"
      using "1.prems" by (subst digits_base.simps) auto
    moreover have "n div b \<noteq> 0" using "1.prems" by (auto simp: div_eq_0_iff)
    ultimately show ?thesis using "1.prems" by (subst digits_base.simps) (auto simp: hd_append)
  qed
qed

definition digit_rune :: "nat \<Rightarrow> rune" where
  "digit_rune d = 48 + d"

definition upper_hex_rune :: "nat \<Rightarrow> rune" where
  "upper_hex_rune d = (if d < 10 then 48 + d else 55 + d)"

definition lower_hex_rune :: "nat \<Rightarrow> rune" where
  "lower_hex_rune d = (if d < 10 then 48 + d else 87 + d)"

definition hex_value :: "rune \<Rightarrow> nat option" where
  "hex_value r = (if ascii_digit r then Some (r - 48)
     else if 65 \<le> r \<and> r \<le> 70 then Some (r - 55)
     else if 97 \<le> r \<and> r \<le> 102 then Some (r - 87) else None)"

definition pad_left :: "nat \<Rightarrow> rune \<Rightarrow> gostring \<Rightarrow> gostring" where
  "pad_left w c s = replicate (w - length s) c @ s"

text \<open>\<open>strconv.Itoa\<close>, on the naturals and on the integers.\<close>

definition itoa_nat :: "nat \<Rightarrow> gostring" where
  "itoa_nat n = map digit_rune (digits_base 10 n)"

definition itoa :: "int \<Rightarrow> gostring" where
  "itoa i = (if i < 0 then r_hyphen # itoa_nat (nat (- i)) else itoa_nat (nat i))"

text \<open>\<open>strconv.Atoi\<close> on a 64-bit platform: an optional sign, then decimal digits.\<close>

definition parse_digits :: "gostring \<Rightarrow> nat option" where
  "parse_digits s = (if s \<noteq> [] \<and> list_all ascii_digit s
     then Some (of_digits 10 0 (map (\<lambda>r. r - 48) s)) else None)"

definition atoi :: "gostring \<Rightarrow> int option" where
  "atoi s = (let (neg, body) = (case s of [] \<Rightarrow> (False, [])
       | r # rs \<Rightarrow> if r = r_hyphen then (True, rs) else if r = r_plus then (False, rs) else (False, s))
     in case parse_digits body of None \<Rightarrow> None
        | Some n \<Rightarrow> let v = (if neg then - int n else int n)
                   in if - (2 ^ 63) \<le> v \<and> v < 2 ^ 63 then Some v else None)"

text \<open>\<open>strconv.ParseUint(s, 16, 32)\<close>: hexadecimal digits of either case, no sign or prefix.\<close>

definition parse_hex32 :: "gostring \<Rightarrow> nat option" where
  "parse_hex32 s = (if s \<noteq> [] \<and> list_all (\<lambda>r. hex_value r \<noteq> None) s
     then (let v = of_digits 16 0 (map (\<lambda>r. the (hex_value r)) s)
           in if v < 2 ^ 32 then Some v else None)
     else None)"

text \<open>\<open>fmt\<close>'s \<open>%06X\<close>, \<open>%04X\<close>, \<open>%04x\<close> and \<open>%08x\<close>.\<close>

definition fmt_X :: "nat \<Rightarrow> nat \<Rightarrow> gostring" where
  "fmt_X w n = pad_left w 48 (map upper_hex_rune (digits_base 16 n))"

definition fmt_x :: "nat \<Rightarrow> nat \<Rightarrow> gostring" where
  "fmt_x w n = pad_left w 48 (map lower_hex_rune (digits_base 16 n))"

lemma hex_value_upper [simp]: "d < 16 \<Longrightarrow> hex_value (upper_hex_rune d) = Some d"
  by (auto simp: hex_value_def upper_hex_rune_def ascii_defs)

lemma of_digits_replicate_0: "of_digits b 0 (replicate n 0 @ xs) = of_digits b 0 xs"
  by (induction n) auto

lemma map_hex_value_fmt:
  "map (\<lambda>r. the (hex_value r)) (fmt_X w n) = replicate (w - length (digits_base 16 n)) 0 @ digits_base 16 n"
proof -
  have "map ((\<lambda>r. the (hex_value r)) \<circ> upper_hex_rune) (digits_base 16 n) = map id (digits_base 16 n)"
    by (rule map_cong) (auto dest!: digits_base_bound [rotated])
  moreover have "hex_value 48 = Some 0" by (simp add: hex_value_def ascii_defs)
  ultimately show ?thesis by (simp add: fmt_X_def pad_left_def)
qed

lemma length_fmt_X: "n < 16 ^ w \<Longrightarrow> 0 < w \<Longrightarrow> length (fmt_X w n) = w"
  using length_digits_base [of 16 n w] by (simp add: fmt_X_def pad_left_def)

lemma hex_value_fmt_X: "r \<in> set (fmt_X w n) \<Longrightarrow> hex_value r \<noteq> None"
proof -
  assume "r \<in> set (fmt_X w n)"
  then consider "r = 48" | d where "d \<in> set (digits_base 16 n)" "r = upper_hex_rune d"
    by (auto simp: fmt_X_def pad_left_def split: if_splits)
  then show ?thesis
  proof cases
    case 1
    then show ?thesis by (simp add: hex_value_def ascii_defs)
  next
    case (2 d)
    then have "d < 16" using digits_base_bound [of 16 d n] by simp
    then show ?thesis using 2 by simp
  qed
qed

lemma parse_hex32_fmt_X:
  assumes "n < 2 ^ 32"
  shows "parse_hex32 (fmt_X w n) = Some n"
proof -
  have "list_all (\<lambda>r. hex_value r \<noteq> None) (fmt_X w n)"
    using hex_value_fmt_X by (simp add: list_all_iff)
  moreover have "fmt_X w n \<noteq> []" by (simp add: fmt_X_def pad_left_def)
  ultimately show ?thesis
    using assms by (simp add: parse_hex32_def map_hex_value_fmt of_digits_replicate_0 of_digits_digits_base)
qed

lemma fmt_X_alphabet: "r \<in> set (fmt_X w n) \<Longrightarrow> ascii_digit r \<or> (65 \<le> r \<and> r \<le> 70)"
proof -
  assume "r \<in> set (fmt_X w n)"
  then consider "r = 48" | d where "d \<in> set (digits_base 16 n)" "r = upper_hex_rune d"
    by (auto simp: fmt_X_def pad_left_def split: if_splits)
  then show ?thesis
    by cases (auto simp: upper_hex_rune_def ascii_defs dest!: digits_base_bound [rotated])
qed

lemma itoa_nat_nonempty [simp]: "itoa_nat n \<noteq> []"
  by (simp add: itoa_nat_def)

lemma itoa_nat_digits: "r \<in> set (itoa_nat n) \<Longrightarrow> ascii_digit r"
  by (auto simp: itoa_nat_def digit_rune_def ascii_defs dest!: digits_base_bound [rotated])

lemma map_digit_value: "map (\<lambda>r. r - 48) (itoa_nat n) = digits_base 10 n"
  by (simp add: itoa_nat_def digit_rune_def comp_def)

lemma parse_digits_itoa [simp]: "parse_digits (itoa_nat n) = Some n"
  by (auto simp: parse_digits_def map_digit_value of_digits_digits_base list_all_iff itoa_nat_digits)

lemma itoa_nat_inject [simp]: "itoa_nat m = itoa_nat n \<longleftrightarrow> m = n"
  by (metis option.inject parse_digits_itoa)

lemma atoi_itoa_nat: "n < 2 ^ 63 \<Longrightarrow> atoi (itoa_nat n) = Some (int n)"
proof -
  assume n: "n < 2 ^ 63"
  obtain r rs where s: "itoa_nat n = r # rs" by (cases "itoa_nat n") auto
  then have "ascii_digit r" using itoa_nat_digits [of r n] by simp
  then have "r \<noteq> r_hyphen" "r \<noteq> r_plus" by (auto simp: ascii_defs)
  then have "atoi (r # rs) = (case parse_digits (r # rs) of None \<Rightarrow> None
      | Some n \<Rightarrow> if - (2 ^ 63) \<le> int n \<and> int n < 2 ^ 63 then Some (int n) else None)"
    by (simp only: atoi_def list.case if_False Let_def prod.case split: option.split)
  moreover have "int n < 2 ^ 63"
    using n by (metis of_nat_less_iff of_nat_numeral of_nat_power)
  moreover have "- (2 ^ 63) \<le> int n" by simp
  moreover have "parse_digits (r # rs) = Some n" using parse_digits_itoa [of n] s by simp
  ultimately show ?thesis by (simp only: s option.case if_True simp_thms)
qed

section \<open>Splitting, cutting, replacing\<close>

text \<open>\<open>strings.Split(s, c)\<close> for a one-rune separator, and its inverse \<open>strings.Join\<close>.\<close>

fun split_on :: "rune \<Rightarrow> gostring \<Rightarrow> gostring list" where
  "split_on c [] = [[]]"
| "split_on c (x # xs) = (if x = c then [] # split_on c xs
     else (case split_on c xs of [] \<Rightarrow> [[x]] | p # ps \<Rightarrow> (x # p) # ps))"

fun join_with :: "rune \<Rightarrow> gostring list \<Rightarrow> gostring" where
  "join_with c [] = []"
| "join_with c [p] = p"
| "join_with c (p # q # ps) = p @ c # join_with c (q # ps)"

lemma split_on_nonempty [simp]: "split_on c s \<noteq> []"
  by (induction s) (auto split: list.splits)

lemma split_on_notin [split_simps]: "c \<notin> set p \<Longrightarrow> split_on c p = [p]"
  by (induction p) auto

lemma split_on_append [split_simps]: "c \<notin> set p \<Longrightarrow> split_on c (p @ c # s) = p # split_on c s"
  by (induction p) (auto split: list.splits)

lemma split_join: "ps \<noteq> [] \<Longrightarrow> \<forall>p \<in> set ps. c \<notin> set p \<Longrightarrow> split_on c (join_with c ps) = ps"
  by (induction c ps rule: join_with.induct) (auto simp: split_simps)

lemma join_with_Cons: "ps \<noteq> [] \<Longrightarrow> join_with c (p # ps) = p @ c # join_with c ps"
  by (cases ps) auto

lemma join_with_append:
  "ps \<noteq> [] \<Longrightarrow> qs \<noteq> [] \<Longrightarrow> join_with c (ps @ qs) = join_with c ps @ c # join_with c qs"
proof (induction ps)
  case (Cons p ps)
  then show ?case by (cases "ps = []") (auto simp: join_with_Cons)
qed simp

lemma split_on_parts_notin: "p \<in> set (split_on c s) \<Longrightarrow> c \<notin> set p"
  by (induction s arbitrary: p) (auto split: if_splits list.splits)

lemma join_split: "join_with c (split_on c s) = s"
proof (induction s)
  case (Cons x xs)
  then show ?case
    by (cases "split_on c xs") (auto simp: join_with_Cons split: if_splits
        intro: join_with_Cons [THEN trans] elim: list.set_cases, (metis append_Cons join_with.simps(2) join_with_Cons)+)
qed simp

lemma join_part_subset: "p \<in> set ps \<Longrightarrow> set p \<subseteq> set (join_with c ps)"
  by (induction c ps rule: join_with.induct) auto

text \<open>\<open>strings.Cut(s, c)\<close>.\<close>

definition cut_on :: "rune \<Rightarrow> gostring \<Rightarrow> gostring \<times> gostring \<times> bool" where
  "cut_on c s = (takeWhile (\<lambda>x. x \<noteq> c) s, tl (dropWhile (\<lambda>x. x \<noteq> c) s), c \<in> set s)"

lemma cut_on_notin [simp]: "c \<notin> set s \<Longrightarrow> cut_on c s = (s, [], False)"
  by (simp add: cut_on_def)

lemma cut_on_append [simp]: "c \<notin> set p \<Longrightarrow> cut_on c (p @ c # s) = (p, s, True)"
  by (simp add: cut_on_def)

text \<open>\<open>strings.ReplaceAll(s, c, new)\<close> for a one-rune \<open>c\<close>.\<close>

definition replace_all :: "rune \<Rightarrow> gostring \<Rightarrow> gostring \<Rightarrow> gostring" where
  "replace_all c new s = concat (map (\<lambda>r. if r = c then new else [r]) s)"

text \<open>\<open>strings.Trim(s, cutset)\<close> for a one-rune cutset.\<close>

definition trim_rune :: "rune \<Rightarrow> gostring \<Rightarrow> gostring" where
  "trim_rune c s = rev (dropWhile (\<lambda>x. x = c) (rev (dropWhile (\<lambda>x. x = c) s)))"

lemma dropWhile_eq_notin: "c \<notin> set s \<Longrightarrow> dropWhile (\<lambda>x. x = c) (s @ t) =
    (if s = [] then dropWhile (\<lambda>x. x = c) t else s @ t)"
  by (cases s) auto

lemma trim_rune_quoted:
  assumes "c \<notin> set s"
  shows "trim_rune c (c # s @ [c]) = s"
  using assms dropWhile_eq_notin [of c "rev s" "[]"]
  by (simp add: trim_rune_def dropWhile_eq_notin)

lemma trim_rune_notin [simp]: "c \<notin> set s \<Longrightarrow> trim_rune c s = s"
  using dropWhile_eq_notin [of c s "[]"] dropWhile_eq_notin [of c "rev s" "[]"]
  by (simp add: trim_rune_def split: if_splits)

end
