(* ===== verification/GoRegexp.thy ===== *)
theory GoRegexp
  imports GoText
begin

text \<open>
  The patterns the marker code compiles with \<open>regexp.MustCompile\<close>, all anchored at both
  ends: classes, sequences, alternatives, stars and bounded repeats.  \<open>rx_match\<close> is an
  executable matcher by derivatives, \<open>rx_lang\<close> the language a pattern denotes, and
  \<open>rx_match_iff\<close> says they agree.
\<close>

datatype rx = RNone | REps | RCls "rune \<Rightarrow> bool" | RSeq rx rx | RAlt rx rx | RStar rx

fun nullable :: "rx \<Rightarrow> bool" where
  "nullable RNone = False"
| "nullable REps = True"
| "nullable (RCls p) = False"
| "nullable (RSeq r s) = (nullable r \<and> nullable s)"
| "nullable (RAlt r s) = (nullable r \<or> nullable s)"
| "nullable (RStar r) = True"

fun mk_seq :: "rx \<Rightarrow> rx \<Rightarrow> rx" where
  "mk_seq RNone s = RNone"
| "mk_seq REps s = s"
| "mk_seq r s = RSeq r s"

fun mk_alt :: "rx \<Rightarrow> rx \<Rightarrow> rx" where
  "mk_alt RNone s = s"
| "mk_alt r RNone = r"
| "mk_alt r s = RAlt r s"

fun deriv :: "rune \<Rightarrow> rx \<Rightarrow> rx" where
  "deriv c RNone = RNone"
| "deriv c REps = RNone"
| "deriv c (RCls p) = (if p c then REps else RNone)"
| "deriv c (RSeq r s) = (if nullable r then mk_alt (mk_seq (deriv c r) s) (deriv c s)
     else mk_seq (deriv c r) s)"
| "deriv c (RAlt r s) = mk_alt (deriv c r) (deriv c s)"
| "deriv c (RStar r) = mk_seq (deriv c r) (RStar r)"

fun rx_match :: "rx \<Rightarrow> gostring \<Rightarrow> bool" where
  "rx_match r [] = nullable r"
| "rx_match r (c # s) = rx_match (deriv c r) s"

section \<open>The language of a pattern\<close>

inductive_set rx_star :: "gostring set \<Rightarrow> gostring set" for A where
  star_nil: "[] \<in> rx_star A"
| star_app: "u \<in> A \<Longrightarrow> v \<in> rx_star A \<Longrightarrow> u @ v \<in> rx_star A"

fun rx_lang :: "rx \<Rightarrow> gostring set" where
  "rx_lang RNone = {}"
| "rx_lang REps = {[]}"
| "rx_lang (RCls p) = {[c] | c. p c}"
| "rx_lang (RSeq r s) = {u @ v | u v. u \<in> rx_lang r \<and> v \<in> rx_lang s}"
| "rx_lang (RAlt r s) = rx_lang r \<union> rx_lang s"
| "rx_lang (RStar r) = rx_star (rx_lang r)"

lemma nullable_iff: "nullable r \<longleftrightarrow> [] \<in> rx_lang r"
  by (induction r) (auto intro: star_nil)

lemma lang_mk_seq [simp]: "rx_lang (mk_seq r s) = rx_lang (RSeq r s)"
  by (cases r) auto

lemma lang_mk_alt [simp]: "rx_lang (mk_alt r s) = rx_lang (RAlt r s)"
  by (cases r; cases s) auto

lemma star_Cons:
  "c # s \<in> rx_star A \<longleftrightarrow> (\<exists>u v. s = u @ v \<and> c # u \<in> A \<and> v \<in> rx_star A)" (is "?L \<longleftrightarrow> ?R")
proof
  have "t = c # s \<Longrightarrow> ?R" if "t \<in> rx_star A" for t
    using that
  proof (induction arbitrary: c s rule: rx_star.induct)
    case (star_app u v)
    then show ?case by (cases u) auto
  qed simp
  then show "?L \<Longrightarrow> ?R" by blast
next
  assume ?R
  then obtain u v where "s = u @ v" "c # u \<in> A" "v \<in> rx_star A" by blast
  then show ?L using star_app [of "c # u" A v] by simp
qed

lemma star_nonempty:
  assumes "[] \<notin> A"
  shows "(\<exists>u v. s = u @ v \<and> u \<in> A \<and> v \<in> rx_star A) \<longleftrightarrow> s \<noteq> [] \<and> s \<in> rx_star A" (is "?L \<longleftrightarrow> ?R")
proof
  show "?L \<Longrightarrow> ?R" using assms by (auto intro: star_app)
next
  assume R: ?R
  then obtain c t where s: "s = c # t" by (cases s) auto
  then obtain u v where "t = u @ v" "c # u \<in> A" "v \<in> rx_star A" using R by (auto simp: star_Cons)
  then show ?L using s by (intro exI [of _ "c # u"] exI [of _ v]) simp
qed

lemma lang_deriv: "s \<in> rx_lang (deriv c r) \<longleftrightarrow> c # s \<in> rx_lang r"
proof (induction r arbitrary: s)
  case (RSeq r1 r2)
  have seq: "c # s \<in> rx_lang (RSeq r1 r2) \<longleftrightarrow>
      (\<exists>u v. s = u @ v \<and> c # u \<in> rx_lang r1 \<and> v \<in> rx_lang r2) \<or> (nullable r1 \<and> c # s \<in> rx_lang r2)"
    unfolding nullable_iff by (auto simp: Cons_eq_append_conv)
  show ?case unfolding seq by (auto simp: RSeq.IH)
next
  case (RStar r)
  show ?case by (auto simp: RStar.IH star_Cons)
qed auto

theorem rx_match_iff: "rx_match r s \<longleftrightarrow> s \<in> rx_lang r"
  by (induction s arbitrary: r) (auto simp: nullable_iff lang_deriv)

section \<open>Derived forms\<close>

definition r_opt :: "rx \<Rightarrow> rx" where "r_opt r = RAlt r REps"
definition r_plus1 :: "rx \<Rightarrow> rx" where "r_plus1 r = RSeq r (RStar r)"
definition r_lit :: "rune \<Rightarrow> rx" where "r_lit c = RCls (\<lambda>x. x = c)"

text \<open>\<open>r{0,n}\<close>, nested as Go's own simplifier nests it.\<close>

fun r_upto :: "nat \<Rightarrow> rx \<Rightarrow> rx" where
  "r_upto 0 r = REps"
| "r_upto (Suc n) r = r_opt (RSeq r (r_upto n r))"

lemma lang_r_lit [simp]: "rx_lang (r_lit c) = {[c]}"
  by (simp add: r_lit_def)

lemma lang_r_opt [simp]: "rx_lang (r_opt r) = insert [] (rx_lang r)"
  by (auto simp: r_opt_def)

lemma lang_star_cls: "s \<in> rx_star {[c] | c. p c} \<longleftrightarrow> list_all p s"
  by (induction s) (auto simp: star_Cons intro: star_nil)

lemma lang_seq_cls: "s \<in> rx_lang (RSeq (RCls p) r) \<longleftrightarrow> (\<exists>c t. s = c # t \<and> p c \<and> t \<in> rx_lang r)"
proof
  assume "\<exists>c t. s = c # t \<and> p c \<and> t \<in> rx_lang r"
  then obtain c t where "s = [c] @ t" "p c" "t \<in> rx_lang r" by auto
  then show "s \<in> rx_lang (RSeq (RCls p) r)" by (auto simp del: append_Cons append_Nil)
qed auto

lemma lang_cls_star: "s \<in> rx_lang (RSeq (RCls p) (RStar (RCls q))) \<longleftrightarrow>
    (\<exists>c t. s = c # t \<and> p c \<and> list_all q t)"
  unfolding lang_seq_cls by (simp add: lang_star_cls)

lemma lang_plus_cls: "s \<in> rx_lang (r_plus1 (RCls p)) \<longleftrightarrow> s \<noteq> [] \<and> list_all p s"
  unfolding r_plus1_def lang_cls_star by (auto simp: neq_Nil_conv)

lemma lang_r_upto: "s \<in> rx_lang (r_upto n (RCls p)) \<longleftrightarrow> length s \<le> n \<and> list_all p s"
proof (induction n arbitrary: s)
  case (Suc n)
  show ?case
  proof (cases s)
    case (Cons c t)
    have "s \<in> rx_lang (r_upto (Suc n) (RCls p)) \<longleftrightarrow> p c \<and> t \<in> rx_lang (r_upto n (RCls p))"
      unfolding r_upto.simps lang_r_opt insert_iff lang_seq_cls using Cons by auto
    then show ?thesis using Suc.IH Cons by auto
  qed simp
qed auto

end
