(* ===== verification/Addrs.thy ===== *)
theory Addrs
  imports GoText "HOL-Library.Product_Lexorder"
begin

text \<open>
  Resource addresses, from \<open>internal/addrs\<close>: instance keys (\<open>instance_key.go\<close>), module
  instances (\<open>module_instance.go\<close>, \<open>module.go\<close>), resources and resource instances
  (\<open>resource.go\<close>), their text form, their sort order and the containment test that
  \<open>-target\<close> uses.  The order is proved a strict total order by ranking every address in a
  linearly ordered type.
\<close>

section \<open>Instance keys\<close>

datatype instance_key_type = NoKeyType | IntKeyType | StringKeyType | UnknownKeyType

fun key_type_rune :: "instance_key_type \<Rightarrow> rune" where
  "key_type_rune NoKeyType = 0"
| "key_type_rune IntKeyType = 73"
| "key_type_rune StringKeyType = 83"
| "key_type_rune UnknownKeyType = 63"

text \<open>The enumeration is compared as its runes are (\<open>uint32(iTy) < uint32(jTy)\<close>).\<close>

instantiation instance_key_type :: linorder
begin

definition less_eq_instance_key_type :: "instance_key_type \<Rightarrow> instance_key_type \<Rightarrow> bool" where
  "less_eq_instance_key_type a b \<longleftrightarrow> key_type_rune a \<le> key_type_rune b"

definition less_instance_key_type :: "instance_key_type \<Rightarrow> instance_key_type \<Rightarrow> bool" where
  "less_instance_key_type a b \<longleftrightarrow> key_type_rune a < key_type_rune b"

instance
proof
  fix a b :: instance_key_type
  show "a \<le> b \<Longrightarrow> b \<le> a \<Longrightarrow> a = b"
    by (cases a; cases b) (auto simp: less_eq_instance_key_type_def)
qed (auto simp: less_eq_instance_key_type_def less_instance_key_type_def)

end

datatype instance_key = NoKey | IntKey int | StringKey gostring | WildcardKey instance_key_type

definition r_lbrace :: rune where "r_lbrace = 123"

text \<open>
  \<open>toHCLQuotedString\<close>: the body loop, one rune at a time with the text after it.
  92 is the backslash, 110, 114, 116, 117 and 85 are n, r, t, u and U.
\<close>

fun hcl_quote_body :: "unicode \<Rightarrow> gostring \<Rightarrow> gostring" where
  "hcl_quote_body u [] = []"
| "hcl_quote_body u (r # remain) =
     (if r = 10 then [r_bslash, 110]
      else if r = 13 then [r_bslash, 114]
      else if r = 9 then [r_bslash, 116]
      else if r = r_quote then [r_bslash, r_quote]
      else if r = r_bslash then [r_bslash, r_bslash]
      else if r = 36 \<or> r = 37 then
        r # (if remain \<noteq> [] \<and> hd remain = r_lbrace then [r] else [])
      else if \<not> isPrint u r then
        (if r < 65536 then r_bslash # 117 # fmt_x 4 r else r_bslash # 85 # fmt_x 8 r)
      else [r]) @ hcl_quote_body u remain"

definition toHCLQuotedString :: "unicode \<Rightarrow> gostring \<Rightarrow> gostring" where
  "toHCLQuotedString u s = (if s = [] then [r_quote, r_quote]
     else r_quote # hcl_quote_body u s @ [r_quote])"

fun key_string :: "unicode \<Rightarrow> instance_key \<Rightarrow> gostring" where
  "key_string u NoKey = []"
| "key_string u (IntKey n) = r_lbr # itoa n @ [r_rbr]"
| "key_string u (StringKey s) = r_lbr # toHCLQuotedString u s @ [r_rbr]"
| "key_string u (WildcardKey t) = S ''[*]''"

fun instanceKeyType :: "instance_key \<Rightarrow> instance_key_type" where
  "instanceKeyType (StringKey _) = StringKeyType"
| "instanceKeyType (IntKey _) = IntKeyType"
| "instanceKeyType (WildcardKey t) = t"
| "instanceKeyType NoKey = NoKeyType"

text \<open>
  \<open>InstanceKeyLess\<close>.  The type assertions \<open>i.(IntKey)\<close> and \<open>i.(StringKey)\<close> panic on a
  wildcard key of the same key type, so the result is \<open>None\<close> there.
\<close>

definition InstanceKeyLess :: "instance_key \<Rightarrow> instance_key \<Rightarrow> bool option" where
  "InstanceKeyLess i j = (let iTy = instanceKeyType i; jTy = instanceKeyType j in
     if i = j then Some False
     else if i = NoKey then Some True
     else if j = NoKey then Some False
     else if iTy \<noteq> jTy then Some (iTy < jTy)
     else if iTy = IntKeyType then
       (case (i, j) of (IntKey m, IntKey n) \<Rightarrow> Some (m < n) | _ \<Rightarrow> None)
     else if iTy = StringKeyType then
       (case (i, j) of (StringKey s, StringKey t) \<Rightarrow> Some (s < t) | _ \<Rightarrow> None)
     else Some False)"

fun concrete_key :: "instance_key \<Rightarrow> bool" where
  "concrete_key (WildcardKey _) = False"
| "concrete_key _ = True"

fun key_rank :: "instance_key \<Rightarrow> nat \<times> int \<times> gostring" where
  "key_rank NoKey = (0, 0, [])"
| "key_rank (IntKey n) = (73, n, [])"
| "key_rank (StringKey s) = (83, 0, s)"
| "key_rank (WildcardKey t) = (84, 0, [])"

lemma key_rank_inject: "concrete_key i \<Longrightarrow> concrete_key j \<Longrightarrow> key_rank i = key_rank j \<longleftrightarrow> i = j"
  by (cases i; cases j) auto

lemma InstanceKeyLess_rank:
  "concrete_key i \<Longrightarrow> concrete_key j \<Longrightarrow> InstanceKeyLess i j = Some (key_rank i < key_rank j)"
  by (cases i; cases j) (auto simp: InstanceKeyLess_def less_instance_key_type_def)

section \<open>Modules and resources\<close>

record module_step =
  step_name :: gostring
  step_key :: instance_key

type_synonym module_instance = "module_step list"
type_synonym module_path = "gostring list"

datatype resource_mode = InvalidResourceMode | ManagedResourceMode | DataResourceMode | EphemeralResourceMode

record resource =
  res_mode :: resource_mode
  res_type :: gostring
  res_name :: gostring

record resource_instance =
  ri_resource :: resource
  ri_key :: instance_key

record abs_resource =
  ar_module :: module_instance
  ar_resource :: resource

record abs_resource_instance =
  ari_module :: module_instance
  ari_resource :: resource_instance

record config_resource =
  cr_module :: module_path
  cr_resource :: resource

definition step_string :: "unicode \<Rightarrow> module_step \<Rightarrow> gostring" where
  "step_string u st = S ''module.'' @ step_name st @ key_string u (step_key st)"

text \<open>\<open>ModuleInstance.String\<close>, with the separator written before every step but the first.\<close>

definition module_instance_string :: "unicode \<Rightarrow> module_instance \<Rightarrow> gostring" where
  "module_instance_string u m = join_with r_dot (map (step_string u) m)"

definition module_string :: "module_path \<Rightarrow> gostring" where
  "module_string m = join_with r_dot (map (\<lambda>n. S ''module.'' @ n) m)"

definition resource_string :: "resource \<Rightarrow> gostring" where
  "resource_string r = (case res_mode r of
       ManagedResourceMode \<Rightarrow> res_type r @ r_dot # res_name r
     | DataResourceMode \<Rightarrow> S ''data.'' @ res_type r @ r_dot # res_name r
     | EphemeralResourceMode \<Rightarrow> S ''ephemeral.'' @ res_type r @ r_dot # res_name r
     | InvalidResourceMode \<Rightarrow> S ''<invalid>.'' @ res_type r @ r_dot # res_name r)"

definition resource_instance_string :: "unicode \<Rightarrow> resource_instance \<Rightarrow> gostring" where
  "resource_instance_string u r = (if ri_key r = NoKey then resource_string (ri_resource r)
     else resource_string (ri_resource r) @ key_string u (ri_key r))"

definition abs_resource_string :: "unicode \<Rightarrow> abs_resource \<Rightarrow> gostring" where
  "abs_resource_string u r = (if ar_module r = [] then resource_string (ar_resource r)
     else module_instance_string u (ar_module r) @ r_dot # resource_string (ar_resource r))"

definition abs_resource_instance_string :: "unicode \<Rightarrow> abs_resource_instance \<Rightarrow> gostring" where
  "abs_resource_instance_string u r =
     (if ari_module r = [] then resource_instance_string u (ari_resource r)
      else module_instance_string u (ari_module r) @ r_dot # resource_instance_string u (ari_resource r))"

definition config_resource_string :: "config_resource \<Rightarrow> gostring" where
  "config_resource_string r = (if cr_module r = [] then resource_string (cr_resource r)
     else module_string (cr_module r) @ r_dot # resource_string (cr_resource r))"

section \<open>Equality and order\<close>

definition ResourceModeLess :: "resource_mode \<Rightarrow> resource_mode \<Rightarrow> bool" where
  "ResourceModeLess a b = (case a of
       ManagedResourceMode \<Rightarrow> False
     | DataResourceMode \<Rightarrow> b = ManagedResourceMode
     | EphemeralResourceMode \<Rightarrow> b = ManagedResourceMode \<or> b = DataResourceMode
     | InvalidResourceMode \<Rightarrow> False)"

definition resource_less :: "resource \<Rightarrow> resource \<Rightarrow> bool" where
  "resource_less r o' =
     (if res_mode r \<noteq> res_mode o' then ResourceModeLess (res_mode r) (res_mode o')
      else if res_type r \<noteq> res_type o' then res_type r < res_type o'
      else if res_name r \<noteq> res_name o' then res_name r < res_name o'
      else False)"

definition resource_instance_less :: "resource_instance \<Rightarrow> resource_instance \<Rightarrow> bool option" where
  "resource_instance_less r o' =
     (if ri_resource r \<noteq> ri_resource o' then Some (resource_less (ri_resource r) (ri_resource o'))
      else if ri_key r \<noteq> ri_key o' then InstanceKeyLess (ri_key r) (ri_key o')
      else Some False)"

text \<open>The loop of \<open>ModuleInstance.Less\<close> over two paths of one length.\<close>

fun module_steps_less :: "module_instance \<Rightarrow> module_instance \<Rightarrow> bool option" where
  "module_steps_less (m # ms) (n # ns) =
     (if step_name m \<noteq> step_name n then Some (step_name m < step_name n)
      else if step_key m \<noteq> step_key n then InstanceKeyLess (step_key m) (step_key n)
      else module_steps_less ms ns)"
| "module_steps_less _ _ = Some False"

definition module_instance_less :: "module_instance \<Rightarrow> module_instance \<Rightarrow> bool option" where
  "module_instance_less m o' = (if length m \<noteq> length o' then Some (length m < length o')
     else module_steps_less m o')"

definition abs_resource_instance_less :: "abs_resource_instance \<Rightarrow> abs_resource_instance \<Rightarrow> bool option" where
  "abs_resource_instance_less r o' =
     (if ari_module r \<noteq> ari_module o' then module_instance_less (ari_module r) (ari_module o')
      else if ari_resource r \<noteq> ari_resource o' then resource_instance_less (ari_resource r) (ari_resource o')
      else Some False)"

section \<open>Ancestors and target containment\<close>

definition module_ancestors :: "module_instance \<Rightarrow> module_instance list" where
  "module_ancestors m = map (\<lambda>i. take i m) [0..<Suc (length m)]"

fun ancestor_steps :: "module_instance \<Rightarrow> module_instance \<Rightarrow> bool" where
  "ancestor_steps (ms # m) (os # o') =
     (if step_name ms \<noteq> step_name os then False
      else if step_key ms \<noteq> NoKey \<and> step_key ms \<noteq> step_key os then False
      else ancestor_steps m o')"
| "ancestor_steps _ _ = True"

definition module_IsAncestor :: "module_instance \<Rightarrow> module_instance \<Rightarrow> bool" where
  "module_IsAncestor m o' = (if length m \<ge> length o' then False else ancestor_steps m o')"

definition module_of :: "module_instance \<Rightarrow> module_path" where
  "module_of m = map step_name m"

definition module_HasSameModule :: "module_instance \<Rightarrow> module_instance \<Rightarrow> bool" where
  "module_HasSameModule m o' = (if length m \<noteq> length o' then False
     else list_all2 (\<lambda>a b. step_name a = step_name b) m o')"

definition module_IsForModule :: "module_instance \<Rightarrow> module_path \<Rightarrow> bool" where
  "module_IsForModule m p = (if length m \<noteq> length p then False
     else list_all2 (\<lambda>a n. step_name a = n) m p)"

datatype targetable = TModule module_path | TModuleInstance module_instance
  | TConfigResource config_resource | TAbsResource abs_resource | TAbsResourceInstance abs_resource_instance

text \<open>The two loops of \<open>ModuleInstance.TargetContains\<close>.\<close>

fun contains_module_path :: "module_instance \<Rightarrow> module_path \<Rightarrow> bool" where
  "contains_module_path (st # m) (n # ns) =
     (if step_key st \<noteq> NoKey then False
      else if step_name st \<noteq> n then False
      else contains_module_path m ns)"
| "contains_module_path _ _ = True"

fun contains_module_steps :: "module_instance \<Rightarrow> module_instance \<Rightarrow> bool" where
  "contains_module_steps (st # m) (os # o') =
     (if step_name st \<noteq> step_name os then False
      else if m = [] \<and> step_key st = NoKey then True
      else if step_key st \<noteq> step_key os then False
      else contains_module_steps m o')"
| "contains_module_steps _ _ = True"

definition mi_contains_module :: "module_instance \<Rightarrow> module_path \<Rightarrow> bool" where
  "mi_contains_module m p = (if length p < length m then False else contains_module_path m p)"

definition mi_contains_mi :: "module_instance \<Rightarrow> module_instance \<Rightarrow> bool" where
  "mi_contains_mi m o' = (if length o' < length m then False else contains_module_steps m o')"

fun module_instance_TargetContains :: "module_instance \<Rightarrow> targetable \<Rightarrow> bool" where
  "module_instance_TargetContains m (TModule p) = mi_contains_module m p"
| "module_instance_TargetContains m (TModuleInstance o') = mi_contains_mi m o'"
| "module_instance_TargetContains m (TConfigResource c) = mi_contains_module m (cr_module c)"
| "module_instance_TargetContains m (TAbsResource r) = mi_contains_mi m (ar_module r)"
| "module_instance_TargetContains m (TAbsResourceInstance r) = mi_contains_mi m (ari_module r)"

definition path_contains :: "module_path \<Rightarrow> module_path \<Rightarrow> bool" where
  "path_contains m p = (if length p < length m then False else take (length m) p = m)"

fun module_TargetContains :: "module_path \<Rightarrow> targetable \<Rightarrow> bool" where
  "module_TargetContains m (TModule p) = path_contains m p"
| "module_TargetContains m (TModuleInstance o') = path_contains m (module_of o')"
| "module_TargetContains m (TConfigResource c) = path_contains m (cr_module c)"
| "module_TargetContains m (TAbsResource r) = path_contains m (module_of (ar_module r))"
| "module_TargetContains m (TAbsResourceInstance r) = path_contains m (module_of (ari_module r))"

definition containing_resource :: "abs_resource_instance \<Rightarrow> abs_resource" where
  "containing_resource r = \<lparr>ar_module = ari_module r, ar_resource = ri_resource (ari_resource r)\<rparr>"

definition abs_resource_config :: "abs_resource \<Rightarrow> config_resource" where
  "abs_resource_config r = \<lparr>cr_module = module_of (ar_module r), cr_resource = ar_resource r\<rparr>"

fun abs_resource_TargetContains :: "unicode \<Rightarrow> abs_resource \<Rightarrow> targetable \<Rightarrow> bool" where
  "abs_resource_TargetContains u r (TAbsResource to) = (abs_resource_string u to = abs_resource_string u r)"
| "abs_resource_TargetContains u r (TConfigResource to) = (config_resource_string to = abs_resource_string u r)"
| "abs_resource_TargetContains u r (TAbsResourceInstance to) =
     (abs_resource_string u (containing_resource to) = abs_resource_string u r)"
| "abs_resource_TargetContains u r _ = False"

fun abs_resource_instance_TargetContains :: "unicode \<Rightarrow> abs_resource_instance \<Rightarrow> targetable \<Rightarrow> bool" where
  "abs_resource_instance_TargetContains u r (TAbsResourceInstance to) =
     (abs_resource_instance_string u to = abs_resource_instance_string u r)"
| "abs_resource_instance_TargetContains u r (TConfigResource to) =
     (config_resource_string to = abs_resource_instance_string u r)"
| "abs_resource_instance_TargetContains u r (TAbsResource to) =
     (abs_resource_string u to = abs_resource_instance_string u r)"
| "abs_resource_instance_TargetContains u r _ = False"

fun config_resource_TargetContains :: "config_resource \<Rightarrow> targetable \<Rightarrow> bool" where
  "config_resource_TargetContains r (TConfigResource to) =
     (config_resource_string to = config_resource_string r)"
| "config_resource_TargetContains r (TAbsResource to) =
     (config_resource_string (abs_resource_config to) = config_resource_string r)"
| "config_resource_TargetContains r (TAbsResourceInstance to) =
     (config_resource_string (abs_resource_config (containing_resource to)) = config_resource_string r)"
| "config_resource_TargetContains r _ = False"

section \<open>The order is a strict total order\<close>

fun mode_rank :: "resource_mode \<Rightarrow> nat" where
  "mode_rank EphemeralResourceMode = 0"
| "mode_rank DataResourceMode = 1"
| "mode_rank ManagedResourceMode = 2"
| "mode_rank InvalidResourceMode = 3"

definition resource_rank :: "resource \<Rightarrow> nat \<times> gostring \<times> gostring" where
  "resource_rank r = (mode_rank (res_mode r), res_type r, res_name r)"

definition step_rank :: "module_step \<Rightarrow> gostring \<times> nat \<times> int \<times> gostring" where
  "step_rank st = (step_name st, key_rank (step_key st))"

definition abs_rank :: "abs_resource_instance \<Rightarrow>
    (nat \<times> (gostring \<times> nat \<times> int \<times> gostring) list) \<times> (nat \<times> gostring \<times> gostring) \<times> (nat \<times> int \<times> gostring)" where
  "abs_rank r = ((length (ari_module r), map step_rank (ari_module r)),
     resource_rank (ri_resource (ari_resource r)), key_rank (ri_key (ari_resource r)))"

text \<open>The addresses that name a real instance: no wildcard keys, a mode that exists.\<close>

definition concrete_address :: "abs_resource_instance \<Rightarrow> bool" where
  "concrete_address r \<longleftrightarrow> list_all (\<lambda>st. concrete_key (step_key st)) (ari_module r)
     \<and> concrete_key (ri_key (ari_resource r)) \<and> res_mode (ri_resource (ari_resource r)) \<noteq> InvalidResourceMode"

lemma pair_less_iff: "(a, b) < (c, d) \<longleftrightarrow> a < c \<or> a = c \<and> b < d"
  for a c :: "'a :: order" and b d :: "'b :: order"
  by (auto simp: order_le_less)

declare less_prod_simp [simp del] pair_less_iff [simp]

lemma mode_rank_inject [simp]: "mode_rank a = mode_rank b \<longleftrightarrow> a = b"
  by (cases a; cases b) auto

lemma resource_rank_inject: "resource_rank r = resource_rank s \<longleftrightarrow> r = s"
  by (auto simp: resource_rank_def)

lemma ResourceModeLess_rank:
  "a \<noteq> InvalidResourceMode \<Longrightarrow> b \<noteq> InvalidResourceMode \<Longrightarrow> ResourceModeLess a b \<longleftrightarrow> mode_rank a < mode_rank b"
  by (cases a; cases b) (auto simp: ResourceModeLess_def)

lemma resource_less_rank:
  assumes "res_mode r \<noteq> InvalidResourceMode" "res_mode s \<noteq> InvalidResourceMode"
  shows "resource_less r s \<longleftrightarrow> resource_rank r < resource_rank s"
  using assms by (auto simp: resource_less_def resource_rank_def ResourceModeLess_rank)

lemma step_rank_inject:
  "concrete_key (step_key a) \<Longrightarrow> concrete_key (step_key b) \<Longrightarrow> step_rank a = step_rank b \<longleftrightarrow> a = b"
  by (cases a; cases b) (auto simp: step_rank_def key_rank_inject)

lemma module_steps_less_rank:
  assumes "length m = length n" "list_all (\<lambda>st. concrete_key (step_key st)) m"
    "list_all (\<lambda>st. concrete_key (step_key st)) n"
  shows "module_steps_less m n = Some (map step_rank m < map step_rank n)"
  using assms
proof (induction m n rule: list_induct2)
  case (Cons x xs y ys)
  then show ?case
    by (auto simp: step_rank_def InstanceKeyLess_rank key_rank_inject)
qed simp

lemma map_step_rank_inject:
  assumes "list_all (\<lambda>st. concrete_key (step_key st)) m" "list_all (\<lambda>st. concrete_key (step_key st)) n"
  shows "map step_rank m = map step_rank n \<longleftrightarrow> m = n"
  using assms
proof (induction m arbitrary: n)
  case (Cons x xs)
  then show ?case by (cases n) (auto simp: step_rank_inject)
qed auto

lemma module_instance_less_rank:
  assumes "list_all (\<lambda>st. concrete_key (step_key st)) m" "list_all (\<lambda>st. concrete_key (step_key st)) n"
  shows "module_instance_less m n = Some ((length m, map step_rank m) < (length n, map step_rank n))"
  using assms by (auto simp: module_instance_less_def module_steps_less_rank)

lemma resource_instance_less_rank:
  assumes "concrete_key (ri_key r)" "concrete_key (ri_key s)"
    "res_mode (ri_resource r) \<noteq> InvalidResourceMode" "res_mode (ri_resource s) \<noteq> InvalidResourceMode"
  shows "resource_instance_less r s =
    Some ((resource_rank (ri_resource r), key_rank (ri_key r)) < (resource_rank (ri_resource s), key_rank (ri_key s)))"
  using assms
  by (auto simp: resource_instance_less_def resource_less_rank resource_rank_inject InstanceKeyLess_rank)

lemma abs_rank_inject:
  assumes "concrete_address r" "concrete_address s"
  shows "abs_rank r = abs_rank s \<longleftrightarrow> r = s"
  using assms
  by (auto simp: abs_rank_def concrete_address_def map_step_rank_inject resource_rank_inject key_rank_inject
      intro!: abs_resource_instance.equality resource_instance.equality)

lemma abs_resource_instance_less_rank:
  assumes "concrete_address r" "concrete_address s"
  shows "abs_resource_instance_less r s = Some (abs_rank r < abs_rank s)"
proof (cases "ari_module r = ari_module s")
  case True
  then show ?thesis
    using assms
    by (auto simp: abs_resource_instance_less_def resource_instance_less_rank concrete_address_def abs_rank_def)
next
  case False
  then show ?thesis
    using assms map_step_rank_inject [of "ari_module r" "ari_module s"]
    by (auto simp: abs_resource_instance_less_def module_instance_less_rank concrete_address_def abs_rank_def)
qed

text \<open>
  \<open>AbsResourceInstance.Less\<close>, the order every sorted list of addresses is in, is a strict
  total order on concrete addresses and never panics on them: an address is not less than
  itself, of two different addresses exactly one is less than the other, and the order is
  transitive.
\<close>

theorem address_less_strict_total_order:
  assumes "concrete_address a" "concrete_address b" "concrete_address c"
  shows "abs_resource_instance_less a a = Some False
    \<and> (a \<noteq> b \<longrightarrow> abs_resource_instance_less a b = Some True \<and> abs_resource_instance_less b a = Some False
          \<or> abs_resource_instance_less a b = Some False \<and> abs_resource_instance_less b a = Some True)
    \<and> (abs_resource_instance_less a b = Some True \<and> abs_resource_instance_less b c = Some True \<longrightarrow>
         abs_resource_instance_less a c = Some True)"
  using assms abs_rank_inject [OF assms(1,2)]
  by (auto simp: abs_resource_instance_less_rank)

definition demo_instance :: "gostring \<Rightarrow> instance_key \<Rightarrow> abs_resource_instance" where
  "demo_instance n k = \<lparr>ari_module = [], ari_resource = \<lparr>ri_resource =
     \<lparr>res_mode = ManagedResourceMode, res_type = S ''t'', res_name = n\<rparr>, ri_key = k\<rparr>\<rparr>"

theorem address_less_strict_total_order_witness:
  "abs_resource_instance_less (demo_instance (S ''a'') NoKey) (demo_instance (S ''a'') (StringKey [])) = Some True"
  using address_less_strict_total_order [of "demo_instance (S ''a'') NoKey" "demo_instance (S ''a'') (IntKey 3)"
      "demo_instance (S ''a'') (StringKey [])"]
  by (simp add: concrete_address_def demo_instance_def abs_resource_instance_less_def resource_instance_less_def
      InstanceKeyLess_def less_instance_key_type_def)

text \<open>A wildcard key against a concrete key of its own type makes the comparison panic.\<close>

lemma InstanceKeyLess_wildcard_panics:
  "InstanceKeyLess (WildcardKey StringKeyType) (StringKey s) = None"
  by (simp add: InstanceKeyLess_def)

section \<open>Target containment\<close>

lemma contains_steps_iff:
  assumes "length m \<le> length o'" "m \<noteq> []"
  shows "contains_module_steps m o' \<longleftrightarrow>
    take (length m - 1) o' = butlast m \<and> step_name (o' ! (length m - 1)) = step_name (last m)
    \<and> (step_key (last m) = NoKey \<or> step_key (o' ! (length m - 1)) = step_key (last m))"
  using assms
proof (induction m o' rule: contains_module_steps.induct)
  case (1 st m os o')
  show ?case
  proof (cases "m = []")
    case False
    then have "contains_module_steps (st # m) (os # o') \<longleftrightarrow> st = os \<and> contains_module_steps m o'"
      by (auto intro: module_step.equality)
    then show ?thesis using 1 False by (cases "length m") (auto simp: nth_Cons')
  qed auto
qed auto

lemma contains_steps_append:
  "length m \<le> length o' \<Longrightarrow> contains_module_steps m o' \<Longrightarrow> contains_module_steps m (o' @ below)"
  by (induction m o' rule: contains_module_steps.induct) (auto split: if_splits)

text \<open>
  What \<open>-target=module...\<close> selects: a module instance address contains another exactly when
  the other is at least as deep, agrees with it on every step before the last, and agrees on the
  last step's name and, unless the target's last step has no key, on its key; and then it contains
  everything in the modules below it too.
\<close>

theorem module_target_contains:
  assumes "m \<noteq> []"
  shows "(module_instance_TargetContains m (TModuleInstance o') \<longleftrightarrow>
      length m \<le> length o' \<and> take (length m - 1) o' = butlast m
      \<and> step_name (o' ! (length m - 1)) = step_name (last m)
      \<and> (step_key (last m) = NoKey \<or> step_key (o' ! (length m - 1)) = step_key (last m)))
    \<and> (module_instance_TargetContains m (TModuleInstance o') \<and> ari_module r = o' @ below \<longrightarrow>
      module_instance_TargetContains m (TAbsResourceInstance r))"
  using contains_steps_iff [of m o', OF _ assms] contains_steps_append [of m o' below]
  by (auto simp: mi_contains_mi_def not_less)

theorem module_target_contains_witness:
  "module_instance_TargetContains [\<lparr>step_name = S ''a'', step_key = NoKey\<rparr>]
     (TModuleInstance [\<lparr>step_name = S ''a'', step_key = IntKey 0\<rparr>, \<lparr>step_name = S ''b'', step_key = NoKey\<rparr>])"
  using module_target_contains [of "[\<lparr>step_name = S ''a'', step_key = NoKey\<rparr>]"
      "[\<lparr>step_name = S ''a'', step_key = IntKey 0\<rparr>, \<lparr>step_name = S ''b'', step_key = NoKey\<rparr>]"]
  by simp

end
