(* ===== verification/MarkerKey.thy ===== *)
theory MarkerKey
  imports GoText
begin

text \<open>
  The \<open>for_each\<close> instance key rule of \<open>internal/live/markerkey/markerkey.go\<close>: which keys can
  become a marker at all (\<open>Valid\<close>), and the first of the two escaping layers, \<open>Encode\<close> and
  \<open>Decode\<close>, which carries any rune into the alphabet AWS allows in a tag value.
\<close>

section \<open>The alphabets\<close>

definition Extras :: gostring where
  "Extras = S ''+-=_/@.:''"

definition Introducer :: rune where
  "Introducer = r_plus"

text \<open>The six runes other escaping rules own: double quote, backslash, dollar, percent, the brackets.\<close>

definition Excluded :: gostring where
  "Excluded = [r_quote, r_bslash, 36, 37, r_lbr, r_rbr]"

definition legalRune :: "unicode \<Rightarrow> rune \<Rightarrow> bool" where
  "legalRune u r \<longleftrightarrow> (if isLetter u r \<or> isDigit u r then True
     else if r = r_space then True
     else r \<in> set Extras)"

definition encodable :: "unicode \<Rightarrow> rune \<Rightarrow> bool" where
  "encodable u r \<longleftrightarrow> isPrint u r \<and> r \<notin> set Excluded"

section \<open>Valid keys\<close>

text \<open>\<open>InvalidRune\<close>: the first offending rune and whether there was one.\<close>

definition InvalidRune :: "unicode \<Rightarrow> gostring \<Rightarrow> rune \<times> bool" where
  "InvalidRune u key = (if key = [] then (0, True)
     else case List.find (\<lambda>r. \<not> encodable u r) key of Some r \<Rightarrow> (r, True) | None \<Rightarrow> (0, False))"

definition Valid :: "unicode \<Rightarrow> gostring \<Rightarrow> bool" where
  "Valid u key = (\<not> snd (InvalidRune u key))"

definition FirstEncodeRune :: "unicode \<Rightarrow> gostring \<Rightarrow> rune \<times> bool" where
  "FirstEncodeRune u key =
     (case List.find (\<lambda>r. r = Introducer \<or> \<not> legalRune u r) key of Some r \<Rightarrow> (r, True) | None \<Rightarrow> (0, False))"

section \<open>Encode and Decode\<close>

definition encode_rune :: "unicode \<Rightarrow> rune \<Rightarrow> gostring" where
  "encode_rune u r = (if r = Introducer then [Introducer, Introducer]
     else if legalRune u r then [r]
     else Introducer # fmt_X 6 r)"

definition Encode :: "unicode \<Rightarrow> gostring \<Rightarrow> gostring" where
  "Encode u key =
     (let needsEncoding = list_ex (\<lambda>r. r = Introducer \<or> \<not> legalRune u r) key
      in if \<not> needsEncoding then key else concat (map (encode_rune u) key))"

definition NeedsEncode :: "unicode \<Rightarrow> gostring \<Rightarrow> bool" where
  "NeedsEncode u key = (Encode u key \<noteq> key)"

text \<open>
  \<open>Decode\<close>: the scan over \<open>runes\<close> from index \<open>i\<close>, here over the runes from \<open>i\<close> on.  The test
  \<open>i+6 < len(runes)\<close> asks for six runes after the introducer.
\<close>

function (sequential) Decode :: "gostring \<Rightarrow> gostring" where
  "Decode [] = []"
| "Decode (r # rest) =
     (if r \<noteq> Introducer then r # Decode rest
      else if rest \<noteq> [] \<and> hd rest = Introducer then Introducer # Decode (tl rest)
      else if 6 \<le> length rest then
        (case parse_hex32 (take 6 rest) of
           Some cp \<Rightarrow> write_rune cp # Decode (drop 6 rest)
         | None \<Rightarrow> Introducer # Decode rest)
      else Introducer # Decode rest)"
  by pat_completeness auto
termination by (relation "measure length") auto

text \<open>\<open>DescribeRune\<close>, with \<open>%q\<close> of a printable one-rune string (a quote or backslash is escaped).\<close>

definition DescribeRune :: "unicode \<Rightarrow> rune \<Rightarrow> gostring" where
  "DescribeRune u r = (if r = 0 then S ''nothing at all (an empty key)''
     else if isPrint u r \<and> \<not> isSpace u r then
       r_quote # (if r = r_quote \<or> r = r_bslash then [r_bslash, r] else [r]) @ [r_quote]
         @ S '' (U+'' @ fmt_X 4 r @ S '')''
     else S ''U+'' @ fmt_X 4 r)"

section \<open>Facts about the alphabets\<close>

lemma Introducer_legal [simp]: "legalRune u Introducer"
  by (simp add: legalRune_def Introducer_def Extras_def)

lemma legalRune_encodable: "legalRune u r \<Longrightarrow> encodable u r"
proof -
  assume "legalRune u r"
  then consider "isLetter u r" | "isDigit u r" | "r = r_space" | "r \<in> set Extras"
    by (auto simp: legalRune_def split: if_splits)
  then show "encodable u r"
    by cases (auto simp: encodable_def isLetter_isPrint isDigit_isPrint Excluded_def Extras_def
        isLetter_def isDigit_def ascii_defs isPrint_def)
qed

lemma Valid_iff: "Valid u key \<longleftrightarrow> key \<noteq> [] \<and> list_all (encodable u) key"
  by (auto simp: Valid_def InvalidRune_def list_all_iff find_None_iff split: option.split dest: find_SomeD)

lemma legal_not_special:
  "legalRune u r \<Longrightarrow> r \<notin> set Excluded"
  using legalRune_encodable by (auto simp: encodable_def)

section \<open>Round trip\<close>

lemma encode_rune_all: "concat (map (encode_rune u) key) = Encode u key"
proof -
  have "concat (map (encode_rune u) key) = key"
    if "\<not> list_ex (\<lambda>r. r = Introducer \<or> \<not> legalRune u r) key"
    using that by (intro concat_map_id) (auto simp: list_ex_iff encode_rune_def)
  then show ?thesis by (auto simp: Encode_def Let_def)
qed

lemma Encode_Nil [simp]: "Encode u [] = []"
  by (simp add: Encode_def)

lemma Encode_Cons: "Encode u (r # key) = encode_rune u r @ Encode u key"
  by (simp flip: encode_rune_all)

lemma fmt_X_no_plus: "r_plus \<notin> set (fmt_X w n)"
  using fmt_X_alphabet [of r_plus w n] by (auto simp: ascii_defs)

lemma Decode_encode_rune:
  assumes "valid_rune r"
  shows "Decode (encode_rune u r @ s) = r # Decode s"
proof -
  have r: "r < 16 ^ 6" using assms by (auto simp: valid_rune_def)
  then have len: "length (fmt_X 6 r) = 6" by (intro length_fmt_X) auto
  have hd: "hd (fmt_X 6 r @ s) \<noteq> r_plus"
    using len fmt_X_no_plus [of 6 r] by (cases "fmt_X 6 r") auto
  have "parse_hex32 (fmt_X 6 r) = Some r" using r by (intro parse_hex32_fmt_X) simp
  then have "Decode (Introducer # fmt_X 6 r @ s) = r # Decode s"
    using assms len hd by (simp add: Introducer_def)
  then show ?thesis by (auto simp: encode_rune_def Introducer_def)
qed

lemma Decode_Encode: "valid_string key \<Longrightarrow> Decode (Encode u key) = key"
  by (induction key) (auto simp: Encode_Cons Decode_encode_rune)

lemma encode_rune_length: "1 \<le> length (encode_rune u r)"
  by (auto simp: encode_rune_def)

lemma Encode_length: "length key \<le> length (Encode u key)"
proof (induction key)
  case (Cons r key)
  then show ?case using encode_rune_length [of u r] by (simp add: Encode_Cons)
qed simp

lemma Encode_eq_iff: "Encode u key = key \<longleftrightarrow> list_all (\<lambda>r. r \<noteq> Introducer \<and> legalRune u r) key"
proof (induction key)
  case (Cons r key)
  show ?case
  proof (cases "r \<noteq> Introducer \<and> legalRune u r")
    case True
    then show ?thesis using Cons.IH by (simp add: Encode_Cons encode_rune_def)
  next
    case False
    then have "2 \<le> length (encode_rune u r)"
      by (auto simp: encode_rune_def fmt_X_def pad_left_def Suc_le_eq)
    then have "length (r # key) < length (Encode u (r # key))"
      using Encode_length [of key u] by (simp add: Encode_Cons)
    then show ?thesis using False by auto
  qed
qed simp

text \<open>
  C40. \<open>Decode\<close> reverses \<open>Encode\<close> on every key, and \<open>NeedsEncode\<close> is true of exactly the keys
  with a rune outside the raw alphabet or a literal introducer, which is the rune
  \<open>FirstEncodeRune\<close> reports.
\<close>

theorem key_encoding_roundtrip:
  assumes "valid_string key"
  shows "Decode (Encode u key) = key
    \<and> NeedsEncode u key = snd (FirstEncodeRune u key)"
proof -
  have "NeedsEncode u key \<longleftrightarrow> snd (FirstEncodeRune u key)"
    by (auto simp: NeedsEncode_def Encode_eq_iff FirstEncodeRune_def list_all_iff find_None_iff
        split: option.split dest: find_SomeD)
  then show ?thesis using Decode_Encode [OF assms] by simp
qed

theorem key_encoding_roundtrip_witness:
  "Decode (Encode demo_unicode (S ''a(b)+'')) = S ''a(b)+''
   \<and> NeedsEncode demo_unicode (S ''a(b)+'') = snd (FirstEncodeRune demo_unicode (S ''a(b)+''))"
  by (rule key_encoding_roundtrip) (simp add: valid_rune_def)

section \<open>The alphabet of an encoded key\<close>

lemma hex_rune_legal: "ascii_digit r \<or> (65 \<le> r \<and> r \<le> 70) \<Longrightarrow> legalRune u r"
  by (auto simp: legalRune_def isLetter_def isDigit_def ascii_defs)

lemma Encode_legal: "r \<in> set (Encode u key) \<Longrightarrow> legalRune u r"
proof (induction key)
  case (Cons k key)
  then consider "r \<in> set (encode_rune u k)" | "r \<in> set (Encode u key)" by (auto simp: Encode_Cons)
  then show ?case
  proof cases
    case 1
    then show ?thesis
      by (auto simp: encode_rune_def split: if_splits dest!: fmt_X_alphabet intro: hex_rune_legal)
  qed (rule Cons.IH)
qed simp

lemma Encode_not_excluded: "r \<in> set Excluded \<Longrightarrow> r \<notin> set (Encode u key)"
  using Encode_legal legal_not_special by blast

lemma Encode_Nil_iff [simp]: "Encode u key = [] \<longleftrightarrow> key = []"
  using Encode_length [of key u] by (cases key) auto

end
