(* ===== verification/Markers.thy ===== *)
theory Markers
  imports GoRegexp Addrs MarkerKey
begin

text \<open>
  The marker vocabulary of \<open>internal/live/markers/markers.go\<close>: the tag keys, an address
  split over continuation tags and gathered back, the escaping that lets an address live
  in a tag value, its inverse, and \<open>AddressMatches\<close>, the comparison that decides which
  declared instance a live resource's marker names.
\<close>

section \<open>Tags and continuation tags\<close>

definition TagEstate :: gostring where "TagEstate = S ''tofu-estate''"
definition TagAddress :: gostring where "TagAddress = S ''tofu-address''"
definition TagSlot :: gostring where "TagSlot = S ''tofu-slot''"

definition MaxTagValue :: nat where "MaxTagValue = 256"
definition MaxContinuations :: nat where "MaxContinuations = 4"
definition MaxAddressLen :: nat where "MaxAddressLen = MaxTagValue * MaxContinuations"

type_synonym tags = "gostring \<rightharpoonup> gostring"

definition ContinuationTag :: "nat \<Rightarrow> gostring" where
  "ContinuationTag n = TagAddress @ r_hyphen # itoa_nat n"

definition AddressTagKey :: "nat \<Rightarrow> gostring" where
  "AddressTagKey i = (if i = 0 then TagAddress else ContinuationTag (i + 1))"

text \<open>The loop of \<open>SplitAddress\<close>; the first argument is the number of chunks still allowed.\<close>

fun split_chunks :: "nat \<Rightarrow> gostring \<Rightarrow> gostring list" where
  "split_chunks 0 runes = []"
| "split_chunks (Suc k) runes = (if runes = [] then []
     else let n = (if MaxTagValue > length runes then length runes else MaxTagValue)
          in take n runes # split_chunks k (drop n runes))"

definition SplitAddress :: "gostring \<Rightarrow> gostring list" where
  "SplitAddress escaped = (if length escaped \<le> MaxTagValue then [escaped]
     else split_chunks MaxContinuations escaped)"

text \<open>The reading loop of \<open>GatherAddress\<close>: the text so far and the first missing tag's number.\<close>

function gather_loop :: "tags \<Rightarrow> nat \<Rightarrow> gostring \<Rightarrow> gostring \<times> nat" where
  "gather_loop tags n b = (if n \<le> MaxContinuations
     then (case tags (ContinuationTag n) of None \<Rightarrow> (b, n)
           | Some v \<Rightarrow> gather_loop tags (Suc n) (b @ v))
     else (b, n))"
  by pat_completeness auto
termination by (relation "measure (\<lambda>(_, n, _). Suc MaxContinuations - n)") auto

declare gather_loop.simps [simp del]

definition GatherAddress :: "tags \<Rightarrow> gostring \<times> bool" where
  "GatherAddress tags = (case tags TagAddress of
     None \<Rightarrow> if list_ex (\<lambda>n. tags (ContinuationTag n) \<noteq> None) [2..<Suc MaxContinuations]
             then ([], True) else ([], False)
   | Some primary \<Rightarrow>
       let (raw, n) = gather_loop tags 2 primary
       in if list_ex (\<lambda>m. tags (ContinuationTag m) \<noteq> None) [n + 1..<Suc MaxContinuations]
          then ([], True) else (raw, False))"

section \<open>Escaping a key\<close>

definition doubleAtDotColon :: "gostring \<Rightarrow> gostring" where
  "doubleAtDotColon key =
     (let key = replace_all r_at [r_at, r_at] key;
          key = replace_all r_dot [r_at, 100] key;
          key = replace_all r_colon [r_at, 99] key
      in key)"

definition EscapeKey :: "unicode \<Rightarrow> gostring \<Rightarrow> gostring" where
  "EscapeKey u key = doubleAtDotColon (Encode u key)"

text \<open>The scan of \<open>UnescapeKey\<close>: 100 and 99 are d and c.\<close>

fun undouble :: "gostring \<Rightarrow> gostring" where
  "undouble [] = []"
| "undouble [r] = [r]"
| "undouble (r # r' # rest) =
     (if r \<noteq> r_at then r # undouble (r' # rest)
      else if r' = r_at then r_at # undouble rest
      else if r' = 100 then r_dot # undouble rest
      else if r' = 99 then r_colon # undouble rest
      else r_at # undouble (r' # rest))"

definition UnescapeKey :: "gostring \<Rightarrow> gostring" where
  "UnescapeKey s = Decode (undouble s)"

section \<open>Escaping an address\<close>

function (sequential) escape_scan :: "(gostring \<Rightarrow> gostring) \<Rightarrow> gostring \<Rightarrow> gostring" where
  "escape_scan escapeKey [] = []"
| "escape_scan escapeKey (r # rest) =
     (if r \<noteq> r_lbr then
        (if r \<noteq> r_rbr \<and> r \<noteq> r_quote then r # escape_scan escapeKey rest
         else escape_scan escapeKey rest)
      else
        (let inner = trim_rune r_quote (takeWhile (\<lambda>x. x \<noteq> r_rbr) rest)
         in r_colon # escapeKey inner @ escape_scan escapeKey (tl (dropWhile (\<lambda>x. x \<noteq> r_rbr) rest))))"
  by pat_completeness auto
termination
  by (relation "measure (\<lambda>(_, s). length s)")
     (auto simp: less_Suc_eq_le intro: le_trans [OF diff_le_self length_dropWhile_le])

definition escapeAddressWith :: "gostring \<Rightarrow> (gostring \<Rightarrow> gostring) \<Rightarrow> gostring" where
  "escapeAddressWith addr escapeKey = (if r_lbr \<notin> set addr then addr else escape_scan escapeKey addr)"

definition EscapeAddress :: "unicode \<Rightarrow> gostring \<Rightarrow> gostring" where
  "EscapeAddress u addr = escapeAddressWith addr (EscapeKey u)"

definition pre210EscapeAddress :: "gostring \<Rightarrow> gostring" where
  "pre210EscapeAddress addr = escapeAddressWith addr doubleAtDotColon"

definition LegacyEscapeAddress :: "gostring \<Rightarrow> gostring" where
  "LegacyEscapeAddress addr =
     (if r_lbr \<notin> set addr \<and> r_rbr \<notin> set addr \<and> r_quote \<notin> set addr then addr
      else concat (map (\<lambda>r. if r = r_lbr then [r_colon]
                            else if r = r_rbr \<or> r = r_quote then [] else [r]) addr))"

section \<open>Well-formed markers and reading one back\<close>

definition alpha_under :: "rune \<Rightarrow> bool" where
  "alpha_under r \<longleftrightarrow> ascii_upper r \<or> ascii_lower r \<or> r = r_underscore"

definition ident_rest :: "rune \<Rightarrow> bool" where
  "ident_rest r \<longleftrightarrow> alpha_under r \<or> ascii_digit r \<or> r = r_hyphen"

definition rx_segment :: rx where
  "rx_segment = RSeq (RSeq (RCls alpha_under) (RStar (RCls ident_rest)))
     (r_opt (RSeq (r_lit r_colon) (r_plus1 (RCls (\<lambda>r. r \<noteq> r_dot \<and> r \<noteq> r_colon)))))"

text \<open>\<open>^[A-Za-z_][A-Za-z0-9_-]*(:[^.:]+)?(\.[A-Za-z_][A-Za-z0-9_-]*(:[^.:]+)?)+$\<close>\<close>

definition escapedAddress :: rx where
  "escapedAddress = RSeq rx_segment (r_plus1 (RSeq (r_lit r_dot) rx_segment))"

text \<open>\<open>^[a-z][a-z0-9-]{0,127}$\<close>\<close>

definition estateNamePattern :: rx where
  "estateNamePattern = RSeq (RCls ascii_lower)
     (r_upto 127 (RCls (\<lambda>r. ascii_lower r \<or> ascii_digit r \<or> r = r_hyphen)))"

definition ValidEstateName :: "gostring \<Rightarrow> bool" where
  "ValidEstateName s = rx_match estateNamePattern s"

definition ValidMarkerAddress :: "gostring \<Rightarrow> bool" where
  "ValidMarkerAddress escaped = (if escaped = [] \<or> length escaped > MaxAddressLen then False
     else rx_match escapedAddress escaped)"

definition canonical_index :: "gostring \<Rightarrow> int option" where
  "canonical_index decoded = (case atoi decoded of
     Some n \<Rightarrow> if decoded = itoa n \<and> 0 \<le> n then Some n else None | None \<Rightarrow> None)"

definition decodeInstanceKey :: "gostring \<Rightarrow> instance_key option" where
  "decodeInstanceKey escaped =
     (if escaped = [] \<or> r_dot \<in> set escaped \<or> r_colon \<in> set escaped then None
      else let decoded = UnescapeKey escaped
           in case canonical_index decoded of
                Some n \<Rightarrow> Some (IntKey n)
              | None \<Rightarrow> Some (StringKey decoded))"

text \<open>The key half of a segment: \<open>NoKey\<close> without a colon, the decoded key after one.\<close>

definition segment_key :: "gostring \<Rightarrow> bool \<Rightarrow> instance_key option" where
  "segment_key key hasKey = (if hasKey then decodeInstanceKey key else Some NoKey)"

fun unescape_prefix :: "gostring list \<Rightarrow> module_instance option" where
  "unescape_prefix [] = Some []"
| "unescape_prefix [p] = None"
| "unescape_prefix (p # q # ps) =
     (if p \<noteq> S ''module'' then None
      else let (modName, modKey, modHasKey) = cut_on r_colon q
           in if modName = [] then None
              else case segment_key modKey modHasKey of None \<Rightarrow> None
                 | Some k \<Rightarrow> (case unescape_prefix ps of None \<Rightarrow> None
                     | Some m \<Rightarrow> Some (\<lparr>step_name = modName, step_key = k\<rparr> # m)))"

definition UnescapeAddress :: "gostring \<Rightarrow> abs_resource_instance option" where
  "UnescapeAddress escaped =
     (if \<not> ValidMarkerAddress escaped then None
      else let parts = split_on r_dot escaped; total = length parts
      in if total < 2 then None
      else let typeName = parts ! (total - 2);
               (name, key, hasKey) = cut_on r_colon (parts ! (total - 1))
      in if typeName = [] \<or> name = [] then None
      else case unescape_prefix (take (total - 2) parts) of None \<Rightarrow> None
         | Some modInst \<Rightarrow>
           (case segment_key key hasKey of None \<Rightarrow> None
            | Some instKey \<Rightarrow> Some \<lparr>ari_module = modInst,
                ari_resource = \<lparr>ri_resource = \<lparr>res_mode = ManagedResourceMode, res_type = typeName, res_name = name\<rparr>,
                                ri_key = instKey\<rparr>\<rparr>))"

section \<open>Matching a marker to a declared address\<close>

definition AddressMatches :: "unicode \<Rightarrow> gostring \<Rightarrow> gostring \<Rightarrow> bool" where
  "AddressMatches u observed declared =
     (if observed = [] then False
      else if observed = EscapeAddress u declared then True
      else if (case UnescapeAddress observed of None \<Rightarrow> False
               | Some inst \<Rightarrow> EscapeAddress u (abs_resource_instance_string u inst) = observed) then False
      else if observed = pre210EscapeAddress declared then True
      else observed = LegacyEscapeAddress declared)"

text \<open>The loop \<open>tags[AddressTagKey(i)] = chunk\<close> of \<open>AddressObjectTags\<close>.\<close>

fun set_chunks :: "nat \<Rightarrow> gostring list \<Rightarrow> tags \<Rightarrow> tags" where
  "set_chunks i [] tags = tags"
| "set_chunks i (chunk # chunks) tags = set_chunks (Suc i) chunks (tags(AddressTagKey i \<mapsto> chunk))"

definition AddressObjectTags :: "unicode \<Rightarrow> abs_resource_instance \<Rightarrow> tags" where
  "AddressObjectTags u addr =
     set_chunks 0 (SplitAddress (EscapeAddress u (abs_resource_instance_string u addr))) Map.empty"

end
