(* ===== verification/MarkerFacts.thy ===== *)
theory MarkerFacts
  imports Markers
begin

text \<open>
  What the marker grammar of theory \<open>Markers\<close> guarantees: the two key-escaping layers invert
  each other, escaping is idempotent, an escaped address splits back into its segments, a
  stamped marker reads back as the address it was written for, and no other declared
  address matches it.
\<close>

section \<open>Key escaping round trip\<close>

definition double_rune :: "rune \<Rightarrow> gostring" where
  "double_rune r = (if r = r_at then [r_at, r_at] else if r = r_dot then [r_at, 100]
     else if r = r_colon then [r_at, 99] else [r])"

lemma doubleAtDotColon_runes: "doubleAtDotColon s = concat (map double_rune s)"
  by (induction s) (auto simp: doubleAtDotColon_def replace_all_def double_rune_def Let_def)

lemma double_Nil [simp]: "doubleAtDotColon [] = []"
  by (simp add: doubleAtDotColon_runes)

lemma double_Cons: "doubleAtDotColon (r # s) = double_rune r @ doubleAtDotColon s"
  by (simp add: doubleAtDotColon_runes)

lemma undouble_Cons: "r \<noteq> r_at \<Longrightarrow> undouble (r # s) = r # undouble s"
  by (cases s) auto

lemma undouble_double: "undouble (doubleAtDotColon s) = s"
  by (induction s) (auto simp: double_Cons double_rune_def undouble_Cons)

text \<open>
  Two escaping layers compose: \<open>EscapeKey\<close> is \<open>Encode\<close> and then the doubling, and
  \<open>UnescapeKey\<close> undoes them in the opposite order.  A \<open>key_codec\<close> is one layer with its
  law, \<open>key_codec_pair\<close> the composition.
\<close>

locale key_codec =
  fixes enc :: "gostring \<Rightarrow> gostring" and dec :: "gostring \<Rightarrow> gostring" and good :: "gostring \<Rightarrow> bool"
  assumes dec_enc: "good k \<Longrightarrow> dec (enc k) = k"
begin

lemma enc_inject: "good k \<Longrightarrow> good k' \<Longrightarrow> enc k = enc k' \<Longrightarrow> k = k'"
  using dec_enc by metis

lemma dec_other: "good k \<Longrightarrow> good k' \<Longrightarrow> k \<noteq> k' \<Longrightarrow> enc k \<noteq> enc k'"
  using enc_inject by blast

end

locale key_codec_pair = inner: key_codec enc1 dec1 good1 + outer: key_codec enc2 dec2 good2
  for enc1 dec1 good1 enc2 dec2 good2 +
  assumes good_enc: "good1 k \<Longrightarrow> good2 (enc1 k)"
begin

lemma pair_dec_enc: "good1 k \<Longrightarrow> dec1 (dec2 (enc2 (enc1 k))) = k"
  by (simp add: outer.dec_enc good_enc inner.dec_enc)

end

sublocale key_codec_pair \<subseteq> both: key_codec "\<lambda>k. enc2 (enc1 k)" "\<lambda>s. dec1 (dec2 s)" good1
  by unfold_locales (rule pair_dec_enc)

interpretation encode_layer: key_codec "Encode u" Decode valid_string
  by unfold_locales (rule Decode_Encode)

interpretation double_layer: key_codec doubleAtDotColon undouble "\<lambda>_. True"
  by unfold_locales (rule undouble_double)

interpretation key_layers: key_codec_pair "Encode u" Decode valid_string doubleAtDotColon undouble "\<lambda>_. True"
  by unfold_locales simp

lemma UnescapeKey_EscapeKey: "valid_string k \<Longrightarrow> UnescapeKey (EscapeKey u k) = k"
  unfolding UnescapeKey_def EscapeKey_def by (rule key_layers.both.dec_enc)

lemma EscapeKey_inject: "valid_string k \<Longrightarrow> valid_string k' \<Longrightarrow> EscapeKey u k = EscapeKey u k' \<longleftrightarrow> k = k'"
  unfolding EscapeKey_def using key_layers.both.enc_inject by blast

lemma EscapeKey_Nil_iff [simp]: "EscapeKey u k = [] \<longleftrightarrow> k = []"
proof -
  have "doubleAtDotColon s = [] \<longleftrightarrow> s = []" for s
    by (cases s) (auto simp: double_Cons double_rune_def)
  then show ?thesis by (simp add: EscapeKey_def)
qed

lemma double_alphabet:
  "r \<in> set (doubleAtDotColon s) \<Longrightarrow> r \<in> set s \<and> r \<noteq> r_dot \<and> r \<noteq> r_colon \<or> r = r_at \<or> r = 100 \<or> r = 99"
  by (induction s) (auto simp: double_Cons double_rune_def split: if_splits)

lemma EscapeKey_not_separator: "r_dot \<notin> set (EscapeKey u k)" "r_colon \<notin> set (EscapeKey u k)"
  unfolding EscapeKey_def using double_alphabet by fastforce+

lemma EscapeKey_not_excluded: "r \<in> set Excluded \<Longrightarrow> r \<notin> set (EscapeKey u k)"
proof
  assume r: "r \<in> set Excluded" "r \<in> set (EscapeKey u k)"
  from double_alphabet [OF r(2) [unfolded EscapeKey_def]] have "r \<in> set (Encode u k)"
    using r(1) by (auto simp: Excluded_def)
  then show False using r(1) Encode_not_excluded by blast
qed

lemma EscapeKey_no_brackets:
  "r_lbr \<notin> set (EscapeKey u k)" "r_rbr \<notin> set (EscapeKey u k)" "r_quote \<notin> set (EscapeKey u k)"
  by (auto simp: Excluded_def intro!: EscapeKey_not_excluded)

section \<open>Escaping an address is idempotent\<close>

text \<open>
  What \<open>escapeAddressWith\<close> asks of the key escaping it is handed: that it writes no opening
  bracket.  \<open>EscapeKey\<close> is one; the doubling alone, which \<open>pre210EscapeAddress\<close> uses, is not.
\<close>

locale bracket_free_escaper =
  fixes esc :: "gostring \<Rightarrow> gostring"
  assumes esc_no_lbr: "r_lbr \<notin> set (esc k)"
begin

lemma scan_no_lbr: "r_lbr \<notin> set (escape_scan esc s)"
proof (induction s rule: measure_induct_rule [where f = length])
  case (less s)
  show ?case
  proof (cases s)
    case (Cons r rest)
    have "length (tl (dropWhile (\<lambda>x. x \<noteq> r_rbr) rest)) < length s"
      using Cons by (auto simp: less_Suc_eq_le intro: le_trans [OF diff_le_self length_dropWhile_le])
    then show ?thesis using Cons less [of rest] less [of "tl (dropWhile (\<lambda>x. x \<noteq> r_rbr) rest)"]
      by (auto simp: Let_def esc_no_lbr)
  qed simp
qed

lemma escape_no_lbr: "r_lbr \<notin> set (escapeAddressWith s esc)"
  by (simp add: escapeAddressWith_def scan_no_lbr)

lemma escape_idem: "escapeAddressWith (escapeAddressWith s esc) esc = escapeAddressWith s esc"
  using escape_no_lbr by (subst escapeAddressWith_def) auto

end

interpretation current_grammar: bracket_free_escaper "EscapeKey u"
  by unfold_locales (rule EscapeKey_no_brackets)

section \<open>Escaping an address, segment by segment\<close>

definition plain_text :: "gostring \<Rightarrow> bool" where
  "plain_text s \<longleftrightarrow> r_lbr \<notin> set s \<and> r_rbr \<notin> set s \<and> r_quote \<notin> set s"

lemma scan_plain: "plain_text p \<Longrightarrow> escape_scan esc (p @ s) = p @ escape_scan esc s"
  by (induction p) (auto simp: plain_text_def)

lemma scan_plain_all: "plain_text p \<Longrightarrow> escape_scan esc p = p"
  using scan_plain [of p esc "[]"] by simp

lemma scan_bracket:
  assumes "r_rbr \<notin> set body"
  shows "escape_scan esc (r_lbr # body @ r_rbr # s) = r_colon # esc (trim_rune r_quote body) @ escape_scan esc s"
  using assms by (simp add: Let_def)

lemma escape_scan_eq:
  assumes "r_lbr \<notin> set s \<Longrightarrow> plain_text s"
  shows "escapeAddressWith s esc = escape_scan esc s"
  using assms by (auto simp: escapeAddressWith_def scan_plain_all)

lemma hcl_quote_encodable: "list_all (encodable u) k \<Longrightarrow> hcl_quote_body u k = k"
proof (induction k)
  case (Cons r k)
  then have "isPrint u r" "r \<notin> set Excluded" by (auto simp: encodable_def)
  moreover from this have "r \<noteq> 10" "r \<noteq> 13" "r \<noteq> 9" by (auto simp: isPrint_def)
  ultimately show ?case using Cons by (auto simp: Excluded_def)
qed simp

text \<open>The escaped form of an instance key, as it stands in a segment.\<close>

fun segment_suffix :: "unicode \<Rightarrow> instance_key \<Rightarrow> gostring" where
  "segment_suffix u NoKey = []"
| "segment_suffix u (IntKey n) = r_colon # itoa n"
| "segment_suffix u (StringKey k) = r_colon # EscapeKey u k"
| "segment_suffix u (WildcardKey t) = r_colon # EscapeKey u (S ''*'')"

text \<open>The instance keys a run stamps: a count index, or a key \<open>markerkey.Valid\<close> accepts.\<close>

fun stampable_key :: "unicode \<Rightarrow> instance_key \<Rightarrow> bool" where
  "stampable_key u NoKey = True"
| "stampable_key u (IntKey n) = (0 \<le> n \<and> n < 2 ^ 63)"
| "stampable_key u (StringKey k) = (Valid u k \<and> valid_string k)"
| "stampable_key u (WildcardKey t) = False"

text \<open>
  What a marker keeps of a key: a string of the digits of an index, without leading zeros, is written as
  that index is and read back as it.
\<close>

fun marker_key :: "instance_key \<Rightarrow> instance_key" where
  "marker_key (StringKey k) = (case canonical_index k of Some n \<Rightarrow> IntKey n | None \<Rightarrow> StringKey k)"
| "marker_key k = k"

definition marker_step :: "module_step \<Rightarrow> module_step" where
  "marker_step st = st\<lparr>step_key := marker_key (step_key st)\<rparr>"

definition marker_address :: "abs_resource_instance \<Rightarrow> abs_resource_instance" where
  "marker_address a = a\<lparr>ari_module := map marker_step (ari_module a),
     ari_resource := (ari_resource a)\<lparr>ri_key := marker_key (ri_key (ari_resource a))\<rparr>\<rparr>"

lemma itoa_nonneg: "0 \<le> n \<Longrightarrow> itoa n = itoa_nat (nat n)"
  by (simp add: itoa_def)

lemma EscapeKey_digits: "list_all ascii_digit s \<Longrightarrow> EscapeKey u s = s"
proof -
  assume s: "list_all ascii_digit s"
  then have "list_all (\<lambda>r. r \<noteq> Introducer \<and> legalRune u r) s"
    by (auto simp: list_all_iff Introducer_def ascii_defs intro: hex_rune_legal)
  then have "Encode u s = s" by (simp add: Encode_eq_iff)
  moreover have "doubleAtDotColon s = s"
    using s by (induction s) (auto simp: double_Cons double_rune_def ascii_defs)
  ultimately show ?thesis by (simp add: EscapeKey_def)
qed

lemma EscapeKey_itoa: "0 \<le> n \<Longrightarrow> EscapeKey u (itoa n) = itoa n"
  by (rule EscapeKey_digits) (auto simp: itoa_nonneg list_all_iff dest: itoa_nat_digits)

lemma itoa_digits_only: "0 \<le> n \<Longrightarrow> r \<in> set (itoa n) \<Longrightarrow> ascii_digit r"
  by (auto simp: itoa_nonneg dest: itoa_nat_digits)

lemma scan_key_string:
  assumes "stampable_key u k"
  shows "escape_scan (EscapeKey u) (key_string u k @ s) = segment_suffix u k @ escape_scan (EscapeKey u) s"
proof (cases k)
  case (IntKey n)
  then have n: "0 \<le> n" using assms by simp
  have "r_rbr \<notin> set (itoa n)" "r_quote \<notin> set (itoa n)"
    using itoa_digits_only [OF n, of r_rbr] itoa_digits_only [OF n, of r_quote] by (auto simp: ascii_defs)
  then show ?thesis
    using IntKey n scan_bracket [of "itoa n" "EscapeKey u" s] by (simp add: EscapeKey_itoa)
next
  case (StringKey t)
  then have t: "t \<noteq> []" "list_all (encodable u) t" using assms by (auto simp: Valid_iff)
  then have "r_rbr \<notin> set t" "r_quote \<notin> set t"
    by (auto simp: list_all_iff encodable_def Excluded_def)
  then show ?thesis
    using StringKey t scan_bracket [of "r_quote # t @ [r_quote]" "EscapeKey u" s]
    by (simp add: toHCLQuotedString_def hcl_quote_encodable trim_rune_quoted)
qed (use assms in auto)

definition marker_ident :: "gostring \<Rightarrow> bool" where
  "marker_ident s \<longleftrightarrow> (case s of [] \<Rightarrow> False | c # t \<Rightarrow> alpha_under c \<and> list_all ident_rest t)"

lemma marker_ident_runes: "marker_ident s \<Longrightarrow> r \<in> set s \<Longrightarrow> alpha_under r \<or> ascii_digit r \<or> r = r_hyphen"
  by (auto simp: marker_ident_def ident_rest_def list_all_iff split: list.splits)

lemma marker_ident_plain: "marker_ident s \<Longrightarrow> plain_text s \<and> r_dot \<notin> set s \<and> r_colon \<notin> set s"
  using marker_ident_runes [of s r_lbr] marker_ident_runes [of s r_rbr] marker_ident_runes [of s r_quote]
    marker_ident_runes [of s r_dot] marker_ident_runes [of s r_colon]
  by (auto simp: plain_text_def alpha_under_def ascii_defs)

lemma marker_ident_nonempty: "marker_ident s \<Longrightarrow> s \<noteq> []"
  by (auto simp: marker_ident_def)

lemma marker_ident_module: "marker_ident (S ''module'')"
  by (simp add: marker_ident_def ident_rest_def alpha_under_def ascii_defs)

text \<open>
  The addresses a run stamps: managed resources whose type, name and module names are
  identifiers of the marker grammar and whose keys are stampable.
\<close>

definition stampable :: "unicode \<Rightarrow> abs_resource_instance \<Rightarrow> bool" where
  "stampable u a \<longleftrightarrow>
     list_all (\<lambda>st. marker_ident (step_name st) \<and> stampable_key u (step_key st)) (ari_module a)
     \<and> res_mode (ri_resource (ari_resource a)) = ManagedResourceMode
     \<and> marker_ident (res_type (ri_resource (ari_resource a)))
     \<and> marker_ident (res_name (ri_resource (ari_resource a)))
     \<and> stampable_key u (ri_key (ari_resource a))"

section \<open>Segments\<close>

definition step_segments :: "unicode \<Rightarrow> module_step \<Rightarrow> gostring list" where
  "step_segments u st = [S ''module'', step_name st @ segment_suffix u (step_key st)]"

definition address_segments :: "unicode \<Rightarrow> abs_resource_instance \<Rightarrow> gostring list" where
  "address_segments u a = concat (map (step_segments u) (ari_module a))
     @ [res_type (ri_resource (ari_resource a)),
        res_name (ri_resource (ari_resource a)) @ segment_suffix u (ri_key (ari_resource a))]"

lemma segment_suffix_no_dot: "stampable_key u k \<Longrightarrow> r_dot \<notin> set (segment_suffix u k)"
  using itoa_digits_only [of _ r_dot] by (cases k) (auto simp: EscapeKey_not_separator ascii_defs)

lemma plain_text_simps [simp]:
  "plain_text []" "plain_text (r # s) \<longleftrightarrow> r \<noteq> r_lbr \<and> r \<noteq> r_rbr \<and> r \<noteq> r_quote \<and> plain_text s"
  "plain_text (s @ t) \<longleftrightarrow> plain_text s \<and> plain_text t"
  by (auto simp: plain_text_def)

lemma scan_step:
  assumes "marker_ident (step_name st)" "stampable_key u (step_key st)"
  shows "escape_scan (EscapeKey u) (step_string u st @ s)
    = S ''module.'' @ step_name st @ segment_suffix u (step_key st) @ escape_scan (EscapeKey u) s"
proof -
  have "plain_text (S ''module.'' @ step_name st)"
    using marker_ident_plain [OF assms(1)] by simp
  from scan_plain [OF this] show ?thesis
    by (simp add: step_string_def scan_key_string [OF assms(2)] del: S_simps)
qed

lemma scan_modules:
  assumes "list_all (\<lambda>st. marker_ident (step_name st) \<and> stampable_key u (step_key st)) m" "m \<noteq> []"
  shows "escape_scan (EscapeKey u) (module_instance_string u m @ r_dot # s)
    = join_with r_dot (concat (map (step_segments u) m)) @ r_dot # escape_scan (EscapeKey u) s"
  using assms
proof (induction m)
  case (Cons st m)
  have dot: "escape_scan (EscapeKey u) (r_dot # t) = r_dot # escape_scan (EscapeKey u) t" for t by simp
  have st: "marker_ident (step_name st)" "stampable_key u (step_key st)" using Cons.prems by auto
  show ?case
  proof (cases "m = []")
    case True
    then show ?thesis
      using scan_step [OF st, of "r_dot # s"] by (simp add: module_instance_string_def step_segments_def)
  next
    case False
    then have "concat (map (step_segments u) m) \<noteq> []" by (cases m) (auto simp: step_segments_def)
    then show ?thesis
      using False Cons scan_step [OF st, of "r_dot # module_instance_string u m @ r_dot # s"]
      by (simp add: module_instance_string_def join_with_Cons step_segments_def)
  qed
qed simp

lemma scan_resource_instance:
  assumes "marker_ident (res_type (ri_resource r))" "marker_ident (res_name (ri_resource r))"
    "res_mode (ri_resource r) = ManagedResourceMode" "stampable_key u (ri_key r)"
  shows "escape_scan (EscapeKey u) (resource_instance_string u r)
    = res_type (ri_resource r) @ r_dot # res_name (ri_resource r) @ segment_suffix u (ri_key r)"
proof -
  have "plain_text (res_type (ri_resource r) @ r_dot # res_name (ri_resource r))"
    using marker_ident_plain [OF assms(1)] marker_ident_plain [OF assms(2)] by simp
  note scan = scan_plain [OF this]
  have "resource_instance_string u r = (res_type (ri_resource r) @ r_dot # res_name (ri_resource r)) @ key_string u (ri_key r) @ []"
    using assms(3) by (simp add: resource_instance_string_def resource_string_def)
  then show ?thesis
    using scan scan_key_string [OF assms(4), of "[]"] by simp
qed

lemma key_string_no_lbr_plain: "stampable_key u k \<Longrightarrow> r_lbr \<notin> set (key_string u k) \<Longrightarrow> key_string u k = []"
  by (cases k) auto

lemma plain_text_join: "plain_text (join_with r_dot ps) \<longleftrightarrow> list_all plain_text ps"
  by (induction ps rule: induct_list012) auto

lemma step_string_plain:
  assumes "marker_ident (step_name st)" "stampable_key u (step_key st)" "r_lbr \<notin> set (step_string u st)"
  shows "plain_text (step_string u st)"
  using assms marker_ident_plain [OF assms(1)] key_string_no_lbr_plain [OF assms(2)]
  by (simp add: step_string_def)

lemma module_string_plain:
  assumes "list_all (\<lambda>st. marker_ident (step_name st) \<and> stampable_key u (step_key st)) m"
    "r_lbr \<notin> set (module_instance_string u m)"
  shows "plain_text (module_instance_string u m)"
  unfolding module_instance_string_def plain_text_join list_all_iff
proof
  fix p assume "p \<in> set (map (step_string u) m)"
  then obtain st where st: "st \<in> set m" "p = step_string u st" by auto
  then have "r_lbr \<notin> set p"
    using assms(2) join_part_subset [of p "map (step_string u) m" r_dot] by (auto simp: module_instance_string_def)
  then show "plain_text p"
    using st assms(1) by (auto simp: list_all_iff intro: step_string_plain)
qed

lemma resource_instance_string_plain:
  assumes "marker_ident (res_type (ri_resource r))" "marker_ident (res_name (ri_resource r))"
    "res_mode (ri_resource r) = ManagedResourceMode" "stampable_key u (ri_key r)"
    "r_lbr \<notin> set (resource_instance_string u r)"
  shows "plain_text (resource_instance_string u r)"
  using assms marker_ident_plain [OF assms(1)] marker_ident_plain [OF assms(2)] key_string_no_lbr_plain [OF assms(4)]
  by (auto simp: resource_instance_string_def resource_string_def split: if_splits)

lemma address_string_plain:
  assumes "stampable u a" "r_lbr \<notin> set (abs_resource_instance_string u a)"
  shows "plain_text (abs_resource_instance_string u a)"
  using assms module_string_plain [of u "ari_module a"] resource_instance_string_plain [of "ari_resource a" u]
  by (auto simp: abs_resource_instance_string_def stampable_def split: if_splits)

lemma EscapeAddress_segments:
  assumes "stampable u a"
  shows "EscapeAddress u (abs_resource_instance_string u a) = join_with r_dot (address_segments u a)"
proof -
  let ?r = "ari_resource a"
  have res: "escape_scan (EscapeKey u) (resource_instance_string u ?r)
    = join_with r_dot [res_type (ri_resource ?r), res_name (ri_resource ?r) @ segment_suffix u (ri_key ?r)]"
    using assms by (simp add: scan_resource_instance stampable_def)
  have "EscapeAddress u (abs_resource_instance_string u a)
      = escape_scan (EscapeKey u) (abs_resource_instance_string u a)"
    unfolding EscapeAddress_def by (intro escape_scan_eq address_string_plain assms)
  also have "\<dots> = join_with r_dot (address_segments u a)"
  proof (cases "ari_module a = []")
    case True
    then show ?thesis by (simp add: abs_resource_instance_string_def address_segments_def res)
  next
    case False
    then have ne: "concat (map (step_segments u) (ari_module a)) \<noteq> []"
      by (cases "ari_module a") (auto simp: step_segments_def)
    have "list_all (\<lambda>st. marker_ident (step_name st) \<and> stampable_key u (step_key st)) (ari_module a)"
      using assms by (simp add: stampable_def)
    from scan_modules [OF this False] show ?thesis
      using False ne by (simp add: abs_resource_instance_string_def address_segments_def res join_with_append)
  qed
  finally show ?thesis .
qed

section \<open>The marker grammar\<close>

definition key_text :: "gostring \<Rightarrow> bool" where
  "key_text k \<longleftrightarrow> k \<noteq> [] \<and> r_dot \<notin> set k \<and> r_colon \<notin> set k"

lemma segment_lang:
  "p \<in> rx_lang rx_segment \<longleftrightarrow>
     (\<exists>n k. p = n @ k \<and> marker_ident n \<and> (k = [] \<or> (\<exists>k'. k = r_colon # k' \<and> key_text k')))"
proof -
  have name: "n \<in> rx_lang (RSeq (RCls alpha_under) (RStar (RCls ident_rest))) \<longleftrightarrow> marker_ident n" for n
    unfolding lang_cls_star by (auto simp: marker_ident_def split: list.splits)
  have key: "k \<in> rx_lang (RSeq (r_lit r_colon) (r_plus1 (RCls (\<lambda>r. r \<noteq> r_dot \<and> r \<noteq> r_colon)))) \<longleftrightarrow>
      (\<exists>k'. k = r_colon # k' \<and> key_text k')" for k
    unfolding r_lit_def lang_seq_cls lang_plus_cls by (auto simp: key_text_def list_all_iff)
  show ?thesis
    unfolding rx_segment_def rx_lang.simps(4) [of "RSeq (RCls alpha_under) (RStar (RCls ident_rest))"]
      lang_r_opt insert_iff mem_Collect_eq name key by blast
qed

lemma segment_no_dot: "p \<in> rx_lang rx_segment \<Longrightarrow> r_dot \<notin> set p"
  by (auto simp: segment_lang key_text_def dest: marker_ident_plain)

lemma dotted_star_intro:
  "ps \<noteq> [] \<Longrightarrow> \<forall>p \<in> set ps. p \<in> A \<Longrightarrow> r_dot # join_with r_dot ps \<in> rx_star {r_dot # p | p. p \<in> A}"
proof (induction ps rule: induct_list012)
  case (2 p)
  then have "(r_dot # p) @ [] \<in> rx_star {r_dot # p | p. p \<in> A}"
    by (intro star_app star_nil) auto
  then show ?case by simp
next
  case (3 p q ps)
  then have "(r_dot # p) @ r_dot # join_with r_dot (q # ps) \<in> rx_star {r_dot # p | p. p \<in> A}"
    by (intro star_app) auto
  then show ?case by simp
qed simp

lemma dotted_star_elim:
  assumes "s \<in> rx_star {r_dot # p | p. p \<in> A}" "\<forall>p \<in> A. r_dot \<notin> set p"
  shows "s = [] \<or> (\<exists>t. s = r_dot # t \<and> (\<forall>p \<in> set (split_on r_dot t). p \<in> A))"
  using assms(1)
proof (induction rule: rx_star.induct)
  case (star_app u v)
  then obtain p where p: "u = r_dot # p" "p \<in> A" by blast
  then have "r_dot \<notin> set p" using assms(2) by blast
  then show ?case using star_app.IH p by (auto simp: split_simps)
qed simp

lemma dotted_plus:
  "s \<in> rx_lang (r_plus1 (RSeq (r_lit r_dot) rx_segment)) \<longleftrightarrow>
     (\<exists>t. s = r_dot # t \<and> (\<forall>p \<in> set (split_on r_dot t). p \<in> rx_lang rx_segment))"
proof -
  let ?A = "rx_lang rx_segment"
  have B: "rx_lang (RSeq (r_lit r_dot) rx_segment) = {r_dot # p | p. p \<in> ?A}"
    unfolding r_lit_def by (auto simp: lang_seq_cls simp del: rx_lang.simps)
  have "s \<in> rx_lang (r_plus1 (RSeq (r_lit r_dot) rx_segment)) \<longleftrightarrow>
      s \<noteq> [] \<and> s \<in> rx_star {r_dot # p | p. p \<in> ?A}"
    unfolding r_plus1_def rx_lang.simps(4) [of "RSeq (r_lit r_dot) rx_segment"] rx_lang.simps(6) B
    using star_nonempty [of "{r_dot # p | p. p \<in> ?A}" s] by simp
  also have "\<dots> \<longleftrightarrow> (\<exists>t. s = r_dot # t \<and> (\<forall>p \<in> set (split_on r_dot t). p \<in> ?A))" (is "?L \<longleftrightarrow> ?R")
  proof
    assume ?L
    then show ?R using dotted_star_elim [of s ?A] segment_no_dot by auto
  next
    assume ?R
    then obtain t where t: "s = r_dot # t" "\<forall>p \<in> set (split_on r_dot t). p \<in> ?A" by blast
    then show ?L using dotted_star_intro [of "split_on r_dot t" ?A] by (simp add: join_split)
  qed
  finally show ?thesis .
qed

lemma escapedAddress_iff:
  "rx_match escapedAddress s \<longleftrightarrow>
     2 \<le> length (split_on r_dot s) \<and> (\<forall>p \<in> set (split_on r_dot s). p \<in> rx_lang rx_segment)"
proof -
  have "rx_match escapedAddress s \<longleftrightarrow>
      (\<exists>p t. s = p @ r_dot # t \<and> p \<in> rx_lang rx_segment \<and> (\<forall>q \<in> set (split_on r_dot t). q \<in> rx_lang rx_segment))"
    unfolding rx_match_iff escapedAddress_def rx_lang.simps(4) [of rx_segment] mem_Collect_eq dotted_plus by blast
  also have "\<dots> \<longleftrightarrow> 2 \<le> length (split_on r_dot s) \<and> (\<forall>p \<in> set (split_on r_dot s). p \<in> rx_lang rx_segment)"
    (is "?L \<longleftrightarrow> ?R")
  proof
    assume ?L
    then obtain p t where "s = p @ r_dot # t" "p \<in> rx_lang rx_segment"
      "\<forall>q \<in> set (split_on r_dot t). q \<in> rx_lang rx_segment" by blast
    then show ?R using segment_no_dot [of p] split_on_nonempty [of r_dot t]
      by (cases "split_on r_dot t") (auto simp: split_simps)
  next
    assume R: ?R
    then obtain p q ps where ps: "split_on r_dot s = p # q # ps"
      by (cases "split_on r_dot s"; cases "tl (split_on r_dot s)") auto
    then have "s = p @ r_dot # join_with r_dot (q # ps)"
      using join_split [of r_dot s] by simp
    moreover have "split_on r_dot (join_with r_dot (q # ps)) = q # ps"
      using ps split_on_parts_notin [of _ r_dot s] by (intro split_join) auto
    ultimately show ?L
      using R ps by (intro exI [of _ p] exI [of _ "join_with r_dot (q # ps)"]) simp
  qed
  finally show ?thesis .
qed

lemma ValidMarkerAddress_iff:
  "ValidMarkerAddress s \<longleftrightarrow> length s \<le> MaxAddressLen \<and> 2 \<le> length (split_on r_dot s)
     \<and> (\<forall>p \<in> set (split_on r_dot s). p \<in> rx_lang rx_segment)"
  by (auto simp: ValidMarkerAddress_def escapedAddress_iff)

text \<open>
  C39. The compiled pattern accepts a marker exactly when, split at its dots, it has at least two
  segments and each is an identifier, optionally followed by a colon and a non-empty key without
  a separator; \<open>ValidMarkerAddress\<close> adds the length bound.
\<close>

theorem valid_marker_grammar:
  "ValidMarkerAddress s \<longleftrightarrow> length s \<le> MaxAddressLen \<and> 2 \<le> length (split_on r_dot s)
     \<and> (\<forall>p \<in> set (split_on r_dot s). \<exists>n k. p = n @ k \<and> marker_ident n
          \<and> (k = [] \<or> (\<exists>k'. k = r_colon # k' \<and> key_text k')))"
  unfolding ValidMarkerAddress_iff segment_lang by (rule refl)

theorem valid_marker_grammar_witness:
  "\<not> ValidMarkerAddress (S ''ab'') \<and> \<not> ValidMarkerAddress (S ''a.b:'')"
proof -
  have "\<not> (\<exists>n k. S ''b:'' = n @ k \<and> marker_ident n \<and> (k = [] \<or> (\<exists>k'. k = r_colon # k' \<and> key_text k')))"
    by (auto simp: append_eq_Cons_conv Cons_eq_append_conv marker_ident_def ident_rest_def alpha_under_def
        ascii_defs key_text_def)
  then show ?thesis by (simp add: valid_marker_grammar)
qed

section \<open>Reading an escaped address back\<close>

lemma segment_suffix_key_text:
  assumes "stampable_key u k"
  shows "segment_suffix u k = [] \<or> (\<exists>t. segment_suffix u k = r_colon # t \<and> key_text t)"
proof (cases k)
  case (IntKey n)
  then have n: "0 \<le> n" using assms by simp
  then have "itoa n \<noteq> []" by (simp add: itoa_nonneg)
  then show ?thesis
    using IntKey itoa_digits_only [OF n, of r_dot] itoa_digits_only [OF n, of r_colon]
    by (auto simp: key_text_def ascii_defs)
next
  case (StringKey t)
  then show ?thesis using assms by (auto simp: key_text_def EscapeKey_not_separator Valid_iff)
qed (use assms in auto)

lemma segment_in_lang:
  assumes "marker_ident n" "stampable_key u k"
  shows "n @ segment_suffix u k \<in> rx_lang rx_segment"
  unfolding segment_lang using assms segment_suffix_key_text by blast

lemma address_segments_in_lang:
  assumes "stampable u a"
  shows "\<forall>p \<in> set (address_segments u a). p \<in> rx_lang rx_segment"
proof -
  have plain: "p \<in> rx_lang rx_segment" if "marker_ident p" for p
    using that segment_in_lang [of p u NoKey] by simp
  show ?thesis
    using assms plain segment_in_lang marker_ident_module
    by (auto simp: address_segments_def step_segments_def stampable_def list_all_iff)
qed

lemma split_escaped_address:
  assumes "stampable u a"
  shows "split_on r_dot (join_with r_dot (address_segments u a)) = address_segments u a"
proof (rule split_join)
  show "address_segments u a \<noteq> []" by (simp add: address_segments_def)
qed (use address_segments_in_lang [OF assms] segment_no_dot in blast)

lemma decode_segment_key:
  assumes "marker_ident n" "stampable_key u k"
  obtains t b where "cut_on r_colon (n @ segment_suffix u k) = (n, t, b)" "segment_key t b = Some (marker_key k)"
proof (cases k)
  case NoKey
  then show ?thesis using that [of "[]" False] marker_ident_plain [OF assms(1)] by (simp add: segment_key_def)
next
  case (IntKey m)
  then have m: "0 \<le> m" "m < 2 ^ 63" using assms by auto
  have "UnescapeKey (itoa m) = itoa m"
    using UnescapeKey_EscapeKey [of "itoa m" u] itoa_digits_only [OF m(1)]
    by (fastforce simp: EscapeKey_itoa [OF m(1)] valid_string_def valid_rune_def ascii_defs)
  moreover have "canonical_index (itoa m) = Some m"
    using m atoi_itoa_nat [of "nat m"] by (simp add: canonical_index_def itoa_nonneg nat_less_iff)
  ultimately have "decodeInstanceKey (itoa m) = Some k"
    using IntKey segment_suffix_key_text [OF assms(2)] by (auto simp: decodeInstanceKey_def key_text_def)
  then show ?thesis
    using that [of "itoa m" True] IntKey marker_ident_plain [OF assms(1)] by (simp add: segment_key_def)
next
  case (StringKey t)
  then have "decodeInstanceKey (EscapeKey u t) = Some (marker_key k)"
    using assms(2) segment_suffix_key_text [OF assms(2)]
    by (auto simp: decodeInstanceKey_def key_text_def UnescapeKey_EscapeKey split: option.splits)
  then show ?thesis
    using that [of "EscapeKey u t" True] StringKey marker_ident_plain [OF assms(1)] by (simp add: segment_key_def)
qed (use assms in auto)

lemma unescape_prefix_segments:
  assumes "list_all (\<lambda>st. marker_ident (step_name st) \<and> stampable_key u (step_key st)) m"
  shows "unescape_prefix (concat (map (step_segments u) m)) = Some (map marker_step m)"
  using assms
proof (induction m)
  case (Cons st m)
  then have st: "marker_ident (step_name st)" "stampable_key u (step_key st)" by auto
  obtain t b where "cut_on r_colon (step_name st @ segment_suffix u (step_key st)) = (step_name st, t, b)"
    "segment_key t b = Some (marker_key (step_key st))" by (rule decode_segment_key [OF st])
  moreover have "step_name st \<noteq> []" using st marker_ident_nonempty by blast
  ultimately show ?case using Cons by (simp add: step_segments_def marker_step_def del: S_simps)
qed simp

lemma UnescapeAddress_segments:
  assumes "stampable u a" "length (join_with r_dot (address_segments u a)) \<le> MaxAddressLen"
  shows "UnescapeAddress (join_with r_dot (address_segments u a)) = Some (marker_address a)"
proof -
  let ?s = "join_with r_dot (address_segments u a)" and ?r = "ri_resource (ari_resource a)"
  let ?pre = "concat (map (step_segments u) (ari_module a))"
  let ?last = "res_name ?r @ segment_suffix u (ri_key (ari_resource a))"
  note split = split_escaped_address [OF assms(1)]
  have segs: "address_segments u a = ?pre @ [res_type ?r, ?last]" by (simp add: address_segments_def)
  have "ValidMarkerAddress ?s"
    using assms(2) address_segments_in_lang [OF assms(1)] by (simp add: ValidMarkerAddress_iff split) (simp add: segs)
  moreover have nk: "marker_ident (res_name ?r)" "stampable_key u (ri_key (ari_resource a))"
    using assms(1) by (simp_all add: stampable_def)
  moreover obtain t b where key: "cut_on r_colon ?last = (res_name ?r, t, b)"
      "segment_key t b = Some (marker_key (ri_key (ari_resource a)))"
    by (rule decode_segment_key [OF nk])
  moreover have "unescape_prefix ?pre = Some (map marker_step (ari_module a))"
    using assms(1) by (intro unescape_prefix_segments) (simp add: stampable_def)
  moreover have "res_type ?r \<noteq> []" "res_name ?r \<noteq> []"
    using assms(1) marker_ident_nonempty by (auto simp: stampable_def)
  ultimately have "UnescapeAddress ?s = Some \<lparr>ari_module = map marker_step (ari_module a),
      ari_resource = \<lparr>ri_resource = \<lparr>res_mode = ManagedResourceMode, res_type = res_type ?r, res_name = res_name ?r\<rparr>,
                      ri_key = marker_key (ri_key (ari_resource a))\<rparr>\<rparr>"
    by (simp add: UnescapeAddress_def Let_def split [unfolded segs] segs nth_append)
  then show ?thesis
    using assms(1) by (auto simp: stampable_def marker_address_def intro!: abs_resource_instance.equality resource_instance.equality resource.equality)
qed

definition fits_in_marker :: "unicode \<Rightarrow> abs_resource_instance \<Rightarrow> bool" where
  "fits_in_marker u a \<longleftrightarrow> length (EscapeAddress u (abs_resource_instance_string u a)) \<le> MaxAddressLen"

lemma canonical_index_itoa: "canonical_index k = Some n \<Longrightarrow> 0 \<le> n \<and> k = itoa n"
  by (auto simp: canonical_index_def split: option.splits if_splits)

lemma canonical_index_range: "canonical_index k = Some n \<Longrightarrow> 0 \<le> n \<and> n < 2 ^ 63"
proof -
  assume k: "canonical_index k = Some n"
  then have "atoi k = Some n" by (auto simp: canonical_index_def split: option.splits if_splits)
  then have "n < 2 ^ 63" unfolding atoi_def Let_def by (auto split: prod.split_asm option.split_asm if_split_asm)
  then show ?thesis using canonical_index_itoa [OF k] by simp
qed

lemma segment_suffix_marker_key [simp]: "segment_suffix u (marker_key k) = segment_suffix u k"
  by (cases k) (auto split: option.split dest!: canonical_index_itoa simp: EscapeKey_itoa)

lemma stampable_marker_key: "stampable_key u k \<Longrightarrow> stampable_key u (marker_key k)"
  by (cases k) (auto split: option.split dest: canonical_index_range)

lemma stampable_marker_address: "stampable u a \<Longrightarrow> stampable u (marker_address a)"
  by (auto simp: stampable_def marker_address_def marker_step_def list_all_iff stampable_marker_key)

lemma address_segments_marker: "address_segments u (marker_address a) = address_segments u a"
proof -
  have "step_segments u (marker_step st) = step_segments u st" for st
    by (simp add: step_segments_def marker_step_def)
  then show ?thesis by (simp add: address_segments_def marker_address_def comp_def)
qed

text \<open>
  C19. The marker of an address whose module, type and resource names are identifiers of the marker
  grammar and whose keys are count indices or valid keys reads back, when it fits in the tags it may
  span, as that address, module steps and their keys included, except that a key made of the digits of
  an index comes back as the index.
\<close>

theorem address_marker_roundtrip:
  assumes "stampable u a" "fits_in_marker u a"
  shows "UnescapeAddress (EscapeAddress u (abs_resource_instance_string u a)) = Some (marker_address a)"
  using assms by (simp add: EscapeAddress_segments UnescapeAddress_segments fits_in_marker_def)

lemma stamped_marker_matches_only_itself:
  assumes "stampable u a" "fits_in_marker u a"
  shows "AddressMatches u (EscapeAddress u (abs_resource_instance_string u a)) d \<longleftrightarrow>
    EscapeAddress u d = EscapeAddress u (abs_resource_instance_string u a)"
proof -
  let ?e = "EscapeAddress u (abs_resource_instance_string u a)"
  have read: "UnescapeAddress ?e = Some (marker_address a)"
    using assms by (simp add: EscapeAddress_segments UnescapeAddress_segments fits_in_marker_def)
  have again: "EscapeAddress u (abs_resource_instance_string u (marker_address a)) = ?e"
    using assms(1) by (simp add: EscapeAddress_segments stampable_marker_address address_segments_marker)
  have "?e \<noteq> []" using read by (auto simp: UnescapeAddress_def ValidMarkerAddress_def)
  then show ?thesis using read again by (auto simp: AddressMatches_def)
qed

text \<open>
  C6. Ownership is decided by \<open>AddressMatches\<close>: for two addresses whose names are identifiers of the
  marker grammar, whose keys are count indices or valid keys and whose markers fit, the marker stamped
  today for the first matches the second declared address if and only if they are the same instance, a
  key made of the digits of an index counting as that index.  None of the older grammars it also tries
  lets another instance claim the resource.
\<close>

theorem marker_names_one_instance:
  assumes "stampable u a" "fits_in_marker u a" "stampable u b" "fits_in_marker u b"
  shows "AddressMatches u (EscapeAddress u (abs_resource_instance_string u a)) (abs_resource_instance_string u b)
    \<longleftrightarrow> marker_address a = marker_address b"
proof -
  have "EscapeAddress u (abs_resource_instance_string u b) = EscapeAddress u (abs_resource_instance_string u a)
    \<longleftrightarrow> marker_address a = marker_address b"
    (is "?same \<longleftrightarrow> _")
  proof
    assume ?same
    then show "marker_address a = marker_address b"
      using assms UnescapeAddress_segments [of u a] UnescapeAddress_segments [of u b]
      by (simp add: EscapeAddress_segments fits_in_marker_def)
  next
    assume "marker_address a = marker_address b"
    then have "address_segments u a = address_segments u b"
      using address_segments_marker by metis
    then show ?same using assms(1,3) by (simp add: EscapeAddress_segments)
  qed
  then show ?thesis using stamped_marker_matches_only_itself [OF assms(1,2)] by simp
qed

section \<open>Splitting over continuation tags and gathering\<close>

lemma ContinuationTag_inject [simp]: "ContinuationTag m = ContinuationTag n \<longleftrightarrow> m = n"
  by (simp add: ContinuationTag_def)

lemma ContinuationTag_neq [simp]: "ContinuationTag n \<noteq> TagAddress" "TagAddress \<noteq> ContinuationTag n"
  by (simp_all add: ContinuationTag_def)

lemma AddressTagKey_inject [simp]: "AddressTagKey i = AddressTagKey j \<longleftrightarrow> i = j"
  by (auto simp: AddressTagKey_def)

lemma set_chunks_lookup:
  "set_chunks i cs m (AddressTagKey j) =
     (if i \<le> j \<and> j < i + length cs then Some (cs ! (j - i)) else m (AddressTagKey j))"
  by (induction cs arbitrary: i m) (auto simp: nth_Cons' Suc_le_eq)

lemma gather_loop_spec:
  assumes "gather_loop tags n b = (raw, n')" "n \<le> Suc MaxContinuations"
  shows "n \<le> n' \<and> n' \<le> Suc MaxContinuations
    \<and> raw = b @ concat (map (\<lambda>j. the (tags (ContinuationTag j))) [n..<n'])
    \<and> (\<forall>j. n \<le> j \<and> j < n' \<longrightarrow> tags (ContinuationTag j) \<noteq> None)
    \<and> (n' \<le> MaxContinuations \<longrightarrow> tags (ContinuationTag n') = None)"
  using assms
proof (induction tags n b arbitrary: raw n' rule: gather_loop.induct)
  case (1 tags n b)
  show ?case
  proof (cases "n \<le> MaxContinuations \<and> tags (ContinuationTag n) \<noteq> None")
    case True
    then obtain v where v: "tags (ContinuationTag n) = Some v" by auto
    with True "1.prems" have "gather_loop tags (Suc n) (b @ v) = (raw, n')"
      by (subst (asm) gather_loop.simps) simp
    from "1.IH" [OF _ v this] True v show ?thesis
      by (auto simp: upt_conv_Cons le_less_Suc_eq Suc_le_eq dest: le_neq_implies_less)
  next
    case False
    with "1.prems" have "raw = b" "n' = n"
      by (subst (asm) gather_loop.simps; auto split: option.splits if_splits)+
    then show ?thesis using False "1.prems" by auto
  qed
qed

text \<open>
  The reading stops at the first missing continuation tag: if the tags up to number \<open>k\<close> are
  there and the later ones are not, that is what is read.
\<close>

lemma gather_loop_until:
  assumes "n \<le> k" "k \<le> Suc MaxContinuations"
    and present: "\<And>j. n \<le> j \<Longrightarrow> j < k \<Longrightarrow> tags (ContinuationTag j) = Some (f j)"
    and absent: "\<And>j. k \<le> j \<Longrightarrow> j \<le> MaxContinuations \<Longrightarrow> tags (ContinuationTag j) = None"
  shows "gather_loop tags n b = (b @ concat (map f [n..<k]), k)"
proof -
  obtain raw n' where g: "gather_loop tags n b = (raw, n')" by force
  have spec: "n \<le> n'" "n' \<le> Suc MaxContinuations"
    "raw = b @ concat (map (\<lambda>j. the (tags (ContinuationTag j))) [n..<n'])"
    "\<And>j. n \<le> j \<Longrightarrow> j < n' \<Longrightarrow> tags (ContinuationTag j) \<noteq> None"
    "n' \<le> MaxContinuations \<Longrightarrow> tags (ContinuationTag n') = None"
    using gather_loop_spec [OF g] assms(1,2) by auto
  have "n' = k"
  proof (rule antisym)
    show "n' \<le> k"
      using spec(4) [of k] absent [of k] spec(2) assms(1,2) by (cases "k \<le> MaxContinuations") force+
    show "k \<le> n'"
      using spec(1,5) present [of n'] assms(2) by (cases "n' < k") auto
  qed
  moreover have "map (\<lambda>j. the (tags (ContinuationTag j))) [n..<k] = map f [n..<k]"
    using present by auto
  ultimately show ?thesis using g spec(3) by (simp only:)
qed

lemma GatherAddress_chunks:
  assumes "cs \<noteq> []" "length cs \<le> MaxContinuations"
    and "\<And>i. i < length cs \<Longrightarrow> tags (AddressTagKey i) = Some (cs ! i)"
    and "\<And>i. length cs \<le> i \<Longrightarrow> i < MaxContinuations \<Longrightarrow> tags (AddressTagKey i) = None"
  shows "GatherAddress tags = (concat cs, False)"
proof -
  let ?k = "Suc (length cs)"
  have key: "ContinuationTag j = AddressTagKey (j - 1)" if "2 \<le> j" for j
    using that by (simp add: AddressTagKey_def)
  have loop: "gather_loop tags 2 (cs ! 0) = (cs ! 0 @ concat (map (\<lambda>j. cs ! (j - 1)) [2..<?k]), ?k)"
  proof (rule gather_loop_until)
    show "2 \<le> ?k" "?k \<le> Suc MaxContinuations" using assms(1,2) by (auto simp: Suc_le_eq)
    show "tags (ContinuationTag j) = Some (cs ! (j - 1))" if "2 \<le> j" "j < ?k" for j
      using that assms(3) [of "j - 1"] by (simp add: key)
    show "tags (ContinuationTag j) = None" if "?k \<le> j" "j \<le> MaxContinuations" for j
      using that assms(1) assms(4) [of "j - 1"] key [of j] by (cases cs) auto
  qed
  have "map (\<lambda>j. cs ! (j - 1)) [2..<?k] = tl cs"
    using assms(1) by (intro nth_equalityI) (simp_all add: nth_tl del: upt_Suc)
  then have raw: "cs ! 0 @ concat (map (\<lambda>j. cs ! (j - 1)) [2..<?k]) = concat cs"
    using assms(1) by (cases cs) auto
  have prim: "tags TagAddress = Some (cs ! 0)"
    using assms(1) assms(3) [of 0] by (simp add: AddressTagKey_def)
  have "\<not> list_ex (\<lambda>m. tags (ContinuationTag m) \<noteq> None) [?k + 1..<Suc MaxContinuations]"
    using assms(4) key by (auto simp: list_ex_iff)
  then show ?thesis
    using loop raw prim by (simp add: GatherAddress_def del: upt_Suc One_nat_def)
qed

lemma concat_split_chunks: "concat (split_chunks k s) = take (k * MaxTagValue) s"
proof (induction k s rule: split_chunks.induct)
  case (2 k s)
  then show ?case by (auto simp: Let_def take_add MaxTagValue_def)
qed simp

lemma split_chunks_length: "length (split_chunks k s) \<le> k"
  by (induction k s rule: split_chunks.induct) (auto simp: Let_def)

lemma split_chunks_bound: "c \<in> set (split_chunks k s) \<Longrightarrow> length c \<le> MaxTagValue"
  by (induction k s rule: split_chunks.induct) (auto simp: Let_def split: if_splits)

lemma split_chunks_nonempty: "s \<noteq> [] \<Longrightarrow> 0 < k \<Longrightarrow> split_chunks k s \<noteq> []"
  by (cases k) (auto simp: Let_def)

lemma SplitAddress_nonempty: "SplitAddress s \<noteq> []"
  using split_chunks_nonempty [of s MaxContinuations]
  by (cases "s = []") (auto simp: SplitAddress_def MaxContinuations_def)

lemma SplitAddress_length: "length (SplitAddress s) \<le> MaxContinuations"
  using split_chunks_length [of MaxContinuations s] by (simp add: SplitAddress_def MaxContinuations_def)

lemma SplitAddress_bound: "c \<in> set (SplitAddress s) \<Longrightarrow> length c \<le> MaxTagValue"
  using split_chunks_bound [of c MaxContinuations s] by (auto simp: SplitAddress_def split: if_splits)

lemma concat_SplitAddress: "length s \<le> MaxAddressLen \<Longrightarrow> concat (SplitAddress s) = s"
  using concat_split_chunks [of MaxContinuations s]
  by (auto simp: SplitAddress_def MaxAddressLen_def mult.commute)

lemmas SplitAddress_facts = SplitAddress_nonempty SplitAddress_length SplitAddress_bound concat_SplitAddress

text \<open>
  C38. An escaped address of at most \<open>MaxAddressLen\<close> runes written over the address tag and its
  continuation tags, beside any other tags of the resource, is gathered back whole and not
  reported corrupt; the write uses at most four tags, each within AWS's limit of 256.
\<close>

theorem split_gather_roundtrip:
  assumes "length escaped \<le> MaxAddressLen" "\<And>i. i < MaxContinuations \<Longrightarrow> others (AddressTagKey i) = None"
  shows "GatherAddress (set_chunks 0 (SplitAddress escaped) others) = (escaped, False)
    \<and> length (SplitAddress escaped) \<le> MaxContinuations
    \<and> (\<forall>chunk \<in> set (SplitAddress escaped). length chunk \<le> MaxTagValue)"
proof -
  have "GatherAddress (set_chunks 0 (SplitAddress escaped) others) = (concat (SplitAddress escaped), False)"
    using assms(2) SplitAddress_nonempty SplitAddress_length
    by (intro GatherAddress_chunks) (auto simp: set_chunks_lookup)
  then show ?thesis
    using SplitAddress_length concat_SplitAddress [OF assms(1)] SplitAddress_bound by simp
qed

text \<open>
  \<open>GatherAddress\<close> reports a marker corrupt exactly when some continuation tag is present while
  the tag before it in the chain is missing.
\<close>

theorem gather_corrupt_iff_gap:
  "snd (GatherAddress tags) \<longleftrightarrow>
     (\<exists>i. 0 < i \<and> i < MaxContinuations \<and> tags (AddressTagKey i) \<noteq> None
        \<and> tags (AddressTagKey (i - 1)) = None)"
proof -
  have range: "{0<..<MaxContinuations} = {1, 2, 3}"
    by (auto simp: MaxContinuations_def)
  have gap: "(\<exists>i. 0 < i \<and> i < MaxContinuations \<and> tags (AddressTagKey i) \<noteq> None \<and> tags (AddressTagKey (i - 1)) = None)
      \<longleftrightarrow> (tags (ContinuationTag 2) \<noteq> None \<and> tags TagAddress = None)
        \<or> (tags (ContinuationTag 3) \<noteq> None \<and> tags (ContinuationTag 2) = None)
        \<or> (tags (ContinuationTag 4) \<noteq> None \<and> tags (ContinuationTag 3) = None)" (is "(\<exists>i. ?G i) \<longleftrightarrow> ?R")
  proof -
    have "(\<exists>i. ?G i) \<longleftrightarrow> (\<exists>i \<in> {0<..<MaxContinuations}. ?G i)" by auto
    also have "\<dots> \<longleftrightarrow> ?R" unfolding range
      by (auto simp: AddressTagKey_def MaxContinuations_def numeral_2_eq_2 [symmetric])
    finally show ?thesis .
  qed
  show ?thesis
    unfolding gap
    by (auto simp: GatherAddress_def MaxContinuations_def upt_rec gather_loop.simps numeral_2_eq_2 [symmetric]
        split: option.splits if_splits prod.splits)
qed

text \<open>
  Escaping an address twice is escaping it once, for every text: an observed marker can be
  normalised with the function that escapes a declared address.
\<close>

theorem escape_address_idempotent: "EscapeAddress u (EscapeAddress u s) = EscapeAddress u s"
  unfolding EscapeAddress_def by (rule current_grammar.escape_idem)

text \<open>
  The bracket-free condition is needed: the doubling alone passes an opening bracket of the
  key through, and a second escaping reads it as a new key.
\<close>

lemma pre210_not_idempotent:
  "pre210EscapeAddress (S ''a.b[\"x[y\"]'') \<noteq> pre210EscapeAddress (pre210EscapeAddress (S ''a.b[\"x[y\"]''))"
  by (simp add: pre210EscapeAddress_def escapeAddressWith_def Let_def trim_rune_def doubleAtDotColon_def replace_all_def)


section \<open>Evaluating the marker code on concrete text\<close>

lemmas class_eval = ascii_defs isLetter_def isDigit_def isPrint_def legalRune_def encodable_def
  Extras_def Excluded_def Introducer_def alpha_under_def ident_rest_def valid_rune_def

lemmas escape_eval = EscapeAddress_def pre210EscapeAddress_def escapeAddressWith_def LegacyEscapeAddress_def
  EscapeKey_def doubleAtDotColon_def replace_all_def Encode_def encode_rune_def trim_rune_def Let_def

lemmas address_eval = abs_resource_instance_string_def module_instance_string_def step_string_def
  resource_instance_string_def resource_string_def toHCLQuotedString_def

lemmas stampable_eval = stampable_def marker_ident_def Valid_iff

definition demo_addr :: "instance_key \<Rightarrow> abs_resource_instance" where
  "demo_addr k = \<lparr>ari_module = [\<lparr>step_name = S ''net'', step_key = NoKey\<rparr>],
     ari_resource = \<lparr>ri_resource = \<lparr>res_mode = ManagedResourceMode, res_type = S ''vpc'', res_name = S ''main''\<rparr>,
                     ri_key = k\<rparr>\<rparr>"

lemma demo_stampable:
  "stampable demo_unicode (demo_addr (StringKey (S ''a.b+c'')))"
  "stampable demo_unicode (demo_addr (StringKey (S ''a@db'')))"
  "stampable demo_unicode (demo_addr (StringKey (S ''a.b'')))"
  "stampable demo_unicode (demo_addr (StringKey (S ''7'')))"
  by (simp_all add: stampable_eval class_eval demo_addr_def)

lemma demo_fits:
  "fits_in_marker demo_unicode (demo_addr (StringKey (S ''a.b+c'')))"
  "fits_in_marker demo_unicode (demo_addr (StringKey (S ''a@db'')))"
  "fits_in_marker demo_unicode (demo_addr (StringKey (S ''a.b'')))"
  "fits_in_marker demo_unicode (demo_addr (StringKey (S ''7'')))"
  by (simp_all add: fits_in_marker_def escape_eval address_eval class_eval demo_addr_def
      MaxAddressLen_def MaxTagValue_def MaxContinuations_def)

section \<open>Witnesses\<close>

lemma demo_marker_address [simp]: "marker_address (demo_addr k) = demo_addr (marker_key k)"
  by (simp add: marker_address_def marker_step_def demo_addr_def)

lemma demo_marker_keys:
  "marker_key (StringKey (S ''a.b+c'')) = StringKey (S ''a.b+c'')" "marker_key (StringKey (S ''7'')) = IntKey 7"
  "marker_key (StringKey (S ''a.b'')) = StringKey (S ''a.b'')" "marker_key (StringKey (S ''a@db'')) = StringKey (S ''a@db'')"
  by (simp_all add: canonical_index_def atoi_def parse_digits_def class_eval itoa_def itoa_nat_def digits_base.simps digit_rune_def)

theorem address_marker_roundtrip_witness:
  "UnescapeAddress (EscapeAddress demo_unicode (abs_resource_instance_string demo_unicode (demo_addr (StringKey (S ''a.b+c'')))))
     = Some (demo_addr (StringKey (S ''a.b+c'')))
   \<and> UnescapeAddress (EscapeAddress demo_unicode (abs_resource_instance_string demo_unicode (demo_addr (StringKey (S ''7'')))))
     = Some (demo_addr (IntKey 7))"
  unfolding address_marker_roundtrip [OF demo_stampable(1) demo_fits(1)] address_marker_roundtrip [OF demo_stampable(4) demo_fits(4)]
  by (simp only: demo_marker_address demo_marker_keys)

theorem marker_names_one_instance_witness:
  "\<not> AddressMatches demo_unicode
     (EscapeAddress demo_unicode (abs_resource_instance_string demo_unicode (demo_addr (StringKey (S ''a.b'')))))
     (abs_resource_instance_string demo_unicode (demo_addr (StringKey (S ''a@db''))))"
  unfolding marker_names_one_instance [OF demo_stampable(3) demo_fits(3) demo_stampable(2) demo_fits(2)] demo_marker_address demo_marker_keys
  by (simp add: demo_addr_def)

theorem split_gather_roundtrip_witness:
  "fst (GatherAddress (set_chunks 0 (SplitAddress (replicate 300 97)) [TagEstate \<mapsto> S ''e''])) = replicate 300 97"
proof -
  have "[TagEstate \<mapsto> S ''e''] (AddressTagKey i) = None" for i
    by (simp add: AddressTagKey_def ContinuationTag_def TagAddress_def TagEstate_def)
  then show ?thesis
    using split_gather_roundtrip [of "replicate 300 97" "[TagEstate \<mapsto> S ''e'']"]
    by (simp add: MaxAddressLen_def MaxTagValue_def MaxContinuations_def)
qed

section \<open>The older grammars\<close>

text \<open>
  A marker written before issue #178 for a key holding the two runes \<open>@d\<close> reads as the current
  marker of another key, so its own declared address no longer matches it: of a key whose only
  special rune is the at sign, the raw marker may be refused.
\<close>

lemma legacy_marker_refused:
  "\<not> AddressMatches demo_unicode
     (LegacyEscapeAddress (abs_resource_instance_string demo_unicode (demo_addr (StringKey (S ''a@db'')))))
     (abs_resource_instance_string demo_unicode (demo_addr (StringKey (S ''a@db''))))"
proof -
  let ?str = "\<lambda>k. abs_resource_instance_string demo_unicode (demo_addr (StringKey (S k)))"
  have same: "LegacyEscapeAddress (?str ''a@db'') = EscapeAddress demo_unicode (?str ''a.b'')"
    by (simp add: escape_eval address_eval class_eval demo_addr_def)
  have "EscapeAddress demo_unicode (?str ''a@db'') \<noteq> EscapeAddress demo_unicode (?str ''a.b'')"
    by (simp add: escape_eval address_eval class_eval demo_addr_def)
  then show ?thesis
    unfolding same using stamped_marker_matches_only_itself [OF demo_stampable(3) demo_fits(3)] by simp
qed

text \<open>
  A digit key and a count index share one marker: the reading of it is the index.
\<close>

lemma digit_key_shares_marker:
  "EscapeAddress demo_unicode (abs_resource_instance_string demo_unicode (demo_addr (StringKey (S ''7''))))
   = EscapeAddress demo_unicode (abs_resource_instance_string demo_unicode (demo_addr (IntKey 7)))"
  by (simp add: escape_eval address_eval class_eval demo_addr_def itoa_def itoa_nat_def digits_base.simps digit_rune_def)

end
