(* ===== verification/GoBytes.thy ===== *)
theory GoBytes
  imports GoText
begin

text \<open>
  Go strings that the code handles byte by byte or only compares and prints: lists of
  characters, ordered bytewise by \<open>List_Lexorder\<close> over \<open>Char_ord\<close> as Go's \<open><\<close> orders
  strings.  \<open>sort.Strings\<close> is \<open>sort\<close>; the decimal printing and parsing of unsigned
  numbers and \<open>strings.Join\<close> are here.
\<close>

definition fmt_uint :: "nat \<Rightarrow> string" where
  "fmt_uint n = map char_of (itoa_nat n)"

definition fmt_int :: "int \<Rightarrow> string" where
  "fmt_int i = (if i < 0 then CHR ''-'' # fmt_uint (nat (- i)) else fmt_uint (nat i))"

definition byte_digit :: "char \<Rightarrow> bool" where
  "byte_digit c \<longleftrightarrow> CHR ''0'' \<le> c \<and> c \<le> CHR ''9''"

text \<open>\<open>strconv.ParseUint(s, 10, 64)\<close>.\<close>

definition parse_uint64 :: "string \<Rightarrow> nat option" where
  "parse_uint64 s = (case parse_digits (map of_char s) of None \<Rightarrow> None
     | Some n \<Rightarrow> if n < 2 ^ 64 then Some n else None)"

fun join_str :: "'a list \<Rightarrow> 'a list list \<Rightarrow> 'a list" where
  "join_str sep [] = []"
| "join_str sep [s] = s"
| "join_str sep (s # t # ss) = s @ sep @ join_str sep (t # ss)"

section \<open>Decimal numbers\<close>

lemma byte_digit_iff: "byte_digit c \<longleftrightarrow> ascii_digit (of_char c)"
  by (simp add: byte_digit_def ascii_defs less_eq_char_def)

lemma of_char_fmt_uint: "map of_char (fmt_uint n) = itoa_nat n"
proof -
  have "map (of_char \<circ> char_of) (itoa_nat n) = map id (itoa_nat n)"
  proof (rule map_cong [OF refl])
    fix r assume "r \<in> set (itoa_nat n)"
    then have "r < 256" using itoa_nat_digits [of r n] by (simp add: ascii_defs)
    then show "((of_char :: char \<Rightarrow> nat) \<circ> char_of) r = id r" by simp
  qed
  then show ?thesis by (simp add: fmt_uint_def)
qed

lemma fmt_uint_digits: "c \<in> set (fmt_uint n) \<Longrightarrow> byte_digit c"
  using itoa_nat_digits [of "of_char c" n] of_char_fmt_uint [of n]
  by (metis byte_digit_iff image_eqI list.set_map)

lemma fmt_uint_nonempty [simp]: "fmt_uint n \<noteq> []"
  by (simp add: fmt_uint_def)

lemma parse_fmt_uint: "n < 2 ^ 64 \<Longrightarrow> parse_uint64 (fmt_uint n) = Some n"
  by (simp add: parse_uint64_def of_char_fmt_uint)

lemma fmt_uint_inject [simp]: "fmt_uint m = fmt_uint n \<longleftrightarrow> m = n"
  by (metis itoa_nat_inject of_char_fmt_uint)

lemma length_fmt_uint: "n < 10 ^ k \<Longrightarrow> 0 < k \<Longrightarrow> length (fmt_uint n) \<le> k"
  using length_digits_base [of 10 n k] by (simp add: fmt_uint_def itoa_nat_def)

lemma fmt_uint_hd: "0 < n \<Longrightarrow> hd (fmt_uint n) \<noteq> CHR ''0''"
proof -
  assume n: "0 < n"
  obtain c cs where s: "fmt_uint n = c # cs" by (cases "fmt_uint n") auto
  then have "of_char c = hd (itoa_nat n)" using of_char_fmt_uint [of n] by (metis list.sel(1) list.simps(9))
  moreover have "hd (digits_base 10 n) \<noteq> 0"
    using n digits_base_hd [of 10 n] by (cases "10 \<le> n") (auto simp: digits_base.simps)
  moreover have "digits_base 10 n \<noteq> []" by (subst digits_base.simps) auto
  ultimately have "of_char c \<noteq> (48 :: nat)"
    by (simp add: itoa_nat_def digit_rune_def hd_map)
  then show ?thesis using s by auto
qed

lemma digits_base_of_digits:
  assumes "2 \<le> b" "ds \<noteq> []" "\<forall>d \<in> set ds. d < b" "hd ds \<noteq> 0 \<or> length ds = 1"
  shows "digits_base b (of_digits b 0 ds) = ds \<and> (hd ds \<noteq> 0 \<longrightarrow> of_digits b 0 ds \<noteq> 0)"
  using assms(2-)
proof (induction ds rule: rev_induct)
  case (snoc d ds)
  show ?case
  proof (cases "ds = []")
    case True
    then show ?thesis using snoc.prems by (simp add: digits_base.simps)
  next
    case False
    then have "hd ds \<noteq> 0" using snoc.prems by auto
    with snoc.IH snoc.prems False
    have *: "digits_base b (of_digits b 0 ds) = ds" "of_digits b 0 ds \<noteq> 0" by auto
    let ?m = "of_digits b 0 ds"
    have d: "d < b" using snoc.prems by simp
    have "b \<le> ?m * b + d" using *(2) by (cases ?m) auto
    then have "digits_base b (?m * b + d) = digits_base b ((?m * b + d) div b) @ [(?m * b + d) mod b]"
      using assms(1) by (subst digits_base.simps) auto
    also have "\<dots> = ds @ [d]" using d *(1) by simp
    finally show ?thesis using *(2) assms(1) by (simp add: of_digits_append)
  qed
qed simp

lemma fmt_uint_parsed:
  assumes "parse_uint64 s = Some n" "hd s \<noteq> CHR ''0'' \<or> length s = 1"
  shows "s = fmt_uint n"
proof -
  let ?r = "map of_char s :: nat list" let ?d = "map (\<lambda>r. r - 48) ?r"
  have s: "s \<noteq> []" "\<forall>r \<in> set ?r. ascii_digit r" and n: "n = of_digits 10 0 ?d"
    using assms(1) by (auto simp: parse_uint64_def parse_digits_def list_all_iff split: if_splits)
  have "hd ?d \<noteq> 0 \<or> length ?d = 1"
  proof (cases "length s = 1")
    case False
    then have "hd s \<noteq> CHR ''0''" using assms(2) by simp
    then have "(of_char (hd s) :: nat) \<noteq> of_char (CHR ''0'')" by (simp only: of_char_eq_iff not_False_eq_True)
    moreover have "ascii_digit (of_char (hd s))" using s by simp
    ultimately show ?thesis using s(1) by (simp add: hd_map ascii_defs)
  qed simp
  then have "digits_base 10 n = ?d"
    using s unfolding n by (intro digits_base_of_digits [THEN conjunct1]) (auto simp: ascii_defs)
  then have "itoa_nat n = map (\<lambda>d. 48 + (d - 48)) ?r"
    by (simp add: itoa_nat_def digit_rune_def comp_def)
  also have "\<dots> = ?r" using s(2) by (intro map_idI) (auto simp: ascii_defs)
  finally show ?thesis by (simp add: fmt_uint_def comp_def)
qed

lemma join_str_Cons: "ss \<noteq> [] \<Longrightarrow> join_str sep (s # ss) = s @ sep @ join_str sep ss"
  by (cases ss) auto

end
