(* ===== verification/Slots.thy ===== *)
theory Slots
  imports GoBytes "HOL-Library.Multiset"
begin

text \<open>
  The slot matcher of \<open>internal/live/slots/slots.go\<close>: the members of a count set are told
  apart by an opaque number each carries in its \<open>tofu-slot\<close> tag, and \<open>Match\<close> pairs the
  declared indices with the live members in ascending order of that number.  A slot is a
  natural number: the code's \<open>uint64\<close> never exceeds the ceiling of ten digits it checks.
\<close>

section \<open>Slot values\<close>

type_synonym slot = nat

definition MaxSlot :: slot where "MaxSlot = 4294967295"

definition slot_string :: "slot \<Rightarrow> string" where
  "slot_string s = fmt_uint s"

record parse_error =
  pe_value :: string
  pe_id :: string
  pe_reason :: string

definition parse_failure :: "string \<Rightarrow> string \<Rightarrow> parse_error + slot" where
  "parse_failure s reason = Inl \<lparr>pe_value = s, pe_id = '''', pe_reason = reason\<rparr>"

definition Parse :: "string \<Rightarrow> parse_error + slot" where
  "Parse s =
    (if s = '''' then parse_failure s ''it is empty''
     else if length s > 10 then
       parse_failure s (''it is '' @ fmt_uint (length s) @ '' digits long, over the ten-digit ceiling'')
     else if length s > 1 \<and> s ! 0 = CHR ''0'' then
       parse_failure s ''it has a leading zero, and the spec's spelling of a slot has none''
     else if list_ex (\<lambda>c. c < CHR ''0'' \<or> c > CHR ''9'') s then
       parse_failure s ''it is not an unsigned base-10 integer''
     else case parse_uint64 s of
       None \<Rightarrow> parse_failure s ''it is not an unsigned base-10 integer''
     | Some n \<Rightarrow> if n > MaxSlot then parse_failure s (''it is above the ceiling of '' @ slot_string MaxSlot)
                 else Inr n)"

section \<open>Live sets\<close>

record live_member =
  lm_id :: string
  lm_slot :: string

datatype slot_mode = ModeEmpty | ModeNone | ModeAll | ModeMixed

fun count_slots :: "live_member list \<Rightarrow> nat \<Rightarrow> nat \<Rightarrow> nat \<times> nat" where
  "count_slots [] slotted bare = (slotted, bare)"
| "count_slots (l # ls) slotted bare =
     (if lm_slot l = '''' then count_slots ls slotted (Suc bare)
      else count_slots ls (Suc slotted) bare)"

definition Classify :: "live_member list \<Rightarrow> slot_mode" where
  "Classify live = (let (slotted, bare) = count_slots live 0 0 in
     if slotted = 0 \<and> bare = 0 then ModeEmpty
     else if slotted = 0 then ModeNone
     else if bare = 0 then ModeAll
     else ModeMixed)"

record mixed_error =
  me_slotted :: "string list"
  me_bare :: "string list"

fun mixed_sides :: "live_member list \<Rightarrow> string list \<Rightarrow> string list \<Rightarrow> string list \<times> string list" where
  "mixed_sides [] slotted bare = (slotted, bare)"
| "mixed_sides (l # ls) slotted bare =
     (let i = (if lm_id l = '''' then ''(no identity)'' else lm_id l)
      in if lm_slot l = '''' then mixed_sides ls slotted (bare @ [i])
         else mixed_sides ls (slotted @ [i]) bare)"

definition mixedError :: "live_member list \<Rightarrow> mixed_error" where
  "mixedError live = (let (slotted, bare) = mixed_sides live [] []
     in \<lparr>me_slotted = sort slotted, me_bare = sort bare\<rparr>)"

definition MixedFrom :: "live_member list \<Rightarrow> mixed_error option" where
  "MixedFrom live = (if Classify live \<noteq> ModeMixed then None else Some (mixedError live))"

section \<open>Matching\<close>

record bound_member =
  bm_index :: nat
  bm_live :: live_member
  bm_slot :: slot

record minted =
  mt_index :: nat
  mt_slot :: slot

record match_result =
  mr_declared :: nat
  mr_bound :: "bound_member list"
  mr_surplus :: "bound_member list"
  mr_deficit :: "minted list"
  mr_slots :: "slot list"
  mr_high_water :: slot

record duplicate =
  dup_slot :: slot
  dup_ids :: "string list"

datatype match_error =
    NegativeCount int
  | MixedErr mixed_error
  | ParseErr parse_error
  | DuplicateErr "duplicate list"
  | CeilingErr nat

fun parse_live :: "live_member list \<Rightarrow> match_error + bound_member list" where
  "parse_live [] = Inr []"
| "parse_live (l # ls) = (case Parse (lm_slot l) of
     Inl pe \<Rightarrow> Inl (ParseErr (pe\<lparr>pe_id := lm_id l\<rparr>))
   | Inr s \<Rightarrow> try_bind (parse_live ls) (\<lambda>bs. Inr (\<lparr>bm_index = 0, bm_live = l, bm_slot = s\<rparr> # bs)))"

text \<open>The map \<open>bySlot\<close>: the ids of a slot in the order of the live set.\<close>

definition by_slot :: "bound_member list \<Rightarrow> slot \<Rightarrow> string list" where
  "by_slot parsed s = map (\<lambda>b. lm_id (bm_live b)) (filter (\<lambda>b. bm_slot b = s) parsed)"

definition duplicates :: "bound_member list \<Rightarrow> duplicate list" where
  "duplicates parsed =
     map (\<lambda>s. \<lparr>dup_slot = s, dup_ids = sort (by_slot parsed s)\<rparr>)
       (filter (\<lambda>s. 2 \<le> length (by_slot parsed s)) (sorted_list_of_set (set (map bm_slot parsed))))"

fun high_water :: "bound_member list \<Rightarrow> slot \<Rightarrow> bool \<Rightarrow> slot \<times> bool" where
  "high_water [] hw haveHigh = (hw, haveHigh)"
| "high_water (b # bs) hw haveHigh =
     (if \<not> haveHigh \<or> bm_slot b > hw then high_water bs (bm_slot b) True
      else high_water bs hw haveHigh)"

fun place :: "nat \<Rightarrow> bound_member list \<Rightarrow> match_result \<Rightarrow> match_result" where
  "place i [] res = res"
| "place i (b # bs) res =
     (let b = b\<lparr>bm_index := i\<rparr> in
      if i < mr_declared res
      then place (Suc i) bs (res\<lparr>mr_bound := mr_bound res @ [b], mr_slots := (mr_slots res)[i := bm_slot b]\<rparr>)
      else place (Suc i) bs (res\<lparr>mr_surplus := mr_surplus res @ [b]\<rparr>))"

text \<open>One minted index: the next slot, or none past the ceiling.\<close>

definition next_slot :: "slot \<Rightarrow> bool \<Rightarrow> slot option" where
  "next_slot next haveHigh = (if \<not> haveHigh then Some 0
     else if next \<ge> MaxSlot then None else Some (next + 1))"

definition mint_one :: "nat \<Rightarrow> slot \<Rightarrow> match_result \<Rightarrow> match_result" where
  "mint_one i s res = res\<lparr>mr_deficit := mr_deficit res @ [\<lparr>mt_index = i, mt_slot = s\<rparr>],
     mr_slots := (mr_slots res)[i := s], mr_high_water := s\<rparr>"

function mint :: "nat \<Rightarrow> slot \<Rightarrow> bool \<Rightarrow> match_result \<Rightarrow> match_error + match_result" where
  "mint i next haveHigh res =
     (if i < mr_declared res then
        (case next_slot next haveHigh of None \<Rightarrow> Inl (CeilingErr i)
         | Some s \<Rightarrow> mint (Suc i) s True (mint_one i s res))
      else Inr res)"
  by pat_completeness auto
termination
  by (relation "measure (\<lambda>(i, _, _, res). mr_declared res - i)") (auto simp: mint_one_def)

declare mint.simps [simp del]

definition Match :: "int \<Rightarrow> live_member list \<Rightarrow> match_error + match_result" where
  "Match declared live =
    (if declared < 0 then Inl (NegativeCount declared)
     else case MixedFrom live of Some e \<Rightarrow> Inl (MixedErr e)
     | None \<Rightarrow> try_bind (parse_live live) (\<lambda>parsed.
         if duplicates parsed \<noteq> [] then Inl (DuplicateErr (duplicates parsed))
         else
           (let parsed = sort_key bm_slot parsed;
                d = nat declared;
                (hw, haveHigh) = high_water parsed 0 False;
                res = place 0 parsed \<lparr>mr_declared = d, mr_bound = [], mr_surplus = [], mr_deficit = [],
                                      mr_slots = replicate d 0, mr_high_water = hw\<rparr>
            in mint (length parsed) hw haveHigh res)))"

definition Sequential :: "nat \<Rightarrow> slot list" where
  "Sequential declared = [0..<declared]"

section \<open>Error messages\<close>

definition parse_error_text :: "(string \<Rightarrow> string) \<Rightarrow> parse_error \<Rightarrow> string" where
  "parse_error_text quote e =
     (let who = (if pe_id e \<noteq> '''' then pe_id e else ''a live resource'')
      in who @ '' carries the tofu-slot value '' @ quote (pe_value e) @ '', which is not a slot: '' @ pe_reason e)"

definition duplicate_error_text :: "duplicate list \<Rightarrow> string" where
  "duplicate_error_text ds = join_str ''; ''
     (map (\<lambda>d. ''slot '' @ slot_string (dup_slot d) @ '' is claimed by '' @ join_str '' and '' (dup_ids d)) ds)"

definition mixed_error_text :: "mixed_error \<Rightarrow> string" where
  "mixed_error_text e = join_str '', '' (me_slotted e) @ '' carry a tofu-slot and ''
     @ join_str '', '' (me_bare e) @ '' do not''"

section \<open>Slot values: what \<open>Parse\<close> accepts\<close>

lemma slot_string_inject [simp]: "slot_string m = slot_string n \<longleftrightarrow> m = n"
  by (simp add: slot_string_def)

lemma slot_string_nonempty [simp]: "slot_string n \<noteq> []" "[] \<noteq> slot_string n"
  by (auto simp: slot_string_def dest: sym)

lemma slot_string_leading_zero:
  assumes "1 < length (slot_string n)"
  shows "slot_string n ! 0 \<noteq> CHR ''0''"
proof -
  have "0 < n" using assms by (cases n) (auto simp: slot_string_def fmt_uint_def itoa_nat_def digits_base.simps)
  then show ?thesis using fmt_uint_hd [of n] by (simp add: slot_string_def hd_conv_nth)
qed

lemma Parse_slot_string:
  assumes "n \<le> MaxSlot"
  shows "Parse (slot_string n) = Inr n"
proof -
  have "length (slot_string n) \<le> 10" "n < 2 ^ 64"
    using assms length_fmt_uint [of n 10] by (auto simp: slot_string_def MaxSlot_def)
  moreover have "\<not> list_ex (\<lambda>c. c < CHR ''0'' \<or> c > CHR ''9'') (slot_string n)"
    using fmt_uint_digits [of _ n] by (fastforce simp: slot_string_def list_ex_iff byte_digit_def not_less)
  ultimately show ?thesis
    using assms slot_string_leading_zero [of n] parse_fmt_uint [of n]
    by (auto simp: Parse_def slot_string_def)
qed

lemma Parse_InrD:
  assumes "Parse s = Inr n"
  shows "n \<le> MaxSlot \<and> s = slot_string n"
proof -
  have "parse_uint64 s = Some n" "n \<le> MaxSlot" "s \<noteq> []" "\<not> (length s > 1 \<and> s ! 0 = CHR ''0'')"
    using assms by (auto simp: Parse_def parse_failure_def split: if_splits option.splits)
  moreover from this have "hd s \<noteq> CHR ''0'' \<or> length s = 1"
    by (cases s) (auto simp: hd_conv_nth)
  ultimately show ?thesis using fmt_uint_parsed [of s n] by (simp add: slot_string_def)
qed

lemma Parse_Inr_iff: "Parse s = Inr n \<longleftrightarrow> n \<le> MaxSlot \<and> s = slot_string n"
  using Parse_slot_string Parse_InrD by blast

section \<open>Live sets\<close>

lemma count_slots_eq: "count_slots ls a b =
    (a + length (filter (\<lambda>l. lm_slot l \<noteq> '''') ls), b + length (filter (\<lambda>l. lm_slot l = '''') ls))"
  by (induction ls a b rule: count_slots.induct) auto

lemma Classify_mixed_iff: "Classify live = ModeMixed \<longleftrightarrow>
    (\<exists>l \<in> set live. lm_slot l = '''') \<and> (\<exists>l \<in> set live. lm_slot l \<noteq> '''')"
  by (auto simp: Classify_def count_slots_eq filter_empty_conv)

text \<open>The slots a live set carries, when every member carries one.\<close>

definition carried :: "live_member list \<Rightarrow> slot list \<Rightarrow> bool" where
  "carried live ss \<longleftrightarrow> map (Parse \<circ> lm_slot) live = map Inr ss"

definition as_bound :: "live_member \<Rightarrow> slot \<Rightarrow> bound_member" where
  "as_bound l s = \<lparr>bm_index = 0, bm_live = l, bm_slot = s\<rparr>"

lemma as_bound_simps [simp]: "bm_slot (as_bound l s) = s" "bm_live (as_bound l s) = l"
  by (simp_all add: as_bound_def)

lemma carried_simps [simp]: "carried [] ss \<longleftrightarrow> ss = []"
  "carried (l # ls) ss \<longleftrightarrow> (\<exists>s ss'. ss = s # ss' \<and> Parse (lm_slot l) = Inr s \<and> carried ls ss')"
  by (auto simp: carried_def map_eq_Cons_conv Cons_eq_map_conv)

lemma carried_length: "carried live ss \<Longrightarrow> length ss = length live"
  by (metis carried_def length_map)

lemma carried_slot: "carried live ss \<Longrightarrow> l \<in> set live \<Longrightarrow> lm_slot l \<noteq> ''''"
  by (induction live arbitrary: ss) (auto simp: Parse_Inr_iff)

lemma carried_bound: "carried live ss \<Longrightarrow> s \<in> set ss \<Longrightarrow> s \<le> MaxSlot"
  by (induction live arbitrary: ss) (auto simp: Parse_Inr_iff)

lemma parse_live_carried: "carried live ss \<Longrightarrow> parse_live live = Inr (map2 as_bound live ss)"
  by (induction live arbitrary: ss) (auto simp: as_bound_def)

lemma parse_live_Inr: "parse_live live = Inr bs \<Longrightarrow> \<exists>ss. carried live ss \<and> bs = map2 as_bound live ss"
proof (induction live arbitrary: bs)
  case (Cons l ls)
  then obtain s bs' where "Parse (lm_slot l) = Inr s" "parse_live ls = Inr bs'" "bs = as_bound l s # bs'"
    by (auto simp: try_bind_Inr_iff as_bound_def split: sum.splits)
  moreover from this Cons.IH obtain ss where "carried ls ss" "bs' = map2 as_bound ls ss" by blast
  ultimately show ?case by (intro exI [of _ "s # ss"]) auto
qed simp

lemma map_slot_as_bound: "length ls = length ss \<Longrightarrow> map bm_slot (map2 as_bound ls ss) = ss"
  by (induction ls ss rule: list_induct2) auto

lemma map_slot_as_bound_comp [simp]:
  "length ls = length ss \<Longrightarrow> map (bm_slot \<circ> (\<lambda>(l, s). as_bound l s)) (zip ls ss) = ss"
  by (induction ls ss rule: list_induct2) auto

lemma map_live_as_bound_comp [simp]:
  "length ls = length ss \<Longrightarrow> map (bm_live \<circ> (\<lambda>(l, s). as_bound l s)) (zip ls ss) = ls"
  by (induction ls ss rule: list_induct2) auto

lemma map_live_as_bound: "length ls = length ss \<Longrightarrow> map bm_live (map2 as_bound ls ss) = ls"
  by (induction ls ss rule: list_induct2) auto

lemma MixedFrom_carried: "carried live ss \<Longrightarrow> MixedFrom live = None"
  using carried_slot by (auto simp: MixedFrom_def Classify_mixed_iff)

lemma length_by_slot: "length (by_slot bs s) = count_list (map bm_slot bs) s"
  by (induction bs) (auto simp: by_slot_def)

lemma distinct_count_list: "distinct xs \<longleftrightarrow> (\<forall>x. count_list xs x \<le> 1)"
  by (induction xs) (auto simp: count_list_0_iff le_Suc_eq)

lemma duplicates_empty_iff: "duplicates bs = [] \<longleftrightarrow> distinct (map bm_slot bs)"
proof -
  have "duplicates bs = [] \<longleftrightarrow> (\<forall>s \<in> set (map bm_slot bs). count_list (map bm_slot bs) s \<le> 1)"
    by (auto simp: duplicates_def filter_empty_conv length_by_slot not_le less_Suc_eq_le)
  also have "\<dots> \<longleftrightarrow> distinct (map bm_slot bs)"
    unfolding distinct_count_list by (metis count_list_0_iff le_add1 plus_nat.add_0)
  finally show ?thesis .
qed

section \<open>The loops of \<open>Match\<close>\<close>

lemma high_water_True: "high_water bs hw True = (fold max (map bm_slot bs) hw, True)"
  by (induction bs arbitrary: hw) (auto simp: max_def)

lemma high_water_start: "high_water bs 0 False =
    (if bs = [] then (0, False) else (Max (set (map bm_slot bs)), True))"
proof (cases bs)
  case (Cons b bs')
  then show ?thesis
    by (simp add: high_water_True) (simp only: Max.set_eq_fold [symmetric] list.set(2) list.set_map)
qed simp

definition indexed :: "nat \<Rightarrow> bound_member list \<Rightarrow> bound_member list" where
  "indexed i bs = map2 (\<lambda>j b. b\<lparr>bm_index := j\<rparr>) [i..<i + length bs] bs"

lemma indexed_simps [simp]: "indexed i [] = []" "indexed i (b # bs) = b\<lparr>bm_index := i\<rparr> # indexed (Suc i) bs"
  by (simp_all add: indexed_def upt_conv_Cons del: upt_Suc)

lemma length_indexed [simp]: "length (indexed i bs) = length bs"
  by (simp add: indexed_def)

lemma map_indexed: "map bm_live (indexed i bs) = map bm_live bs" "map bm_slot (indexed i bs) = map bm_slot bs"
  "map bm_index (indexed i bs) = [i..<i + length bs]"
  by (induction bs arbitrary: i) (auto simp: upt_conv_Cons simp del: upt_Suc)

lemma place_eq:
  assumes "length (mr_slots res) = mr_declared res"
  shows "place i bs res = res\<lparr>mr_bound := mr_bound res @ take (mr_declared res - i) (indexed i bs),
      mr_surplus := mr_surplus res @ drop (mr_declared res - i) (indexed i bs),
      mr_slots := take i (mr_slots res) @ map bm_slot (take (mr_declared res - i) bs)
                  @ drop (i + length bs) (mr_slots res)\<rparr>"
  using assms
proof (induction i bs res rule: place.induct)
  case (2 i b bs res)
  show ?case
  proof (cases "i < mr_declared res")
    case True
    then have "mr_declared res - i = Suc (mr_declared res - Suc i)" by simp
    then show ?thesis using 2 True
      by (simp add: upd_conv_take_nth_drop Let_def add.commute [of i])
  next
    case False
    then show ?thesis using 2 by (simp add: Let_def)
  qed
qed simp

definition fill :: "nat \<Rightarrow> slot \<Rightarrow> match_result \<Rightarrow> match_result" where
  "fill i s res = (let d = mr_declared res in
     res\<lparr>mr_deficit := mr_deficit res @ map (\<lambda>k. \<lparr>mt_index = k, mt_slot = s + (k - i)\<rparr>) [i..<d],
         mr_slots := take i (mr_slots res) @ [s..<s + (d - i)],
         mr_high_water := (if i < d then s + (d - i) - 1 else mr_high_water res)\<rparr>)"

lemma mint_True:
  assumes "next + (mr_declared res - i) \<le> MaxSlot" "length (mr_slots res) = mr_declared res"
  shows "mint i next True res = Inr (fill i (Suc next) res)"
  using assms
proof (induction "mr_declared res - i" arbitrary: i "next" res)
  case 0
  then show ?case by (subst mint.simps) (auto simp: fill_def Let_def)
next
  case (Suc k)
  let ?res = "mint_one i (Suc next) res"
  have i: "i < mr_declared res" using Suc.hyps by simp
  have "mint i next True res = mint (Suc i) (Suc next) True ?res"
    using Suc.prems i by (subst mint.simps) (auto simp: next_slot_def)
  also have "\<dots> = Inr (fill (Suc i) (Suc (Suc next)) ?res)"
    using Suc.hyps(2) Suc.prems by (intro Suc.hyps(1)) (auto simp: mint_one_def)
  also have "fill (Suc i) (Suc (Suc next)) ?res = fill i (Suc next) res"
  proof -
    have "[Suc next..<Suc next + (mr_declared res - i)]
        = Suc next # [Suc (Suc next)..<Suc (Suc next) + (mr_declared res - Suc i)]"
      using i by (simp add: upt_conv_Cons Suc_diff_Suc del: upt_Suc)
    moreover have "Suc next + (k - i) = Suc (Suc next) + (k - Suc i)" if "k \<in> set [Suc i..<mr_declared res]" for k
      using that by auto
    ultimately show ?thesis
      using i Suc.prems(2)
      by (simp add: fill_def mint_one_def Let_def upt_conv_Cons [of i] take_Suc_conv_app_nth del: upt_Suc)
  qed
  finally show ?case .
qed

lemma mint_True_fail:
  assumes "next \<le> MaxSlot" "MaxSlot < next + (mr_declared res - i)"
  shows "mint i next True res = Inl (CeilingErr (i + (MaxSlot - next)))"
  using assms
proof (induction "MaxSlot - next" arbitrary: i "next" res)
  case 0
  then show ?case by (subst mint.simps) (auto simp: next_slot_def)
next
  case (Suc k)
  then have "mint i next True res = mint (Suc i) (Suc next) True (mint_one i (Suc next) res)"
    by (subst mint.simps) (auto simp: next_slot_def)
  also have "\<dots> = Inl (CeilingErr (Suc i + (MaxSlot - Suc next)))"
    using Suc.hyps(2) Suc.prems by (intro Suc.hyps(1)) (auto simp: mint_one_def)
  finally show ?case using Suc.hyps(2) by (simp add: Suc_diff_le)
qed

section \<open>What \<open>Match\<close> computes\<close>

definition slot_order :: "live_member list \<Rightarrow> slot list \<Rightarrow> bound_member list" where
  "slot_order live ss = sort_key bm_slot (map2 as_bound live ss)"

definition first_minted :: "slot list \<Rightarrow> slot" where
  "first_minted ss = (if ss = [] then 0 else Suc (Max (set ss)))"

definition matching :: "nat \<Rightarrow> live_member list \<Rightarrow> slot list \<Rightarrow> match_result" where
  "matching d live ss = (let n = length live; s = first_minted ss; bs = indexed 0 (slot_order live ss) in
     \<lparr>mr_declared = d, mr_bound = take d bs, mr_surplus = drop d bs,
      mr_deficit = map (\<lambda>k. \<lparr>mt_index = k, mt_slot = s + (k - n)\<rparr>) [n..<d],
      mr_slots = take d (sort ss) @ [s..<s + (d - n)],
      mr_high_water = s + (d - n) - 1\<rparr>)"

lemma map_slot_order: "length ss = length live \<Longrightarrow> map bm_slot (slot_order live ss) = sort ss"
proof (rule properties_for_sort [symmetric])
  assume len: "length ss = length live"
  have "mset (map bm_slot (slot_order live ss)) = mset (map bm_slot (map2 as_bound live ss))"
    unfolding slot_order_def mset_map mset_sort by (rule refl)
  then show "mset (map bm_slot (slot_order live ss)) = mset ss"
    by (simp only: map_slot_as_bound [OF len [symmetric]])
qed (simp add: slot_order_def)

lemma length_slot_order [simp]: "length ss = length live \<Longrightarrow> length (slot_order live ss) = length live"
  by (simp add: slot_order_def)

lemma Match_carried:
  assumes "carried live ss" "distinct ss" "0 \<le> d"
  shows "Match d live = (if length live < nat d \<longrightarrow> first_minted ss + (nat d - length live) \<le> Suc MaxSlot
      then Inr (matching (nat d) live ss)
      else Inl (CeilingErr (length live + (Suc MaxSlot - first_minted ss))))" (is "_ = ?rhs")
proof -
  let ?bs = "map2 as_bound live ss" let ?srt = "slot_order live ss" let ?d = "nat d" let ?n = "length live"
  have len: "length ss = length live" using assms(1) by (rule carried_length)
  have slots: "map bm_slot ?bs = ss" using len by (simp add: map_slot_as_bound)
  have srt: "length ?srt = ?n" "map bm_slot ?srt = sort ss" using len by (simp_all add: map_slot_order)
  obtain hw hv where hw: "high_water ?srt 0 False = (hw, hv)" by fastforce
  define base where "base = \<lparr>mr_declared = ?d, mr_bound = [], mr_surplus = [], mr_deficit = [],
      mr_slots = replicate ?d 0, mr_high_water = hw\<rparr>"
  define res where "res = place 0 ?srt base"
  have res: "res = \<lparr>mr_declared = ?d, mr_bound = take ?d (indexed 0 ?srt),
      mr_surplus = drop ?d (indexed 0 ?srt), mr_deficit = [],
      mr_slots = take ?d (sort ss) @ replicate (?d - ?n) 0, mr_high_water = hw\<rparr>"
    using srt by (simp add: res_def base_def place_eq take_map [symmetric])
  have "Match d live = mint ?n hw hv res"
    using assms hw slots srt(1)
    by (simp add: Match_def MixedFrom_carried parse_live_carried duplicates_empty_iff Let_def res_def
        base_def slot_order_def)
  also have "\<dots> = ?rhs"
  proof (cases "live = []")
    case True
    then have "ss = []" "hw = 0" "\<not> hv" using len hw by (auto simp: slot_order_def)
    then have eq: "mint ?n hw hv res = mint 0 0 False res" by (simp add: True)
    show ?thesis
    proof (cases "?d = 0")
      case 0: True
      then have "mint 0 0 False res = Inr res" by (subst mint.simps) (simp add: res)
      then show ?thesis using 0 True \<open>ss = []\<close> \<open>hw = 0\<close> unfolding eq
        by (simp add: res matching_def first_minted_def slot_order_def)
    next
      case d: False
      let ?res = "mint_one 0 0 res"
      have step: "mint 0 0 False res = mint 1 0 True ?res"
        using d by (subst mint.simps) (simp add: res next_slot_def)
      show ?thesis
      proof (cases "?d - 1 \<le> MaxSlot")
        case le: True
        then have "mint 1 0 True ?res = Inr (fill 1 1 ?res)"
          using mint_True [of 0 ?res 1] True \<open>ss = []\<close> by (simp add: res mint_one_def)
        also have "fill 1 1 ?res = matching ?d live ss"
          using d True \<open>ss = []\<close>
          by (cases "?d") (auto simp: fill_def mint_one_def matching_def res slot_order_def first_minted_def Let_def upt_conv_Cons simp del: upt_Suc)
        finally show ?thesis using le True \<open>ss = []\<close> d unfolding eq step by (auto simp: first_minted_def)
      next
        case gt: False
        then have "mint 1 0 True ?res = Inl (CeilingErr (1 + (MaxSlot - 0)))"
          using mint_True_fail [of 0 ?res 1] by (simp add: res mint_one_def)
        then show ?thesis using gt d True \<open>ss = []\<close> unfolding eq step by (auto simp: first_minted_def)
      qed
    qed
  next
    case False
    then have ne: "ss \<noteq> []" "?srt \<noteq> []" using len srt(1) by (auto simp flip: length_greater_0_conv)
    then have h: "hv" "Suc hw = first_minted ss"
      using hw srt(2) by (auto simp: high_water_start first_minted_def simp flip: list.set_map)
    have "hw \<in> set ss" using h(2) ne(1) by (simp add: first_minted_def)
    then have le: "hw \<le> MaxSlot" using assms(1) by (rule carried_bound [rotated])
    show ?thesis
    proof (cases "hw + (?d - ?n) \<le> MaxSlot")
      case True
      then have "mint ?n hw True res = Inr (fill ?n (Suc hw) res)"
        by (intro mint_True) (auto simp: res len)
      also have "fill ?n (Suc hw) res = matching ?d live ss"
        using h(2) len by (auto simp: fill_def matching_def res Let_def)
      finally show ?thesis using True h by auto
    next
      case F: False
      then have "mint ?n hw True res = Inl (CeilingErr (?n + (MaxSlot - hw)))"
        using le by (intro mint_True_fail) (auto simp: res)
      then show ?thesis using F h le by (auto simp flip: h(2))
    qed
  qed
  finally show ?thesis .
qed

lemma Match_carriedD:
  assumes "Match d live = Inr r"
  shows "0 \<le> d \<and> (\<exists>ss. carried live ss \<and> distinct ss
    \<and> (length live < nat d \<longrightarrow> first_minted ss + (nat d - length live) \<le> Suc MaxSlot)
    \<and> r = matching (nat d) live ss)"
proof -
  from assms obtain bs where d: "0 \<le> d" and bs: "parse_live live = Inr bs" "duplicates bs = []"
    by (auto simp: Match_def try_bind_Inr_iff split: if_splits option.splits)
  from bs(1) obtain ss where ss: "carried live ss" "bs = map2 as_bound live ss"
    using parse_live_Inr by blast
  then have "distinct ss"
    using bs(2) carried_length [OF ss(1)] by (simp add: duplicates_empty_iff)
  then show ?thesis using d ss Match_carried [of live ss d] assms by (auto split: if_splits)
qed

lemma matching_simps:
  assumes "length ss = length live"
  shows "mr_declared (matching d live ss) = d"
    "map bm_slot (mr_bound (matching d live ss) @ mr_surplus (matching d live ss)) = sort ss"
    "map bm_live (mr_bound (matching d live ss) @ mr_surplus (matching d live ss)) = map bm_live (slot_order live ss)"
    "map bm_index (mr_bound (matching d live ss) @ mr_surplus (matching d live ss)) = [0..<length live]"
    "length (mr_bound (matching d live ss)) = min d (length live)"
    "map bm_slot (mr_bound (matching d live ss)) = take d (sort ss)"
  using assms by (simp_all add: matching_def Let_def map_indexed map_slot_order take_map [symmetric] min.commute)

lemma mset_slot_order:
  assumes "length ss = length live"
  shows "mset (map bm_live (slot_order live ss)) = mset live"
proof -
  have "mset (map bm_live (slot_order live ss)) = mset (map bm_live (map2 as_bound live ss))"
    unfolding slot_order_def mset_map mset_sort by (rule refl)
  then show ?thesis by (simp only: map_live_as_bound [OF assms [symmetric]])
qed

lemma carried_zip: "carried live ss \<Longrightarrow> (l, s) \<in> set (zip live ss) \<Longrightarrow> Parse (lm_slot l) = Inr s"
  by (induction live arbitrary: ss) auto

lemma slot_order_parses:
  assumes "carried live ss" "b \<in> set (slot_order live ss)"
  shows "Parse (lm_slot (bm_live b)) = Inr (bm_slot b)"
  using assms carried_zip by (force simp: slot_order_def)

lemma matching_parses:
  assumes "carried live ss" "b \<in> set (mr_bound (matching d live ss) @ mr_surplus (matching d live ss))"
  shows "Parse (lm_slot (bm_live b)) = Inr (bm_slot b)"
proof -
  have *: "b \<in> set (indexed i bs) \<Longrightarrow> (\<And>b. b \<in> set bs \<Longrightarrow> Parse (lm_slot (bm_live b)) = Inr (bm_slot b))
      \<Longrightarrow> Parse (lm_slot (bm_live b)) = Inr (bm_slot b)" for i bs
    by (induction bs arbitrary: i) auto
  show ?thesis
    by (rule * [of 0 "slot_order live ss"])
       (use assms slot_order_parses [OF assms(1)] in \<open>simp_all add: matching_def Let_def flip: set_append\<close>)
qed

lemma sort_distinct_strict: "distinct (ss :: nat list) \<Longrightarrow> sorted_wrt (<) (sort ss)"
  by (simp add: strict_sorted_iff)

lemma first_minted_gt: "s \<in> set ss \<Longrightarrow> s < first_minted ss"
  by (auto simp: first_minted_def less_Suc_eq_le intro: Max_ge)

lemma matching_slots:
  assumes "carried live ss"
  shows "take (length live) (mr_slots (matching d live ss)) = map bm_slot (mr_bound (matching d live ss))"
    "drop (length live) (mr_slots (matching d live ss)) = map mt_slot (mr_deficit (matching d live ss))"
    "map mt_index (mr_deficit (matching d live ss)) = [length live..<d]"
    "length (mr_slots (matching d live ss)) = d"
proof -
  let ?f = "first_minted ss" and ?n = "length live"
  have len: "length ss = ?n" using assms by (rule carried_length)
  have slots: "mr_slots (matching d live ss) = take d (sort ss) @ [?f..<?f + (d - ?n)]"
    and deficit: "mr_deficit (matching d live ss) = map (\<lambda>k. \<lparr>mt_index = k, mt_slot = ?f + (k - ?n)\<rparr>) [?n..<d]"
    by (simp_all add: matching_def Let_def)
  show "take ?n (mr_slots (matching d live ss)) = map bm_slot (mr_bound (matching d live ss))"
    using matching_simps(6) [OF len] len unfolding slots by (cases "?n \<le> d") auto
  have "map mt_slot (mr_deficit (matching d live ss)) = [?f..<?f + (d - ?n)]"
    unfolding deficit by (intro nth_equalityI) auto
  moreover have "drop ?n (mr_slots (matching d live ss)) = [?f..<?f + (d - ?n)]"
    unfolding slots using len by (cases "?n \<le> d") auto
  ultimately show "drop ?n (mr_slots (matching d live ss)) = map mt_slot (mr_deficit (matching d live ss))"
    by simp
  show "map mt_index (mr_deficit (matching d live ss)) = [?n..<d]" by (simp add: deficit comp_def)
  show "length (mr_slots (matching d live ss)) = d" using len by (simp add: slots)
qed

lemma matching_slots_strict:
  assumes "carried live ss" "distinct ss"
  shows "sorted_wrt (<) (mr_slots (matching d live ss))"
proof -
  have lt: "x < y" if "x \<in> set ss" "first_minted ss \<le> y" for x y
    using first_minted_gt [OF that(1)] that(2) by simp
  show ?thesis
    using sort_distinct_strict [OF assms(2)] unfolding matching_def Let_def
    by (auto simp: sorted_wrt_append sorted_wrt_take sorted_wrt_upt dest!: in_set_takeD intro: lt)
qed

lemma matching_slots_bound:
  assumes "carried live ss" "length live < d \<longrightarrow> first_minted ss + (d - length live) \<le> Suc MaxSlot"
  shows "list_all (\<lambda>s. s \<le> MaxSlot) (mr_slots (matching d live ss))"
  using carried_bound [OF assms(1)] assms(2)
  by (cases "length live < d") (auto simp: matching_def Let_def list_all_iff dest!: in_set_takeD)

lemma matching_minted_above:
  assumes "carried live ss" "m \<in> set (mr_deficit (matching d live ss))"
    "b \<in> set (mr_bound (matching d live ss) @ mr_surplus (matching d live ss))"
  shows "bm_slot b < mt_slot m"
proof -
  have "set (map bm_slot (mr_bound (matching d live ss) @ mr_surplus (matching d live ss))) = set ss"
    unfolding matching_simps(2) [OF carried_length [OF assms(1)]] by simp
  then have "bm_slot b \<in> set ss" using assms(3) by (metis imageI list.set_map)
  then have "bm_slot b < first_minted ss" by (rule first_minted_gt)
  then show ?thesis using assms(2) by (auto simp: matching_def Let_def)
qed

text \<open>
  \<open>Parse\<close> accepts exactly the spellings \<open>String\<close> writes: a tag value is read as a slot if
  and only if it is that slot's decimal form and the slot is within the ten-digit ceiling, so no
  two tag values are the same slot.
\<close>

theorem slot_parse_print: "Parse s = Inr n \<longleftrightarrow> n \<le> MaxSlot \<and> s = slot_string n"
  by (rule Parse_Inr_iff)

text \<open>
  C24. A match binds every live member exactly once and in the order of the slots: the members bound
  to indices followed by the surplus are a rearrangement of the live set with strictly increasing
  slots, member \<open>i\<close> of it has index \<open>i\<close> and carries the slot recorded for it, and as many as both
  the count and the set allow are bound.
\<close>

theorem match_binds_in_slot_order:
  assumes "Match d live = Inr r"
  shows "mset (map bm_live (mr_bound r @ mr_surplus r)) = mset live
    \<and> sorted_wrt (<) (map bm_slot (mr_bound r @ mr_surplus r))
    \<and> map bm_index (mr_bound r @ mr_surplus r) = [0..<length live]
    \<and> list_all (\<lambda>b. Parse (lm_slot (bm_live b)) = Inr (bm_slot b)) (mr_bound r @ mr_surplus r)
    \<and> length (mr_bound r) = min (nat d) (length live)"
proof -
  obtain ss where ss: "carried live ss" "distinct ss" "r = matching (nat d) live ss"
    using Match_carriedD [OF assms] by blast
  have len: "length ss = length live" using ss(1) by (rule carried_length)
  have "list_all (\<lambda>b. Parse (lm_slot (bm_live b)) = Inr (bm_slot b)) (mr_bound r @ mr_surplus r)"
    using matching_parses [OF ss(1)] unfolding ss(3) by (simp add: list_all_iff)
  then show ?thesis
    using matching_simps(2-5) [OF len] mset_slot_order [OF len] sort_distinct_strict [OF ss(2)]
    unfolding ss(3) by (simp only: simp_thms)
qed

text \<open>
  C18. The assignment a match writes gives every declared index a slot of its own within the ceiling:
  the bound indices keep the slots their members carry, and each index without a member is minted
  a slot above every live one, the surplus included, so no slot still in use is given out again.
\<close>

theorem match_mints_fresh_slots:
  assumes "Match d live = Inr r"
  shows "length (mr_slots r) = nat d \<and> sorted_wrt (<) (mr_slots r)
    \<and> list_all (\<lambda>s. s \<le> MaxSlot) (mr_slots r)
    \<and> take (length live) (mr_slots r) = map bm_slot (mr_bound r)
    \<and> map mt_index (mr_deficit r) = [length live..<nat d]
    \<and> map mt_slot (mr_deficit r) = drop (length live) (mr_slots r)
    \<and> list_all (\<lambda>m. list_all (\<lambda>b. bm_slot b < mt_slot m) (mr_bound r @ mr_surplus r)) (mr_deficit r)"
proof -
  obtain ss where ss: "carried live ss" "distinct ss" "r = matching (nat d) live ss"
      "length live < nat d \<longrightarrow> first_minted ss + (nat d - length live) \<le> Suc MaxSlot"
    using Match_carriedD [OF assms] by blast
  show ?thesis
    using matching_slots [OF ss(1)] matching_slots_strict [OF ss(1,2)] matching_slots_bound [OF ss(1,4)]
      matching_minted_above [OF ss(1)]
    unfolding ss(3) by (simp add: list_all_iff)
qed

text \<open>
  When \<open>Match\<close> answers at all: the count is not negative, every live member carries a slot, no
  two the same, and minting what the count needs beyond the live set stays within the ceiling. A
  set where some members carry a slot and some none is reported as mixed, with the identities on
  either side, and never matched.
\<close>

theorem match_succeeds_iff:
  "(\<exists>r. Match d live = Inr r) = (0 \<le> d \<and> (\<exists>ss. map (Parse \<circ> lm_slot) live = map Inr ss \<and> distinct ss
      \<and> (nat d \<le> length live \<or> (if ss = [] then 0 else Suc (Max (set ss))) + (nat d - length live) \<le> Suc MaxSlot)))
    \<and> (0 \<le> d \<and> Classify live = ModeMixed \<longrightarrow> Match d live = Inl (MixedErr (mixedError live)))"
proof -
  have "(\<exists>r. Match d live = Inr r) \<longleftrightarrow> 0 \<le> d \<and> (\<exists>ss. carried live ss \<and> distinct ss
      \<and> (nat d \<le> length live \<or> first_minted ss + (nat d - length live) \<le> Suc MaxSlot))"
    using Match_carriedD [of d live] Match_carried [of live _ d] not_le by (metis (no_types, lifting))
  then show ?thesis
    unfolding carried_def first_minted_def by (auto simp: Match_def MixedFrom_def)
qed

lemma sort_key_slot_order:
  assumes "carried live ss" "distinct ss" "distinct (map bm_slot bs)" "sorted (map bm_slot bs)"
    and "set bs = set (map2 as_bound live ss)"
  shows "slot_order live ss = bs"
  unfolding slot_order_def
  by (rule sort_key_unique) (use assms carried_length [OF assms(1)] in \<open>simp_all add: map_slot_as_bound_comp\<close>)

lemma carried_of_parses:
  "(\<And>l. l \<in> set live \<Longrightarrow> Parse (lm_slot l) = Inr (f l)) \<Longrightarrow> carried live (map f live)"
  by (simp add: carried_def)

lemma map2_as_bound_map: "map2 as_bound live (map f live) = map (\<lambda>l. as_bound l (f l)) live"
  by (induction live) auto

text \<open>Matching a set whose members, listed in the order \<open>ls\<close>, carry strictly increasing slots.\<close>

lemma matching_in_order:
  assumes "mset live = mset ls" "map (Parse \<circ> lm_slot) ls = map Inr ss" "sorted_wrt (<) ss"
  shows "\<exists>ss'. carried live ss' \<and> distinct ss' \<and> sort ss' = ss
    \<and> slot_order live ss' = map2 as_bound ls ss"
proof -
  define f where "f = (\<lambda>l :: live_member. projr (Parse (lm_slot l)))"
  have ls: "carried ls ss" using assms(2) by (simp add: carried_def)
  have ss: "ss = map f ls" using assms(2) by (simp add: f_def list_eq_iff_nth_eq)
  have set_eq: "set live = set ls" using assms(1) by (rule mset_eq_setD)
  have "Parse (lm_slot l) = Inr (f l)" if "l \<in> set live" for l
    using that ls set_eq by (metis carried_zip f_def in_set_impl_in_set_zip1 carried_length sum.sel(2))
  then have carried: "carried live (map f live)" by (rule carried_of_parses)
  have mset: "mset (map f live) = mset ss" using assms(1) by (simp add: ss)
  have dist: "distinct ss" "sorted ss" using assms(3) by (simp_all add: strict_sorted_iff)
  have dist': "distinct (map f live)" using dist(1) mset by (metis mset_eq_imp_distinct_iff)
  have "slot_order live (map f live) = map2 as_bound ls ss"
    using carried dist' dist set_eq carried_length [OF ls]
    by (intro sort_key_slot_order) (simp_all add: map2_as_bound_map ss comp_def)
  moreover have "sort (map f live) = ss" using mset dist(2) by (intro properties_for_sort) simp_all
  ultimately show ?thesis using carried dist' by blast
qed

text \<open>
  C25. One run is enough: after the resources a match minted slots for exist with those slots in
  their tags and the surplus is gone, the next match, whatever order the members are found in,
  gives every index the slot it had, binds the created members to the indices they were minted
  for, and finds nothing to create or delete.
\<close>

theorem match_converges:
  assumes "Match d live = Inr r"
    "map lm_slot created = map (slot_string \<circ> mt_slot) (mr_deficit r)"
    "mset live' = mset (map bm_live (mr_bound r) @ created)"
  shows "\<exists>r'. Match d live' = Inr r' \<and> mr_slots r' = mr_slots r \<and> mr_deficit r' = [] \<and> mr_surplus r' = []
    \<and> map bm_live (mr_bound r') = map bm_live (mr_bound r) @ created"
proof -
  let ?ls = "map bm_live (mr_bound r) @ created" and ?ss = "mr_slots r"
  obtain ss where ss: "0 \<le> d" "carried live ss" "distinct ss" "r = matching (nat d) live ss"
      and ceil: "length live < nat d \<longrightarrow> first_minted ss + (nat d - length live) \<le> Suc MaxSlot"
    using Match_carriedD [OF assms(1)] by blast
  have split: "?ss = map bm_slot (mr_bound r) @ map mt_slot (mr_deficit r)"
    using matching_slots(1,2) [OF ss(2), of "nat d"] unfolding ss(4) by (metis append_take_drop_id)
  have le: "list_all (\<lambda>s. s \<le> MaxSlot) ?ss" unfolding ss(4) using ss(2) ceil by (rule matching_slots_bound)
  have bound: "Parse (lm_slot (bm_live b)) = Inr (bm_slot b)" if "b \<in> set (mr_bound r)" for b
    using that matching_parses [OF ss(2), of b "nat d"] unfolding ss(4) by simp
  have "map (Parse \<circ> lm_slot) created = map Inr (map mt_slot (mr_deficit r))"
    using le unfolding split by (subst map_map [symmetric], subst assms(2)) (auto simp: list_all_iff Parse_Inr_iff)
  then have parses: "map (Parse \<circ> lm_slot) ?ls = map Inr ?ss" unfolding split using bound by simp
  have strict: "sorted_wrt (<) ?ss" unfolding ss(4) using ss(2,3) by (rule matching_slots_strict)
  obtain ss' where ss': "carried live' ss'" "distinct ss'" "sort ss' = ?ss" "slot_order live' ss' = map2 as_bound ?ls ?ss"
    using matching_in_order [OF assms(3) parses strict] by blast
  have len: "length ?ss = nat d" unfolding ss(4) by (rule matching_slots(4) [OF ss(2)])
  then have len': "length live' = nat d" "length ?ls = nat d" "length ss' = length live'"
    using carried_length [OF ss'(1)] ss'(3) parses [THEN arg_cong, of length] by (auto dest: arg_cong [of _ _ length])
  have "Match d live' = Inr (matching (nat d) live' ss')"
    using Match_carried [OF ss'(1,2) ss(1)] len' by simp
  moreover have "map bm_live (mr_bound (matching (nat d) live' ss')) = ?ls"
    using matching_simps(3) [OF len'(3), of "nat d"] ss'(4) len len'
    by (simp add: matching_def Let_def map_live_as_bound del: map_append)
  ultimately show ?thesis
    using len' ss'(3) by (simp add: matching_def Let_def len)
qed

section \<open>A concrete match\<close>

definition demo_live :: "live_member list" where
  "demo_live = [\<lparr>lm_id = ''eip-a'', lm_slot = ''7''\<rparr>, \<lparr>lm_id = ''eip-b'', lm_slot = ''2''\<rparr>]"

lemma demo_digits: "slot_string 7 = ''7''" "slot_string 2 = ''2''" "slot_string 8 = ''8''"
  by (simp_all add: slot_string_def fmt_uint_def itoa_nat_def digits_base.simps digit_rune_def char_of_eq_iff
      take_bit_eq_mod)

lemma demo_match: "Match 3 demo_live = Inr
    \<lparr>mr_declared = 3,
     mr_bound = [\<lparr>bm_index = 0, bm_live = \<lparr>lm_id = ''eip-b'', lm_slot = ''2''\<rparr>, bm_slot = 2\<rparr>,
                 \<lparr>bm_index = 1, bm_live = \<lparr>lm_id = ''eip-a'', lm_slot = ''7''\<rparr>, bm_slot = 7\<rparr>],
     mr_surplus = [], mr_deficit = [\<lparr>mt_index = 2, mt_slot = 8\<rparr>], mr_slots = [2, 7, 8], mr_high_water = 8\<rparr>"
proof -
  have "carried demo_live [7, 2]"
    by (simp add: demo_live_def Parse_Inr_iff demo_digits MaxSlot_def)
  moreover have "first_minted [7, 2] = 8" "length demo_live = 2"
    by (simp_all add: first_minted_def demo_live_def)
  moreover have "slot_order demo_live [7, 2] = [as_bound \<lparr>lm_id = ''eip-b'', lm_slot = ''2''\<rparr> 2,
       as_bound \<lparr>lm_id = ''eip-a'', lm_slot = ''7''\<rparr> 7]"
    by (simp add: demo_live_def slot_order_def as_bound_def)
  moreover have "(9 :: nat) \<le> Suc MaxSlot" by (simp add: MaxSlot_def)
  ultimately show ?thesis
    by (simp add: Match_carried matching_def Let_def as_bound_def)
qed
text \<open>The next run: the member created for index 2 is found first.\<close>

definition demo_created :: "live_member list" where
  "demo_created = [\<lparr>lm_id = ''eip-c'', lm_slot = ''8''\<rparr>]"

theorem match_binds_in_slot_order_witness:
  "\<exists>r. Match 3 demo_live = Inr r \<and> map bm_index (mr_bound r @ mr_surplus r) = [0, 1]"
  using match_binds_in_slot_order [OF demo_match] demo_match by (simp add: demo_live_def)

theorem match_mints_fresh_slots_witness:
  "\<exists>r. Match 3 demo_live = Inr r \<and> sorted_wrt (<) (mr_slots r) \<and> length (mr_slots r) = 3"
  using match_mints_fresh_slots [OF demo_match] demo_match by simp

theorem match_succeeds_iff_witness:
  "Classify (\<lparr>lm_id = ''eip-d'', lm_slot = ''''\<rparr> # demo_live) = ModeMixed
   \<and> Match 3 (\<lparr>lm_id = ''eip-d'', lm_slot = ''''\<rparr> # demo_live) =
       Inl (MixedErr \<lparr>me_slotted = [''eip-a'', ''eip-b''], me_bare = [''eip-d'']\<rparr>)"
  using match_succeeds_iff [of 3 "\<lparr>lm_id = ''eip-d'', lm_slot = ''''\<rparr> # demo_live"]
  by (simp add: Classify_def demo_live_def mixedError_def)

theorem match_converges_witness:
  "\<exists>r'. Match 3 (demo_created @ demo_live) = Inr r' \<and> mr_slots r' = [2, 7, 8]
    \<and> mr_deficit r' = [] \<and> mr_surplus r' = []"
  using match_converges [OF demo_match, of demo_created "demo_created @ demo_live"]
  by (auto simp: demo_created_def demo_digits demo_live_def)

end
