(* ===== verification/Policy.thy ===== *)
theory Policy
  imports Markers
begin

text \<open>
  The ownership policy of \<open>internal/live/policy\<close>: what a run does with a resource, by
  whether the configuration declares it and whether it carries the policy's tag; the linter's
  check of a policy block (\<open>internal/live/lint/policy.go\<close>) and how a block is resolved into a
  policy (\<open>Build\<close>, and \<open>livePolicy\<close> in \<open>internal/command/live_policy.go\<close>).
\<close>

section \<open>Verbs and quadrants\<close>

type_synonym verb = gostring

definition Converge :: verb where "Converge = S ''converge''"
definition Adopt :: verb where "Adopt = S ''adopt''"
definition Refuse :: verb where "Refuse = S ''refuse''"
definition Untag :: verb where "Untag = S ''untag''"
definition Keep :: verb where "Keep = S ''keep''"
definition Report :: verb where "Report = S ''report''"
definition Delete :: verb where "Delete = S ''delete''"

lemmas verb_defs = Converge_def Adopt_def Refuse_def Untag_def Keep_def Report_def Delete_def

datatype quadrant = DeclaredTagged | DeclaredUntagged | UndeclaredTagged | UndeclaredUntagged

fun quadrant_string :: "quadrant \<Rightarrow> gostring" where
  "quadrant_string DeclaredTagged = S ''declared+tagged''"
| "quadrant_string DeclaredUntagged = S ''declared+untagged''"
| "quadrant_string UndeclaredTagged = S ''undeclared+tagged''"
| "quadrant_string UndeclaredUntagged = S ''undeclared+untagged''"

fun quadrant_attribute :: "quadrant \<Rightarrow> gostring" where
  "quadrant_attribute DeclaredTagged = S ''declared_tagged''"
| "quadrant_attribute DeclaredUntagged = S ''declared_untagged''"
| "quadrant_attribute UndeclaredTagged = S ''undeclared_tagged''"
| "quadrant_attribute UndeclaredUntagged = S ''undeclared_untagged''"

definition Quadrants :: "quadrant list" where
  "Quadrants = [DeclaredTagged, DeclaredUntagged, UndeclaredTagged, UndeclaredUntagged]"

text \<open>The keys of \<open>ValidVerbs[q]\<close>, every one mapped to true.\<close>

fun ValidVerbs :: "quadrant \<Rightarrow> verb list" where
  "ValidVerbs DeclaredTagged = [Converge, Untag, Keep, Report]"
| "ValidVerbs DeclaredUntagged = [Converge, Adopt, Refuse, Keep, Report]"
| "ValidVerbs UndeclaredTagged = [Delete, Keep, Untag, Report]"
| "ValidVerbs UndeclaredUntagged = [Keep, Delete, Report]"

fun DefaultVerb :: "quadrant \<Rightarrow> verb" where
  "DefaultVerb DeclaredTagged = Converge"
| "DefaultVerb DeclaredUntagged = Refuse"
| "DefaultVerb UndeclaredTagged = Delete"
| "DefaultVerb UndeclaredUntagged = Keep"

definition valid_verb :: "quadrant \<Rightarrow> verb \<Rightarrow> bool" where
  "valid_verb q v = List.member (ValidVerbs q) v"

definition ValidVerbNames :: "quadrant \<Rightarrow> gostring list" where
  "ValidVerbNames q = sort (ValidVerbs q)"

definition LeavesCreateStanding :: "verb \<Rightarrow> bool" where
  "LeavesCreateStanding v = (v = Keep \<or> v = Report)"

section \<open>Scopes and policies\<close>

record scope =
  sc_services :: "gostring list"
  sc_types :: "gostring list"
  sc_regions :: "gostring list"

definition Scope_Allows :: "scope option \<Rightarrow> gostring \<Rightarrow> gostring \<Rightarrow> gostring \<Rightarrow> bool" where
  "Scope_Allows s typeName service region = (case s of None \<Rightarrow> True
     | Some s \<Rightarrow>
       if sc_types s \<noteq> [] \<and> \<not> List.member (sc_types s) typeName then False
       else if sc_services s \<noteq> [] \<and> (service = [] \<or> \<not> List.member (sc_services s) service) then False
       else if sc_regions s \<noteq> [] \<and> (region = [] \<or> \<not> List.member (sc_regions s) region) then False
       else True)"

record policy =
  po_declared_tagged :: verb
  po_declared_untagged :: verb
  po_undeclared_tagged :: verb
  po_undeclared_untagged :: verb
  po_tag_key :: gostring
  po_tag_value :: gostring
  po_scope :: "scope option"
  po_threshold :: int
  po_threshold_set :: bool

definition DefaultThreshold :: int where "DefaultThreshold = 10"

definition EffectiveThreshold :: "policy option \<Rightarrow> int" where
  "EffectiveThreshold p = (case p of
     Some p \<Rightarrow> if po_threshold_set p then po_threshold p else DefaultThreshold
   | None \<Rightarrow> DefaultThreshold)"

text \<open>A nil tag map, of an object no tags could be read from, is \<open>None\<close>.\<close>

definition TagMatches :: "policy option \<Rightarrow> tags option \<Rightarrow> bool" where
  "TagMatches p tags = (case (p, tags) of
     (Some p, Some tags) \<Rightarrow> (case tags (po_tag_key p) of Some v \<Rightarrow> v = po_tag_value p | None \<Rightarrow> False)
   | _ \<Rightarrow> False)"

definition quadrantOf :: "bool \<Rightarrow> bool \<Rightarrow> quadrant" where
  "quadrantOf declared tagged =
     (if declared \<and> tagged then DeclaredTagged
      else if declared \<and> \<not> tagged then DeclaredUntagged
      else if \<not> declared \<and> tagged then UndeclaredTagged
      else UndeclaredUntagged)"

definition policy_Verb :: "policy option \<Rightarrow> bool \<Rightarrow> bool \<Rightarrow> verb" where
  "policy_Verb p declared tagged =
     (let q = quadrantOf declared tagged in
      case p of None \<Rightarrow> DefaultVerb q
      | Some p \<Rightarrow> (case q of
          DeclaredTagged \<Rightarrow> po_declared_tagged p
        | DeclaredUntagged \<Rightarrow> po_declared_untagged p
        | UndeclaredTagged \<Rightarrow> po_undeclared_tagged p
        | UndeclaredUntagged \<Rightarrow> po_undeclared_untagged p))"

text \<open>\<open>String\<close>; the verb \<open>%q\<close> of \<open>fmt\<close> is the argument \<open>quote\<close>, \<open>%v\<close> of a list is in brackets.\<close>

definition fmt_list :: "gostring list \<Rightarrow> gostring" where
  "fmt_list xs = r_lbr # join_with r_space xs @ [r_rbr]"

definition policy_String :: "(gostring \<Rightarrow> gostring) \<Rightarrow> policy option \<Rightarrow> gostring" where
  "policy_String quote p = (case p of None \<Rightarrow> S ''policy: <none>''
   | Some p \<Rightarrow>
       S ''policy (tag '' @ po_tag_key p @ S ''='' @ quote (po_tag_value p) @ S ''):'' @ [10]
       @ S ''  '' @ quadrant_string DeclaredTagged @ S '': '' @ po_declared_tagged p @ [10]
       @ S ''  '' @ quadrant_string DeclaredUntagged @ S '': '' @ po_declared_untagged p @ [10]
       @ S ''  '' @ quadrant_string UndeclaredTagged @ S '': '' @ po_undeclared_tagged p @ [10]
       @ S ''  '' @ quadrant_string UndeclaredUntagged @ S '': '' @ po_undeclared_untagged p
       @ (case po_scope p of None \<Rightarrow> [] | Some s \<Rightarrow>
            10 # S ''  scope: services='' @ fmt_list (sc_services s) @ S '' types='' @ fmt_list (sc_types s)
            @ S '' regions='' @ fmt_list (sc_regions s))
       @ (if po_threshold_set p then 10 # S ''  threshold: '' @ itoa (po_threshold p) else []))"

section \<open>A policy block and what it resolves to\<close>

text \<open>
  The decoded block: \<open>configs.LivePolicy\<close>, which the linter reads, and \<open>policy.Raw\<close>, which
  \<open>Build\<close> reads, hold the same attributes; only the source ranges differ.
\<close>

record raw_policy =
  raw_declared_tagged :: gostring
  raw_declared_untagged :: gostring
  raw_undeclared_tagged :: gostring
  raw_undeclared_untagged :: gostring
  raw_declared_tagged_set :: bool
  raw_declared_untagged_set :: bool
  raw_undeclared_tagged_set :: bool
  raw_undeclared_untagged_set :: bool
  raw_tag_key :: gostring
  raw_tag_value :: gostring
  raw_tag_key_set :: bool
  raw_tag_value_set :: bool
  raw_scope :: "scope option"
  raw_threshold :: int
  raw_threshold_set :: bool

definition preset :: "gostring \<Rightarrow> policy" where
  "preset estate = \<lparr>po_declared_tagged = DefaultVerb DeclaredTagged,
     po_declared_untagged = DefaultVerb DeclaredUntagged,
     po_undeclared_tagged = DefaultVerb UndeclaredTagged,
     po_undeclared_untagged = DefaultVerb UndeclaredUntagged,
     po_tag_key = TagEstate, po_tag_value = estate, po_scope = None,
     po_threshold = 0, po_threshold_set = False\<rparr>"

definition Build :: "raw_policy option \<Rightarrow> gostring \<Rightarrow> policy" where
  "Build raw estate = (let p = preset estate in
     case raw of None \<Rightarrow> p
     | Some raw \<Rightarrow>
       (let p = (if raw_declared_tagged_set raw then p\<lparr>po_declared_tagged := raw_declared_tagged raw\<rparr> else p);
            p = (if raw_declared_untagged_set raw then p\<lparr>po_declared_untagged := raw_declared_untagged raw\<rparr> else p);
            p = (if raw_undeclared_tagged_set raw then p\<lparr>po_undeclared_tagged := raw_undeclared_tagged raw\<rparr> else p);
            p = (if raw_undeclared_untagged_set raw then p\<lparr>po_undeclared_untagged := raw_undeclared_untagged raw\<rparr> else p);
            p = (if raw_tag_key_set raw then p\<lparr>po_tag_key := raw_tag_key raw\<rparr> else p);
            p = (if raw_tag_value_set raw then p\<lparr>po_tag_value := raw_tag_value raw\<rparr> else p);
            p = (case raw_scope raw of None \<Rightarrow> p | Some s \<Rightarrow> p\<lparr>po_scope := Some s\<rparr>);
            p = (if raw_threshold_set raw
                 then p\<lparr>po_threshold := raw_threshold raw, po_threshold_set := True\<rparr> else p)
        in p))"

text \<open>\<open>livePolicy\<close>: no live block, or one without a policy block, resolves to the preset.\<close>

definition livePolicy :: "raw_policy option option \<Rightarrow> gostring \<Rightarrow> policy" where
  "livePolicy live estate = (case live of None \<Rightarrow> Build None estate
     | Some None \<Rightarrow> Build None estate
     | Some (Some lp) \<Rightarrow> Build (Some lp) estate)"

section \<open>The linter's check of a policy block\<close>

text \<open>
  The issues it reports, by rule and by what their text names: the quadrant and the verb with the
  valid verbs there, the quadrant deleted without a scope, the threshold.
\<close>

datatype lint_issue =
    PolicyVerbIssue quadrant gostring "gostring list"
  | PolicyScopeIssue quadrant
  | PolicyThresholdIssue int

definition scopeIsSet :: "scope option \<Rightarrow> bool" where
  "scopeIsSet s = (case s of None \<Rightarrow> False
     | Some s \<Rightarrow> sc_services s \<noteq> [] \<or> sc_types s \<noteq> [] \<or> sc_regions s \<noteq> [])"

definition check_quadrant :: "scope option \<Rightarrow> quadrant \<times> gostring \<times> bool \<Rightarrow> lint_issue list" where
  "check_quadrant s = (\<lambda>(q, verb, is_set).
     if \<not> is_set then []
     else if \<not> valid_verb q verb then [PolicyVerbIssue q verb (ValidVerbNames q)]
     else if verb = Delete \<and> q = UndeclaredUntagged \<and> \<not> scopeIsSet s then [PolicyScopeIssue q]
     else [])"

definition checkLivePolicy :: "raw_policy option option \<Rightarrow> lint_issue list" where
  "checkLivePolicy live = (case live of None \<Rightarrow> [] | Some None \<Rightarrow> []
     | Some (Some p) \<Rightarrow>
       concat (map (check_quadrant (raw_scope p))
         [(DeclaredTagged, raw_declared_tagged p, raw_declared_tagged_set p),
          (DeclaredUntagged, raw_declared_untagged p, raw_declared_untagged_set p),
          (UndeclaredTagged, raw_undeclared_tagged p, raw_undeclared_tagged_set p),
          (UndeclaredUntagged, raw_undeclared_untagged p, raw_undeclared_untagged_set p)])
       @ (if raw_threshold_set p \<and> raw_threshold p \<le> 0 then [PolicyThresholdIssue (raw_threshold p)] else []))"


section \<open>What the linter guarantees of the resolved policy\<close>

lemma valid_DefaultVerb [simp]: "valid_verb q (DefaultVerb q)"
  by (cases q) (simp_all add: valid_verb_def)

lemma preset_simps [simp]:
  "po_declared_tagged (preset e) = Converge" "po_declared_untagged (preset e) = Refuse"
  "po_undeclared_tagged (preset e) = Delete" "po_undeclared_untagged (preset e) = Keep"
  "po_scope (preset e) = None" "po_threshold_set (preset e) = False" "po_threshold (preset e) = 0"
  "po_tag_key (preset e) = TagEstate" "po_tag_value (preset e) = e"
  by (simp_all add: preset_def)

lemma Build_simps:
  "po_declared_tagged (Build (Some raw) e) =
     (if raw_declared_tagged_set raw then raw_declared_tagged raw else Converge)"
  "po_declared_untagged (Build (Some raw) e) =
     (if raw_declared_untagged_set raw then raw_declared_untagged raw else Refuse)"
  "po_undeclared_tagged (Build (Some raw) e) =
     (if raw_undeclared_tagged_set raw then raw_undeclared_tagged raw else Delete)"
  "po_undeclared_untagged (Build (Some raw) e) =
     (if raw_undeclared_untagged_set raw then raw_undeclared_untagged raw else Keep)"
  "po_tag_key (Build (Some raw) e) = (if raw_tag_key_set raw then raw_tag_key raw else TagEstate)"
  "po_tag_value (Build (Some raw) e) = (if raw_tag_value_set raw then raw_tag_value raw else e)"
  "po_scope (Build (Some raw) e) = raw_scope raw"
  "po_threshold_set (Build (Some raw) e) = raw_threshold_set raw"
  "po_threshold (Build (Some raw) e) = (if raw_threshold_set raw then raw_threshold raw else 0)"
  by (simp_all add: Build_def Let_def split: option.split)

lemma Build_None [simp]: "Build None e = preset e"
  by (simp add: Build_def)

lemma verb_distinct [simp]: "Keep \<noteq> Delete" "Delete \<noteq> Keep" "Converge \<noteq> Delete" "Refuse \<noteq> Delete"
    "Untag \<noteq> Delete" "Report \<noteq> Delete" "Adopt \<noteq> Delete"
  by (simp_all add: verb_defs)

lemma check_quadrant_clean: "check_quadrant s (q, v, is_set) = [] \<longleftrightarrow>
    (is_set \<longrightarrow> valid_verb q v \<and> (v = Delete \<and> q = UndeclaredUntagged \<longrightarrow> scopeIsSet s))"
  by (simp add: check_quadrant_def)

lemma declared_never_delete: "valid_verb (quadrantOf True tagged) v \<Longrightarrow> v \<noteq> Delete"
  by (cases tagged) (auto simp: quadrantOf_def valid_verb_def verb_defs)

lemma quadrantOf_simps [simp]: "quadrantOf True True = DeclaredTagged" "quadrantOf True False = DeclaredUntagged"
  "quadrantOf False True = UndeclaredTagged" "quadrantOf False False = UndeclaredUntagged"
  by (simp_all add: quadrantOf_def)

lemma policy_Verb_Some: "policy_Verb (Some p) declared tagged = (case quadrantOf declared tagged of
    DeclaredTagged \<Rightarrow> po_declared_tagged p | DeclaredUntagged \<Rightarrow> po_declared_untagged p
  | UndeclaredTagged \<Rightarrow> po_undeclared_tagged p | UndeclaredUntagged \<Rightarrow> po_undeclared_untagged p)"
  by (simp add: policy_Verb_def)

lemma linted_verb_valid:
  assumes "checkLivePolicy live = []"
  shows "valid_verb (quadrantOf declared tagged) (policy_Verb (Some (livePolicy live e)) declared tagged)"
proof (cases "live = None \<or> live = Some None")
  case True
  then have "livePolicy live e = preset e" by (auto simp: livePolicy_def)
  then show ?thesis
    by (cases declared; cases tagged) (simp_all add: policy_Verb_Some valid_verb_def)
next
  case False
  then obtain raw where raw: "live = Some (Some raw)" by (metis not_None_eq)
  with assms show ?thesis
    using valid_DefaultVerb [of "quadrantOf declared tagged"]
    by (cases declared; cases tagged)
       (simp_all add: livePolicy_def checkLivePolicy_def check_quadrant_clean policy_Verb_Some Build_simps)
qed

lemma linted_delete_scoped:
  assumes "checkLivePolicy live = []" "po_undeclared_untagged (livePolicy live e) = Delete"
  shows "scopeIsSet (po_scope (livePolicy live e))"
  using assms by (auto simp: livePolicy_def checkLivePolicy_def check_quadrant_clean Build_simps
      split: option.splits if_splits)

lemma linted_threshold_positive:
  assumes "checkLivePolicy live = []"
  shows "0 < EffectiveThreshold (Some (livePolicy live e))"
  using assms by (auto simp: livePolicy_def checkLivePolicy_def EffectiveThreshold_def DefaultThreshold_def
      Build_simps split: option.splits if_splits)

text \<open>
  C27. A policy that passed the linter is safe to run: whatever a resource's quadrant, the verb the
  policy gives it is one of the verbs allowed there, a declared resource is never deleted, an
  account-wide delete has a scope that names a service, type or region, and the threshold it is
  guarded by is positive.
\<close>

theorem linted_policy_safe:
  assumes "checkLivePolicy live = []"
  shows "valid_verb (quadrantOf declared tagged) (policy_Verb (Some (livePolicy live e)) declared tagged)
    \<and> policy_Verb (Some (livePolicy live e)) True tagged \<noteq> Delete
    \<and> (policy_Verb (Some (livePolicy live e)) False False = Delete \<longrightarrow> scopeIsSet (po_scope (livePolicy live e)))
    \<and> 0 < EffectiveThreshold (Some (livePolicy live e))"
  using linted_verb_valid [OF assms] linted_delete_scoped [OF assms] linted_threshold_positive [OF assms]
    declared_never_delete [OF linted_verb_valid [OF assms, of True tagged]]
  by (simp add: policy_Verb_Some)

text \<open>
  Spelling the preset out changes nothing: a policy block whose attributes, where set, are the
  default verbs and the estate's own tag, with no scope and no threshold, passes the linter and
  resolves to exactly the policy of a configuration without a policy block.
\<close>

theorem default_policy_spelled_out:
  assumes "raw_declared_tagged_set raw \<Longrightarrow> raw_declared_tagged raw = DefaultVerb DeclaredTagged"
    "raw_declared_untagged_set raw \<Longrightarrow> raw_declared_untagged raw = DefaultVerb DeclaredUntagged"
    "raw_undeclared_tagged_set raw \<Longrightarrow> raw_undeclared_tagged raw = DefaultVerb UndeclaredTagged"
    "raw_undeclared_untagged_set raw \<Longrightarrow> raw_undeclared_untagged raw = DefaultVerb UndeclaredUntagged"
    "raw_tag_key_set raw \<Longrightarrow> raw_tag_key raw = TagEstate" "raw_tag_value_set raw \<Longrightarrow> raw_tag_value raw = e"
    "raw_scope raw = None" "\<not> raw_threshold_set raw"
  shows "checkLivePolicy (Some (Some raw)) = [] \<and> livePolicy (Some (Some raw)) e = livePolicy None e"
proof
  show "checkLivePolicy (Some (Some raw)) = []"
    using assms by (simp add: checkLivePolicy_def check_quadrant_clean valid_verb_def)
  show "livePolicy (Some (Some raw)) e = livePolicy None e"
    using assms unfolding livePolicy_def by (intro policy.equality) (simp_all add: Build_simps)
qed

definition demo_raw :: raw_policy where
  "demo_raw = \<lparr>raw_declared_tagged = [], raw_declared_untagged = [], raw_undeclared_tagged = Delete,
     raw_undeclared_untagged = Delete, raw_declared_tagged_set = False, raw_declared_untagged_set = False,
     raw_undeclared_tagged_set = True, raw_undeclared_untagged_set = True,
     raw_tag_key = S ''keep'', raw_tag_value = S ''yes'', raw_tag_key_set = True, raw_tag_value_set = True,
     raw_scope = Some \<lparr>sc_services = [], sc_types = [S ''aws_eip''], sc_regions = [S ''us-east-1'']\<rparr>,
     raw_threshold = 3, raw_threshold_set = True\<rparr>"

lemma demo_raw_clean: "checkLivePolicy (Some (Some demo_raw)) = []"
  by (simp add: demo_raw_def checkLivePolicy_def check_quadrant_clean valid_verb_def scopeIsSet_def)

theorem linted_policy_safe_witness:
  "policy_Verb (Some (livePolicy (Some (Some demo_raw)) (S ''prod''))) False False = Delete
   \<and> scopeIsSet (po_scope (livePolicy (Some (Some demo_raw)) (S ''prod'')))"
  using linted_policy_safe [OF demo_raw_clean, of False False "S ''prod''"]
  by (simp add: policy_Verb_Some livePolicy_def Build_simps demo_raw_def)

theorem default_policy_spelled_out_witness:
  "livePolicy (Some (Some (demo_raw\<lparr>raw_undeclared_untagged := Keep, raw_tag_key_set := False,
     raw_tag_value := S ''prod'', raw_scope := None, raw_threshold_set := False\<rparr>))) (S ''prod'') = livePolicy None (S ''prod'')"
  using default_policy_spelled_out [of "demo_raw\<lparr>raw_undeclared_untagged := Keep, raw_tag_key_set := False,
     raw_tag_value := S ''prod'', raw_scope := None, raw_threshold_set := False\<rparr>" "S ''prod''"]
  by (simp add: demo_raw_def)

end
