(* ===== verification/Reconcile.thy ===== *)
theory Reconcile
  imports Policy
begin

text \<open>
  Scoped account reconciliation, \<open>internal/live/discovery/reconcile.go\<close>, and the command that
  acts on it, \<open>livePolicyReconcile\<close> in \<open>internal/command/live_policy.go\<close>: the pass that lists
  a cloud account for resources no estate ever claimed and proposes destroying them.

  The provider and the generated tables of the type admission are parameters, gathered in the
  record \<open>cloud\<close>; what the pass does with their answers is modelled.  A resource's object is a
  value of the library cty, of which the constructors the code distinguishes are kept.
\<close>

section \<open>Values of a listed object\<close>

datatype cty =
    CNil | CNull | CUnknown
  | CString gostring | CNumber int | CBool bool
  | CList "cty list"
  | CSet "cty list"
  | CMap "(gostring \<times> cty) list"
  | CObject "(gostring \<times> cty) list"

text \<open>The element loop of \<open>TagsOf\<close>: elements that are not known strings are skipped.
  The absent value \<open>CNil\<close> only stands for a whole object or identity, never for an attribute.\<close>

fun tag_elements :: "(gostring \<times> cty) list \<Rightarrow> tags \<Rightarrow> tags" where
  "tag_elements [] tags = tags"
| "tag_elements ((k, v) # rest) tags =
     (case v of CString s \<Rightarrow> tag_elements rest (tags(k \<mapsto> s)) | _ \<Rightarrow> tag_elements rest tags)"

text \<open>The iterator over a set gives each element as its own key; one that is no known string is skipped for
  that, whatever stands for its key here.\<close>

definition set_element :: "cty \<Rightarrow> gostring \<times> cty" where
  "set_element v = (case v of CString s \<Rightarrow> (s, v) | _ \<Rightarrow> ([], v))"

text \<open>One of the attributes \<open>tags_all\<close> and \<open>tags\<close>: what was found so far, and the tags.\<close>

definition tag_attribute :: "(gostring \<times> cty) list \<Rightarrow> gostring \<Rightarrow> bool \<times> tags \<Rightarrow> bool \<times> tags" where
  "tag_attribute attrs name = (\<lambda>(found, tags).
     case map_of attrs name of None \<Rightarrow> (found, tags)
     | Some v \<Rightarrow> (case v of
         CNull \<Rightarrow> (True, tags) | CUnknown \<Rightarrow> (True, tags) | CNil \<Rightarrow> (True, tags)
       | CList _ \<Rightarrow> (True, tags)
       | CSet es \<Rightarrow> (True, tag_elements (map set_element es) tags)
       | CMap es \<Rightarrow> (True, tag_elements es tags)
       | CObject es \<Rightarrow> (True, tag_elements es tags)
       | CString _ \<Rightarrow> (found, tags) | CNumber _ \<Rightarrow> (found, tags) | CBool _ \<Rightarrow> (found, tags)))"

definition TagsOf :: "cty \<Rightarrow> tags option" where
  "TagsOf obj = (case obj of CObject attrs \<Rightarrow>
       (let (found, tags) = tag_attribute attrs (S ''tags'')
              (tag_attribute attrs (S ''tags_all'') (False, Map.empty))
        in if \<not> found then None else Some tags)
   | _ \<Rightarrow> None)"

record list_result =
  lr_display :: gostring
  lr_resource :: cty
  lr_identity :: cty

definition IdentityAttr :: "list_result \<Rightarrow> gostring \<Rightarrow> gostring option" where
  "IdentityAttr r name = (case lr_identity r of
     CObject attrs \<Rightarrow> (case map_of attrs name of Some (CString s) \<Rightarrow> Some s | _ \<Rightarrow> None)
   | _ \<Rightarrow> None)"

section \<open>What the pass reads\<close>

datatype diag =
    InvalidEstateName gostring
  | NoProviderAccess
  | UnscopedRefused
  | ProviderUnavailable gostring
  | RosterExceedsThreshold nat int
  | ProviderDiag bool gostring

text \<open>A diagnostic of a provider call is an error or a warning; all the others are errors.\<close>

fun is_error :: "diag \<Rightarrow> bool" where
  "is_error (ProviderDiag err _) = err"
| "is_error _ = True"

text \<open>The diagnostics of a provider call, each an error or not with its text.\<close>

type_synonym call_diags = "(bool \<times> gostring) list"

definition call :: "call_diags \<Rightarrow> diag list" where
  "call ds = map (\<lambda>(err, txt). ProviderDiag err txt) ds"

definition HasErrors :: "diag list \<Rightarrow> bool" where
  "HasErrors diags = list_ex is_error diags"

record type_entry =
  te_identity_attrs :: "gostring list"
  te_record_backed :: bool

record type_schema =
  ts_resource :: "gostring list option"
  ts_config :: "gostring list option"

record cloud =
  AdmittedTypes :: "gostring list"
  LookupType :: "gostring \<Rightarrow> type_entry option"
  TagVerbService :: "gostring \<Rightarrow> gostring option"
  ListSchemas :: "call_diags \<times> (gostring \<Rightarrow> type_schema option)"
  BuildConfig :: "gostring \<Rightarrow> (gostring \<times> cty) list \<Rightarrow> call_diags \<times> cty"
  ListResources :: "gostring \<Rightarrow> cty \<Rightarrow> call_diags \<times> list_result list"

definition cloudObservable :: "cloud \<Rightarrow> gostring \<Rightarrow> bool" where
  "cloudObservable c typeName = (case LookupType c typeName of None \<Rightarrow> True
     | Some entry \<Rightarrow> \<not> te_record_backed entry)"

definition hasAttr :: "gostring list option \<Rightarrow> gostring \<Rightarrow> bool" where
  "hasAttr b name = (case b of None \<Rightarrow> False | Some attrs \<Rightarrow> List.member attrs name)"

definition markerCapable :: "type_schema \<Rightarrow> bool" where
  "markerCapable ts = (case ts_resource ts of None \<Rightarrow> False
     | Some _ \<Rightarrow> hasAttr (ts_resource ts) (S ''tags'') \<or> hasAttr (ts_resource ts) (S ''tags_all''))"

fun first_identity :: "list_result \<Rightarrow> gostring list \<Rightarrow> gostring option" where
  "first_identity r [] = None"
| "first_identity r (attr # attrs) = (case IdentityAttr r attr of
     Some v \<Rightarrow> if v \<noteq> [] then Some v else first_identity r attrs
   | None \<Rightarrow> first_identity r attrs)"

definition importIdentity :: "cloud \<Rightarrow> gostring \<Rightarrow> list_result \<Rightarrow> gostring option" where
  "importIdentity c typeName r =
     (let attrs = (case LookupType c typeName of
          Some ti \<Rightarrow> if te_identity_attrs ti \<noteq> [] then te_identity_attrs ti else [S ''id'']
        | None \<Rightarrow> [S ''id''])
      in first_identity r attrs)"

section \<open>The address minted for a candidate\<close>

fun sanitize_from :: "bool \<Rightarrow> gostring \<Rightarrow> gostring" where
  "sanitize_from first [] = []"
| "sanitize_from first (r # rs) =
     (if ascii_lower r \<or> ascii_upper r \<or> r = r_underscore then [r]
      else if ascii_digit r \<or> r = r_hyphen then (if first then [r_underscore, r] else [r])
      else [r_underscore]) @ sanitize_from False rs"

definition sanitizeResourceName :: "gostring \<Rightarrow> gostring" where
  "sanitizeResourceName i = (if i = [] then [r_underscore] else sanitize_from True i)"

definition syntheticReconcileAddr :: "gostring \<Rightarrow> gostring \<Rightarrow> abs_resource_instance" where
  "syntheticReconcileAddr typeName importID =
     \<lparr>ari_module = [], ari_resource = \<lparr>ri_resource = \<lparr>res_mode = ManagedResourceMode, res_type = typeName,
        res_name = S ''reconcile_'' @ sanitizeResourceName importID\<rparr>, ri_key = NoKey\<rparr>\<rparr>"

section \<open>The pass\<close>

record reconcile_request =
  rq_estate :: gostring
  rq_provider :: bool
  rq_region :: gostring
  rq_policy :: "policy option"
  rq_scope :: "(config_resource \<Rightarrow> bool) option"

record reconcile_candidate =
  rc_type :: gostring
  rc_import_id :: gostring
  rc_display :: gostring
  rc_tags :: tags
  rc_identity :: cty
  rc_addr :: abs_resource_instance
  rc_withheld :: gostring

text \<open>The prose of a gap's detail is left out.\<close>

record reconcile_gap =
  rg_type :: gostring
  rg_reason :: gostring

record reconcile_result =
  rr_roster :: "reconcile_candidate list"
  rr_gaps :: "reconcile_gap list"
  rr_threshold :: int
  rr_threshold_exceeded :: bool

definition Proposable :: "reconcile_result \<Rightarrow> reconcile_candidate list" where
  "Proposable r = filter (\<lambda>c. rc_withheld c = []) (rr_roster r)"

definition reconcileService :: "cloud \<Rightarrow> gostring \<Rightarrow> gostring" where
  "reconcileService c typeName = (case TagVerbService c typeName of None \<Rightarrow> [] | Some s \<Rightarrow> s)"

definition reconcileTypeUniverse :: "cloud \<Rightarrow> scope \<Rightarrow> gostring list" where
  "reconcileTypeUniverse c s =
     (if sc_types s \<noteq> []
      then filter (\<lambda>t. List.member (AdmittedTypes c) t \<and> cloudObservable c t) (sc_types s)
      else filter (cloudObservable c) (AdmittedTypes c))"

definition request_inScope :: "reconcile_request \<Rightarrow> abs_resource_instance \<Rightarrow> bool" where
  "request_inScope req addr = (case rq_scope req of None \<Rightarrow> True
     | Some f \<Rightarrow> f (abs_resource_config (containing_resource addr)))"

definition add_gap :: "gostring \<Rightarrow> string \<Rightarrow> reconcile_result \<Rightarrow> reconcile_result" where
  "add_gap typeName reason res =
     res\<lparr>rr_gaps := rr_gaps res @ [\<lparr>rg_type = typeName, rg_reason = S reason\<rparr>]\<rparr>"

text \<open>The loop of \<open>reconcileType\<close> over the listed objects.\<close>

fun file_candidates :: "cloud \<Rightarrow> reconcile_request \<Rightarrow> gostring \<Rightarrow> list_result list \<Rightarrow> reconcile_result \<Rightarrow> reconcile_result" where
  "file_candidates c req typeName [] res = res"
| "file_candidates c req typeName (r # rs) res =
     (case TagsOf (lr_resource r) of None \<Rightarrow> file_candidates c req typeName rs res
      | Some tags \<Rightarrow>
        if (case tags TagEstate of None \<Rightarrow> False | Some v \<Rightarrow> v \<noteq> []) then file_candidates c req typeName rs res
        else if TagMatches (rq_policy req) (Some tags) then file_candidates c req typeName rs res
        else (case importIdentity c typeName r of None \<Rightarrow> file_candidates c req typeName rs res
          | Some importID \<Rightarrow> file_candidates c req typeName rs (res\<lparr>rr_roster := rr_roster res @
              [\<lparr>rc_type = typeName, rc_import_id = importID, rc_display = lr_display r, rc_tags = tags,
                rc_identity = lr_identity r, rc_addr = syntheticReconcileAddr typeName importID,
                rc_withheld = []\<rparr>]\<rparr>)))"

definition reconcileType :: "cloud \<Rightarrow> reconcile_request \<Rightarrow> gostring \<Rightarrow> reconcile_result \<Rightarrow> diag list \<times> reconcile_result" where
  "reconcileType c req typeName res =
     (case snd (ListSchemas c) typeName of None \<Rightarrow> ([], add_gap typeName ''NOT_ENUMERABLE'' res)
      | Some ts \<Rightarrow>
        if \<not> markerCapable ts then ([], add_gap typeName ''NOT_TAGGABLE'' res)
        else
          (let vals = (if hasAttr (ts_config ts) (S ''region'') \<and> rq_region req \<noteq> []
                       then [(S ''region'', CString (rq_region req))] else []);
               (ds, config) = BuildConfig c typeName vals; cfgDiags = call ds
           in if HasErrors cfgDiags then (cfgDiags, add_gap typeName ''LIST_CONFIG_FAILED'' res)
              else
                (let (ds, results) = ListResources c typeName config; listDiags = call ds
                 in if HasErrors listDiags then (cfgDiags, add_gap typeName ''LIST_FAILED'' res)
                    else (cfgDiags @ listDiags, file_candidates c req typeName results res))))"

fun reconcile_types :: "cloud \<Rightarrow> reconcile_request \<Rightarrow> gostring list \<Rightarrow> diag list \<times> reconcile_result \<Rightarrow> diag list \<times> reconcile_result" where
  "reconcile_types c req [] acc = acc"
| "reconcile_types c req (t # ts) (diags, res) =
     (if \<not> Scope_Allows (case rq_policy req of None \<Rightarrow> None | Some p \<Rightarrow> po_scope p) t (reconcileService c t) (rq_region req)
      then reconcile_types c req ts (diags, res)
      else let (candDiags, res) = reconcileType c req t res
           in reconcile_types c req ts (diags @ candDiags, res))"

definition withhold :: "reconcile_request \<Rightarrow> reconcile_candidate \<Rightarrow> reconcile_candidate" where
  "withhold req cand = (if request_inScope req (rc_addr cand) then cand
     else cand\<lparr>rc_withheld := S ''this run's -target/-exclude leaves ''
       @ config_resource_string (abs_resource_config (containing_resource (rc_addr cand)))
       @ S '' out of the plan graph, so nothing outside it is destroyed here; run without the flag to have this deletion proposed''\<rparr>)"

text \<open>The pass past its guards: the listing, the order of the report, what a narrowed run withholds.\<close>

definition reconcile_scan :: "cloud \<Rightarrow> reconcile_request \<Rightarrow> scope \<Rightarrow> reconcile_result \<Rightarrow> reconcile_result \<times> diag list" where
  "reconcile_scan c req s res =
     (let schemaDiags = call (fst (ListSchemas c))
      in if HasErrors schemaDiags then (res, schemaDiags)
         else
           (let (diags, res) = reconcile_types c req (sort (reconcileTypeUniverse c s)) (schemaDiags, res);
                res = res\<lparr>rr_roster := sort_key (\<lambda>cand. (rc_type cand, rc_import_id cand)) (rr_roster res),
                          rr_gaps := sort_key rg_type (rr_gaps res)\<rparr>;
                res = res\<lparr>rr_roster := map (withhold req) (rr_roster res)\<rparr>;
                res = res\<lparr>rr_threshold_exceeded := int (length (Proposable res)) > rr_threshold res\<rparr>
            in (res, diags)))"

definition Reconcile :: "cloud \<Rightarrow> reconcile_request \<Rightarrow> reconcile_result \<times> diag list" where
  "Reconcile c req =
     (let res = \<lparr>rr_roster = [], rr_gaps = [], rr_threshold = 0, rr_threshold_exceeded = False\<rparr> in
      if \<not> ValidEstateName (rq_estate req) then (res, [InvalidEstateName (rq_estate req)])
      else if \<not> rq_provider req then (res, [NoProviderAccess])
      else (case (case rq_policy req of None \<Rightarrow> None | Some p \<Rightarrow> po_scope p) of
          None \<Rightarrow> (res, [UnscopedRefused])
        | Some s \<Rightarrow>
          if \<not> scopeIsSet (Some s) then (res, [UnscopedRefused])
          else reconcile_scan c req s (res\<lparr>rr_threshold := EffectiveThreshold (rq_policy req)\<rparr>)))"

section \<open>The command that acts on the roster\<close>

record resolution =
  rs_addr :: abs_resource_instance
  rs_import_id :: gostring
  rs_identity :: cty
  rs_undeclared :: bool

text \<open>The synthetic resolutions and the addresses marked verified, by their text.\<close>

definition reconcileResolutions :: "unicode \<Rightarrow> reconcile_result \<Rightarrow> resolution list \<times> gostring list" where
  "reconcileResolutions u rec =
     (map (\<lambda>cand. \<lparr>rs_addr = rc_addr cand, rs_import_id = rc_import_id cand, rs_identity = rc_identity cand,
                   rs_undeclared = True\<rparr>) (Proposable rec),
      map (\<lambda>cand. abs_resource_instance_string u (rc_addr cand)) (Proposable rec))"

record reconcile_outcome =
  ro_result :: "reconcile_result option"
  ro_extra :: "resolution list"
  ro_verified :: "gostring list"
  ro_diags :: "diag list"

definition livePolicyReconcile ::
  "unicode \<Rightarrow> gostring \<Rightarrow> policy option \<Rightarrow> gostring \<Rightarrow> gostring + cloud \<Rightarrow> gostring
    \<Rightarrow> (config_resource \<Rightarrow> bool) option \<Rightarrow> reconcile_outcome" where
  "livePolicyReconcile u estate pol providerType provider region scope =
     (case pol of
        None \<Rightarrow> \<lparr>ro_result = None, ro_extra = [], ro_verified = [], ro_diags = []\<rparr>
      | Some p \<Rightarrow>
        if po_undeclared_untagged p \<noteq> Delete
        then \<lparr>ro_result = None, ro_extra = [], ro_verified = [], ro_diags = []\<rparr>
        else if estate = [] \<or> providerType = []
        then \<lparr>ro_result = None, ro_extra = [], ro_verified = [], ro_diags = []\<rparr>
        else (case provider of
            Inl err \<Rightarrow> \<lparr>ro_result = None, ro_extra = [], ro_verified = [], ro_diags = [ProviderUnavailable err]\<rparr>
          | Inr c \<Rightarrow>
            (let (rec, recDiags) = Reconcile c \<lparr>rq_estate = estate, rq_provider = True, rq_region = region,
                   rq_policy = Some p, rq_scope = scope\<rparr>
             in if HasErrors recDiags
                then \<lparr>ro_result = Some rec, ro_extra = [], ro_verified = [], ro_diags = recDiags\<rparr>
                else if rr_threshold_exceeded rec
                then \<lparr>ro_result = Some rec, ro_extra = [], ro_verified = [],
                      ro_diags = recDiags @ [RosterExceedsThreshold (length (Proposable rec)) (rr_threshold rec)]\<rparr>
                else (let (extra, verified) = reconcileResolutions u rec
                      in \<lparr>ro_result = Some rec, ro_extra = extra, ro_verified = verified, ro_diags = recDiags\<rparr>))))"


section \<open>What ends up on the roster\<close>

text \<open>The objects a type lists, when the pass can list it, and the candidate one of them is.\<close>

definition listing :: "cloud \<Rightarrow> gostring \<Rightarrow> gostring \<Rightarrow> list_result list option" where
  "listing c region t = (case snd (ListSchemas c) t of None \<Rightarrow> None
     | Some ts \<Rightarrow>
       (let config = BuildConfig c t (if hasAttr (ts_config ts) (S ''region'') \<and> region \<noteq> []
              then [(S ''region'', CString region)] else [])
        in if markerCapable ts \<and> \<not> HasErrors (call (fst config))
              \<and> \<not> HasErrors (call (fst (ListResources c t (snd config))))
           then Some (snd (ListResources c t (snd config))) else None))"

definition unclaimed :: "policy \<Rightarrow> tags \<Rightarrow> bool" where
  "unclaimed p tags \<longleftrightarrow> (tags TagEstate = None \<or> tags TagEstate = Some [])
     \<and> tags (po_tag_key p) \<noteq> Some (po_tag_value p)"

definition candidate_of :: "cloud \<Rightarrow> policy \<Rightarrow> gostring \<Rightarrow> list_result \<Rightarrow> reconcile_candidate option" where
  "candidate_of c p t r = (case (TagsOf (lr_resource r), importIdentity c t r) of
     (Some tags, Some i) \<Rightarrow> if unclaimed p tags
        then Some \<lparr>rc_type = t, rc_import_id = i, rc_display = lr_display r, rc_tags = tags,
                   rc_identity = lr_identity r, rc_addr = syntheticReconcileAddr t i, rc_withheld = []\<rparr>
        else None
   | _ \<Rightarrow> None)"

lemma unclaimed_iff: "unclaimed p tags \<longleftrightarrow>
    \<not> (case tags TagEstate of None \<Rightarrow> False | Some v \<Rightarrow> v \<noteq> []) \<and> \<not> TagMatches (Some p) (Some tags)"
  by (auto simp: unclaimed_def TagMatches_def split: option.split)

lemma candidate_of_Some:
  "candidate_of c p t r = Some cand \<longleftrightarrow> (\<exists>tags i. TagsOf (lr_resource r) = Some tags \<and> unclaimed p tags
     \<and> importIdentity c t r = Some i
     \<and> cand = \<lparr>rc_type = t, rc_import_id = i, rc_display = lr_display r, rc_tags = tags,
               rc_identity = lr_identity r, rc_addr = syntheticReconcileAddr t i, rc_withheld = []\<rparr>)"
  by (auto simp: candidate_of_def split: option.splits)

lemma file_candidates_eq:
  assumes "rq_policy req = Some p"
  shows "file_candidates c req t rs res = res\<lparr>rr_roster := rr_roster res @ List.map_filter (candidate_of c p t) rs\<rparr>"
proof (induction rs arbitrary: res)
  case (Cons r rs)
  show ?case
    by (simp add: Cons.IH assms candidate_of_def unclaimed_iff List.map_filter_simps split: option.split)
qed (simp add: List.map_filter_simps)

lemma reconcileType_listed:
  assumes "rq_policy req = Some p" "listing c (rq_region req) t = Some rs"
  shows "snd (reconcileType c req t res) = res\<lparr>rr_roster := rr_roster res @ List.map_filter (candidate_of c p t) rs\<rparr>"
  using assms(2)
  by (auto simp: reconcileType_def listing_def Let_def file_candidates_eq [OF assms(1)]
      split: option.splits if_splits prod.splits)

lemma reconcileType_gap:
  assumes "listing c (rq_region req) t = None"
  shows "\<exists>reason. snd (reconcileType c req t res) = add_gap t reason res"
  using assms
  by (auto simp: reconcileType_def listing_def Let_def split: option.splits if_splits prod.splits)

lemma add_gap_simps [simp]: "rr_roster (add_gap t reason res) = rr_roster res"
  "rg_type ` set (rr_gaps (add_gap t reason res)) = insert t (rg_type ` set (rr_gaps res))"
  "rr_threshold (add_gap t reason res) = rr_threshold res"
  by (auto simp: add_gap_def)

text \<open>The types the scope lets the pass look at, and all their candidates.\<close>

definition allowed :: "cloud \<Rightarrow> scope \<Rightarrow> gostring \<Rightarrow> gostring \<Rightarrow> bool" where
  "allowed c s region t \<longleftrightarrow> Scope_Allows (Some s) t (reconcileService c t) region"

definition candidates :: "cloud \<Rightarrow> policy \<Rightarrow> gostring \<Rightarrow> gostring \<Rightarrow> reconcile_candidate list" where
  "candidates c p region t = (case listing c region t of None \<Rightarrow> []
     | Some rs \<Rightarrow> List.map_filter (candidate_of c p t) rs)"

lemma reconcile_types_eq:
  assumes "rq_policy req = Some p" "po_scope p = Some s"
  shows "rr_roster (snd (reconcile_types c req ts (ds, res))) = rr_roster res
      @ concat (map (candidates c p (rq_region req)) (filter (allowed c s (rq_region req)) ts))
    \<and> rg_type ` set (rr_gaps (snd (reconcile_types c req ts (ds, res)))) = rg_type ` set (rr_gaps res)
      \<union> {t \<in> set ts. allowed c s (rq_region req) t \<and> listing c (rq_region req) t = None}
    \<and> rr_threshold (snd (reconcile_types c req ts (ds, res))) = rr_threshold res"
proof (induction ts arbitrary: ds res)
  case (Cons t ts)
  show ?case
  proof (cases "allowed c s (rq_region req) t")
    case True
    obtain ds' res' where step: "reconcileType c req t res = (ds', res')" by fastforce
    have IH: "reconcile_types c req (t # ts) (ds, res) = reconcile_types c req ts (ds @ ds', res')"
      using True assms step by (simp add: allowed_def)
    show ?thesis
    proof (cases "listing c (rq_region req) t")
      case None
      then obtain reason where "res' = add_gap t reason res"
        using reconcileType_gap [of c req t res] step by auto
      then show ?thesis unfolding IH using Cons.IH None True by (auto simp: candidates_def)
    next
      case (Some rs)
      then have "res' = res\<lparr>rr_roster := rr_roster res @ List.map_filter (candidate_of c p t) rs\<rparr>"
        using reconcileType_listed [OF assms(1), of c t rs res] step by simp
      then show ?thesis unfolding IH using Cons.IH Some True by (auto simp: candidates_def)
    qed
  next
    case False
    then show ?thesis using Cons.IH assms by (auto simp: allowed_def)
  qed
qed simp

lemma Reconcile_ran:
  assumes "Reconcile c req = (res, diags)" "\<not> HasErrors diags"
  shows "\<exists>p s. rq_policy req = Some p \<and> po_scope p = Some s \<and> scopeIsSet (Some s)
    \<and> set (rr_roster res) = withhold req ` (\<Union>t \<in> {t \<in> set (reconcileTypeUniverse c s).
          allowed c s (rq_region req) t}. set (candidates c p (rq_region req) t))
    \<and> rg_type ` set (rr_gaps res) = {t \<in> set (reconcileTypeUniverse c s).
          allowed c s (rq_region req) t \<and> listing c (rq_region req) t = None}
    \<and> rr_threshold_exceeded res = (int (length (Proposable res)) > EffectiveThreshold (Some p))"
proof -
  let ?res0 = "\<lparr>rr_roster = [], rr_gaps = [], rr_threshold = 0, rr_threshold_exceeded = False\<rparr>"
  from assms obtain p s where ps: "rq_policy req = Some p" "po_scope p = Some s" "scopeIsSet (Some s)"
      and scan: "reconcile_scan c req s (?res0\<lparr>rr_threshold := EffectiveThreshold (Some p)\<rparr>) = (res, diags)"
    by (auto simp: Reconcile_def Let_def HasErrors_def split: if_splits option.splits)
  with assms(2) have ok: "\<not> HasErrors (call (fst (ListSchemas c)))"
    by (auto simp: reconcile_scan_def Let_def split: if_splits)
  let ?ts = "sort (reconcileTypeUniverse c s)"
  let ?res = "\<lparr>rr_roster = [], rr_gaps = [], rr_threshold = EffectiveThreshold (Some p), rr_threshold_exceeded = False\<rparr>"
  obtain ds raw where raw: "reconcile_types c req ?ts (call (fst (ListSchemas c)), ?res) = (ds, raw)" by fastforce
  note eq = reconcile_types_eq [OF ps(1,2), of c ?ts "call (fst (ListSchemas c))" ?res, unfolded raw, simplified]
  let ?fin = "raw\<lparr>rr_gaps := sort_key rg_type (rr_gaps raw),
      rr_roster := map (withhold req) (sort_key (\<lambda>cand. (rc_type cand, rc_import_id cand)) (rr_roster raw))\<rparr>"
  have res: "res = ?fin\<lparr>rr_threshold_exceeded := int (length (Proposable ?fin)) > EffectiveThreshold (Some p)\<rparr>"
    using scan ok raw eq by (auto simp: reconcile_scan_def Let_def)
  have "set (rr_roster res) = withhold req ` set (rr_roster raw)"
    "rg_type ` set (rr_gaps res) = rg_type ` set (rr_gaps raw)"
    "rr_threshold_exceeded res = (int (length (Proposable res)) > EffectiveThreshold (Some p))"
    unfolding res by (simp_all add: Proposable_def)
  then show ?thesis using ps eq by (intro exI [of _ p] exI [of _ s]) auto
qed

lemma candidates_iff:
  "cand \<in> set (candidates c p region t) \<longleftrightarrow>
     (\<exists>rs r. listing c region t = Some rs \<and> r \<in> set rs \<and> candidate_of c p t r = Some cand)"
  by (auto simp: candidates_def List.map_filter_def image_iff split: option.split)
     (force+)

lemma withhold_simps [simp]: "rc_type (withhold req cand) = rc_type cand"
  "rc_import_id (withhold req cand) = rc_import_id cand" "rc_tags (withhold req cand) = rc_tags cand"
  "rc_addr (withhold req cand) = rc_addr cand" "rc_identity (withhold req cand) = rc_identity cand"
  by (simp_all add: withhold_def)

lemma withheld_iff:
  "rc_withheld cand = [] \<Longrightarrow> rc_withheld (withhold req cand) = [] \<longleftrightarrow> request_inScope req (rc_addr cand)"
  by (simp add: withhold_def)

lemma universe_iff:
  "t \<in> set (reconcileTypeUniverse c s) \<longleftrightarrow> t \<in> set (AdmittedTypes c) \<and> cloudObservable c t
     \<and> (sc_types s = [] \<or> t \<in> set (sc_types s))"
  by (auto simp: reconcileTypeUniverse_def)

text \<open>
  C7. The safety of the account-wide delete: a resource the command adds to the destroy plan is
  one the provider just listed for a type that is admitted, has a cloud object and is within the
  policy's non-empty scope, under a policy whose verb for undeclared, untagged resources is delete;
  its tags name no estate and are not the policy's protected tag, the run's targeting covers it, and
  all of them together are no more than the policy's threshold.
\<close>

theorem reconcile_destroys_only_unclaimed:
  assumes "re \<in> set (ro_extra (livePolicyReconcile u estate pol providerType (Inr c) region scope))"
  shows "\<exists>p s t rs r tags. pol = Some p \<and> po_undeclared_untagged p = Delete \<and> po_scope p = Some s
    \<and> scopeIsSet (Some s)
    \<and> t \<in> set (AdmittedTypes c) \<and> cloudObservable c t \<and> Scope_Allows (Some s) t (reconcileService c t) region
    \<and> listing c region t = Some rs \<and> r \<in> set rs \<and> importIdentity c t r = Some (rs_import_id re)
    \<and> TagsOf (lr_resource r) = Some tags \<and> (tags TagEstate = None \<or> tags TagEstate = Some [])
    \<and> tags (po_tag_key p) \<noteq> Some (po_tag_value p)
    \<and> (case scope of None \<Rightarrow> True | Some f \<Rightarrow> f (abs_resource_config (containing_resource (rs_addr re))))
    \<and> int (length (ro_extra (livePolicyReconcile u estate pol providerType (Inr c) region scope)))
        \<le> EffectiveThreshold (Some p)"
proof -
  let ?out = "livePolicyReconcile u estate pol providerType (Inr c) region scope"
  let ?req = "\<lparr>rq_estate = estate, rq_provider = True, rq_region = region, rq_policy = pol, rq_scope = scope\<rparr>"
  obtain res diags where run: "Reconcile c ?req = (res, diags)" by fastforce
  with assms obtain p where p: "pol = Some p" "po_undeclared_untagged p = Delete"
      and ok: "\<not> HasErrors diags" "\<not> rr_threshold_exceeded res"
      and extra: "ro_extra ?out = fst (reconcileResolutions u res)"
    by (auto simp: livePolicyReconcile_def Let_def split: option.splits if_splits prod.splits)
  obtain s where s: "po_scope p = Some s" "scopeIsSet (Some s)"
      and roster: "set (rr_roster res) = withhold ?req ` (\<Union>t \<in> {t \<in> set (reconcileTypeUniverse c s).
          allowed c s region t}. set (candidates c p region t))"
      and exceeded: "rr_threshold_exceeded res = (int (length (Proposable res)) > EffectiveThreshold (Some p))"
    using Reconcile_ran [OF run ok(1)] p(1) by auto
  have len: "int (length (ro_extra ?out)) \<le> EffectiveThreshold (Some p)"
    using ok(2) exceeded by (simp add: extra reconcileResolutions_def)
  from assms obtain cand where cand: "cand \<in> set (rr_roster res)" "rc_withheld cand = []"
      "rs_addr re = rc_addr cand" "rs_import_id re = rc_import_id cand"
    by (auto simp: extra reconcileResolutions_def Proposable_def)
  from cand(1) obtain t rs r raw where t: "t \<in> set (reconcileTypeUniverse c s)" "allowed c s region t"
      and r: "listing c region t = Some rs" "r \<in> set rs" "candidate_of c p t r = Some raw"
      and raw: "cand = withhold ?req raw"
    unfolding roster by (auto simp: candidates_iff)
  from r(3) obtain tags where tags: "TagsOf (lr_resource r) = Some tags" "unclaimed p tags"
      "importIdentity c t r = Some (rc_import_id raw)" "rc_withheld raw = []"
    by (auto simp: candidate_of_Some)
  have "request_inScope ?req (rc_addr raw)"
    using withheld_iff [OF tags(4), of ?req] cand(2) raw by simp
  then show ?thesis
    using p s t r(1,2) tags len cand raw
    by (intro exI [of _ p] exI [of _ s] exI [of _ t] exI [of _ rs] exI [of _ r] exI [of _ tags])
       (simp add: universe_iff allowed_def unclaimed_def request_inScope_def split: option.splits)
qed

text \<open>
  C26. The roster never looks cleaner than the account: when a pass ends without an error, every type
  it was allowed to look at is either reported as a gap or was listed in full, and then every listed
  object that no estate claims, that lacks the protected tag and that has an identity is on the
  roster under its type and identity.
\<close>

theorem reconcile_roster_complete:
  assumes "Reconcile c req = (res, diags)" "\<not> HasErrors diags"
    and "rq_policy req = Some p" "po_scope p = Some s"
    and "t \<in> set (AdmittedTypes c)" "cloudObservable c t" "sc_types s = [] \<or> t \<in> set (sc_types s)"
    and "Scope_Allows (Some s) t (reconcileService c t) (rq_region req)"
  shows "t \<in> rg_type ` set (rr_gaps res) \<or> (\<exists>rs. listing c (rq_region req) t = Some rs
    \<and> (\<forall>r \<in> set rs. \<forall>tags i. TagsOf (lr_resource r) = Some tags \<and> unclaimed p tags \<and> importIdentity c t r = Some i
        \<longrightarrow> (\<exists>cand \<in> set (rr_roster res). rc_type cand = t \<and> rc_import_id cand = i \<and> rc_tags cand = tags)))"
proof (cases "listing c (rq_region req) t")
  case None
  then show ?thesis using Reconcile_ran [OF assms(1,2)] assms by (auto simp: universe_iff allowed_def)
next
  case (Some rs)
  have roster: "set (rr_roster res) = withhold req ` (\<Union>t \<in> {t \<in> set (reconcileTypeUniverse c s).
          allowed c s (rq_region req) t}. set (candidates c p (rq_region req) t))"
    using Reconcile_ran [OF assms(1,2)] assms(3,4) by auto
  have "\<exists>cand \<in> set (rr_roster res). rc_type cand = t \<and> rc_import_id cand = i \<and> rc_tags cand = tags"
    if r: "r \<in> set rs" and "TagsOf (lr_resource r) = Some tags" "unclaimed p tags" "importIdentity c t r = Some i"
    for r tags i
  proof -
    let ?cand = "\<lparr>rc_type = t, rc_import_id = i, rc_display = lr_display r, rc_tags = tags,
        rc_identity = lr_identity r, rc_addr = syntheticReconcileAddr t i, rc_withheld = []\<rparr>"
    have "candidate_of c p t r = Some ?cand" using that by (simp add: candidate_of_Some)
    then have "?cand \<in> set (candidates c p (rq_region req) t)" using Some r candidates_iff by blast
    then have "withhold req ?cand \<in> set (rr_roster res)"
      unfolding roster using assms(5-8) by (auto simp: universe_iff allowed_def)
    then show ?thesis by (intro bexI [of _ "withhold req ?cand"]) auto
  qed
  then show ?thesis using Some by blast
qed

section \<open>The linter and the pass agree\<close>

lemma UnscopedRefused_call [simp]: "UnscopedRefused \<notin> set (call ds)"
  by (auto simp: call_def)

lemma reconcile_types_diags:
  "UnscopedRefused \<notin> set ds \<Longrightarrow> UnscopedRefused \<notin> set (fst (reconcile_types c req ts (ds, res)))"
proof (induction ts arbitrary: ds res)
  case (Cons t ts)
  have "UnscopedRefused \<notin> set (fst (reconcileType c req t res))"
    by (auto simp: reconcileType_def Let_def split: option.splits prod.splits)
  then show ?case using Cons by (auto split: prod.split)
qed simp

lemma scan_diags: "UnscopedRefused \<notin> set (snd (reconcile_scan c req s res))"
  using reconcile_types_diags [of "call (fst (ListSchemas c))" c req]
  by (auto simp: reconcile_scan_def Let_def split: prod.split) (metis fst_conv UnscopedRefused_call)

text \<open>
  The linter and the pass agree on what a scoped delete is: a policy that passed the linter is
  never refused as unscoped by the reconciliation it configures.
\<close>

theorem linted_policy_never_refused_unscoped:
  assumes "checkLivePolicy live = []"
  shows "UnscopedRefused \<notin> set (ro_diags (livePolicyReconcile u estate (Some (livePolicy live estate))
           providerType provider region scope))"
proof -
  have "UnscopedRefused \<notin> set (snd (Reconcile c req))"
    if "rq_policy req = Some (livePolicy live estate)" "po_undeclared_untagged (livePolicy live estate) = Delete" for c req
  proof -
    have set: "scopeIsSet (po_scope (livePolicy live estate))" using assms that(2) by (rule linted_delete_scoped)
    then obtain s where "po_scope (livePolicy live estate) = Some s" by (auto simp: scopeIsSet_def split: option.splits)
    then show ?thesis
      using set that(1) scan_diags [of c req s] by (simp add: Reconcile_def Let_def)
  qed
  then show ?thesis
    by (auto simp: livePolicyReconcile_def Let_def split: option.splits sum.splits prod.split)
       (metis reconcile_request.select_convs(4) snd_conv)+
qed

section \<open>Minted names\<close>

lemma sanitize_from_False: "list_all ident_rest (sanitize_from False i)"
  by (induction i) (auto simp: ident_rest_def alpha_under_def)

text \<open>
  The minted name is an identifier, but not unique: two import ids of one type can be minted the
  same address.
\<close>

lemma synthetic_addr_collision:
  "syntheticReconcileAddr t (S ''a/b'') = syntheticReconcileAddr t (S ''a:b'')"
  by (simp add: syntheticReconcileAddr_def sanitizeResourceName_def ascii_defs)

section \<open>A concrete account\<close>

lemma ValidEstateName_iff: "ValidEstateName s \<longleftrightarrow> (\<exists>c t. s = c # t \<and> ascii_lower c
    \<and> length t \<le> 127 \<and> list_all (\<lambda>r. ascii_lower r \<or> ascii_digit r \<or> r = r_hyphen) t)"
  unfolding ValidEstateName_def rx_match_iff estateNamePattern_def lang_seq_cls lang_r_upto by (rule refl)

definition demo_object :: "gostring \<Rightarrow> (gostring \<times> cty) list \<Rightarrow> list_result" where
  "demo_object i tags = \<lparr>lr_display = [], lr_resource = CObject [(S ''tags'', CMap tags)],
     lr_identity = CObject [(S ''id'', CString i)]\<rparr>"

definition demo_cloud :: cloud where
  "demo_cloud = \<lparr>AdmittedTypes = [S ''aws_eip'', S ''aws_vpc''], LookupType = Map.empty,
     TagVerbService = Map.empty,
     ListSchemas = ([], \<lambda>t. Some \<lparr>ts_resource = Some [S ''tags''], ts_config = Some []\<rparr>),
     BuildConfig = (\<lambda>t vals. ([], CObject vals)),
     ListResources = (\<lambda>t config. ([], [demo_object (S ''eip-a'') [(S ''keep'', CString (S ''yes''))],
        demo_object (S ''eip-b'') []]))\<rparr>"

definition demo_policy :: policy where
  "demo_policy = livePolicy (Some (Some demo_raw)) (S ''prod'')"

lemmas reconcile_eval = Reconcile_def reconcile_scan_def reconcileType_def reconcileTypeUniverse_def
  demo_cloud_def demo_object_def Build_simps livePolicy_def demo_raw_def scopeIsSet_def Scope_Allows_def
  reconcileService_def call_def HasErrors_def markerCapable_def hasAttr_def TagsOf_def tag_attribute_def
  TagMatches_def importIdentity_def IdentityAttr_def request_inScope_def withhold_def Proposable_def
  cloudObservable_def EffectiveThreshold_def TagEstate_def demo_policy_def Let_def

lemma demo_reconcile:
  "ro_extra (livePolicyReconcile u (S ''prod'') (Some demo_policy) (S ''aws'') (Inr demo_cloud) (S ''us-east-1'') None)
   = [\<lparr>rs_addr = syntheticReconcileAddr (S ''aws_eip'') (S ''eip-b''), rs_import_id = S ''eip-b'',
       rs_identity = CObject [(S ''id'', CString (S ''eip-b''))], rs_undeclared = True\<rparr>]"
  by (simp add: livePolicyReconcile_def reconcileResolutions_def reconcile_eval ValidEstateName_iff ascii_defs)

theorem reconcile_destroys_only_unclaimed_witness:
  "\<exists>s. po_scope demo_policy = Some s \<and> scopeIsSet (Some s) \<and> po_undeclared_untagged demo_policy = Delete"
  using reconcile_destroys_only_unclaimed [of _ demo_unicode "S ''prod''" "Some demo_policy" "S ''aws''" demo_cloud
      "S ''us-east-1''" None, unfolded demo_reconcile, OF list.set_intros(1)]
  by blast

definition demo_request :: reconcile_request where
  "demo_request = \<lparr>rq_estate = S ''prod'', rq_provider = True, rq_region = S ''us-east-1'',
     rq_policy = Some demo_policy, rq_scope = Some (\<lambda>_. False)\<rparr>"

lemma demo_run: "\<not> HasErrors (snd (Reconcile demo_cloud demo_request))"
  "S ''aws_eip'' \<notin> rg_type ` set (rr_gaps (fst (Reconcile demo_cloud demo_request)))"
  by (simp_all add: demo_request_def reconcile_eval ValidEstateName_iff ascii_defs)

theorem reconcile_roster_complete_witness:
  "\<exists>cand \<in> set (rr_roster (fst (Reconcile demo_cloud demo_request))). rc_import_id cand = S ''eip-b''"
proof -
  let ?s = "\<lparr>sc_services = [], sc_types = [S ''aws_eip''], sc_regions = [S ''us-east-1'']\<rparr>"
  obtain rs where rs: "listing demo_cloud (rq_region demo_request) (S ''aws_eip'') = Some rs"
    "\<forall>r \<in> set rs. \<forall>tags i. TagsOf (lr_resource r) = Some tags \<and> unclaimed demo_policy tags
        \<and> importIdentity demo_cloud (S ''aws_eip'') r = Some i
        \<longrightarrow> (\<exists>cand \<in> set (rr_roster (fst (Reconcile demo_cloud demo_request))). rc_type cand = S ''aws_eip''
              \<and> rc_import_id cand = i \<and> rc_tags cand = tags)"
    using reconcile_roster_complete [of demo_cloud demo_request "fst (Reconcile demo_cloud demo_request)"
        "snd (Reconcile demo_cloud demo_request)" demo_policy ?s "S ''aws_eip''"] demo_run
    by (auto simp: demo_request_def demo_policy_def livePolicy_def Build_simps demo_raw_def demo_cloud_def
        cloudObservable_def Scope_Allows_def)
  have "demo_object (S ''eip-b'') [] \<in> set rs"
    using rs(1) by (auto simp: listing_def demo_cloud_def markerCapable_def hasAttr_def call_def HasErrors_def)
  moreover have "TagsOf (lr_resource (demo_object (S ''eip-b'') [])) = Some Map.empty"
    "importIdentity demo_cloud (S ''aws_eip'') (demo_object (S ''eip-b'') []) = Some (S ''eip-b'')"
    "unclaimed demo_policy Map.empty"
    by (simp_all add: reconcile_eval unclaimed_def)
  ultimately show ?thesis using rs(2) by blast
qed

theorem linted_policy_never_refused_unscoped_witness:
  "UnscopedRefused \<notin> set (ro_diags (livePolicyReconcile demo_unicode (S ''prod'') (Some demo_policy) (S ''aws'')
     (Inr demo_cloud) (S ''us-east-1'') None))"
  unfolding demo_policy_def by (rule linted_policy_never_refused_unscoped [OF demo_raw_clean])

end
