(* ===== verification/SetDigest.thy ===== *)
theory SetDigest
  imports GoText "HOL-Library.Product_Lexorder" "HOL-Library.Multiset"
begin

text \<open>
  The digests of \<open>internal/live/setdigest/digest.go\<close>: a digest per root of a set plan document,
  over the changes its plan makes, and one over the whole set.  Approval of a set is approval of
  that digest, so what two equal digests say about their sets is what an approval is worth.

  A document is modelled after \<open>encoding/json\<close> has read its bytes, as a value whose objects keep
  their members in order; member names are taken to be distinct and spelled exactly (the documents
  are the program's own output), so the package's case folding and repeated-member rules are not
  modelled.  SHA-256 is a parameter: the hexadecimal text of the sum of a text's UTF-8 bytes.
\<close>

section \<open>JSON\<close>

datatype json =
    JNull | JBool bool
  | JNum gostring
  | JStr gostring
  | JArr "json list"
  | JObj "(gostring \<times> json) list"

text \<open>One rune of a string as \<open>encoding/json\<close> writes it, with its escapes for HTML.\<close>

definition json_rune :: "rune \<Rightarrow> gostring" where
  "json_rune r =
     (if r = r_quote then [r_bslash, r_quote]
      else if r = r_bslash then [r_bslash, r_bslash]
      else if r = 8 then [r_bslash, 98]
      else if r = 12 then [r_bslash, 102]
      else if r = 10 then [r_bslash, 110]
      else if r = 13 then [r_bslash, 114]
      else if r = 9 then [r_bslash, 116]
      else if r < 32 \<or> r = 60 \<or> r = 62 \<or> r = 38 \<or> r = 0x2028 \<or> r = 0x2029
      then [r_bslash, 117] @ fmt_x 4 r
      else [r])"

definition json_string :: "gostring \<Rightarrow> gostring" where
  "json_string s = r_quote # concat (map json_rune s) @ [r_quote]"

text \<open>\<open>json.Marshal\<close> of a value; the members of an object in the order they are in.\<close>

fun marshal :: "json \<Rightarrow> gostring" and marshal_elems :: "json list \<Rightarrow> gostring"
  and marshal_members :: "(gostring \<times> json) list \<Rightarrow> gostring" where
  "marshal JNull = S ''null''"
| "marshal (JBool b) = (if b then S ''true'' else S ''false'')"
| "marshal (JNum lit) = lit"
| "marshal (JStr s) = json_string s"
| "marshal (JArr vs) = r_lbr # marshal_elems vs @ [r_rbr]"
| "marshal (JObj ms) = 123 # marshal_members ms @ [125]"
| "marshal_elems [] = []"
| "marshal_elems [v] = marshal v"
| "marshal_elems (v # w # vs) = marshal v @ 44 # marshal_elems (w # vs)"
| "marshal_members [] = []"
| "marshal_members [(k, v)] = json_string k @ r_colon # marshal v"
| "marshal_members ((k, v) # m # ms) = json_string k @ r_colon # marshal v @ 44 # marshal_members (m # ms)"

text \<open>\<open>canonical\<close>: what decoding into maps and encoding again gives, members sorted by name.\<close>

fun canonical :: "json \<Rightarrow> json" where
  "canonical (JArr vs) = JArr (map canonical vs)"
| "canonical (JObj ms) = JObj (sort_key fst (map (\<lambda>(k, v). (k, canonical v)) ms))"
| "canonical v = v"

section \<open>Reading a document\<close>

datatype digest_error =
    NotAnObject
  | NoRoots
  | BadDocument
  | RootWithoutName nat
  | BadPlan gostring
  | BadResourceChange gostring nat
  | BadOutputChange gostring gostring
  | RootTwice gostring

record root_plan =
  rp_root :: gostring
  rp_estate :: gostring
  rp_status :: gostring
  rp_error :: gostring
  rp_plan :: "json option"

definition StatusPlanned :: gostring where "StatusPlanned = S ''planned''"

record set_document =
  sd_roots :: "root_plan list"

text \<open>
  Decoding into a field of a struct: an absent member or a null leaves the zero value, a value of
  another kind is an error (\<open>None\<close>).
\<close>

definition string_field :: "(gostring \<times> json) list \<Rightarrow> string \<Rightarrow> gostring option" where
  "string_field ms name = (case map_of ms (S name) of
     None \<Rightarrow> Some [] | Some JNull \<Rightarrow> Some [] | Some (JStr s) \<Rightarrow> Some s | Some _ \<Rightarrow> None)"

definition bool_field :: "(gostring \<times> json) list \<Rightarrow> string \<Rightarrow> bool option" where
  "bool_field ms name = (case map_of ms (S name) of
     None \<Rightarrow> Some False | Some JNull \<Rightarrow> Some False | Some (JBool b) \<Rightarrow> Some b | Some _ \<Rightarrow> None)"

definition array_field :: "(gostring \<times> json) list \<Rightarrow> string \<Rightarrow> json list option" where
  "array_field ms name = (case map_of ms (S name) of
     None \<Rightarrow> Some [] | Some JNull \<Rightarrow> Some [] | Some (JArr vs) \<Rightarrow> Some vs | Some _ \<Rightarrow> None)"

definition object_field :: "(gostring \<times> json) list \<Rightarrow> string \<Rightarrow> (gostring \<times> json) list option" where
  "object_field ms name = (case map_of ms (S name) of
     None \<Rightarrow> Some [] | Some JNull \<Rightarrow> Some [] | Some (JObj os) \<Rightarrow> Some os | Some _ \<Rightarrow> None)"

text \<open>The members of a value decoded into a struct.\<close>

definition struct_members :: "json \<Rightarrow> (gostring \<times> json) list option" where
  "struct_members v = (case v of JNull \<Rightarrow> Some [] | JObj ms \<Rightarrow> Some ms | _ \<Rightarrow> None)"

definition decode_root_plan :: "json \<Rightarrow> root_plan option" where
  "decode_root_plan v = (case struct_members v of None \<Rightarrow> None
     | Some ms \<Rightarrow>
       (case (string_field ms ''root'', string_field ms ''estate'', string_field ms ''status'', string_field ms ''error'') of
          (Some root, Some estate, Some status, Some err) \<Rightarrow>
            Some \<lparr>rp_root = root, rp_estate = estate, rp_status = status, rp_error = err,
                  rp_plan = map_of ms (S ''plan'')\<rparr>
        | _ \<Rightarrow> None))"

fun decode_all :: "(json \<Rightarrow> 'a option) \<Rightarrow> json list \<Rightarrow> 'a list option" where
  "decode_all f [] = Some []"
| "decode_all f (v # vs) = (case (f v, decode_all f vs) of (Some x, Some xs) \<Rightarrow> Some (x # xs) | _ \<Rightarrow> None)"

fun first_unnamed :: "nat \<Rightarrow> root_plan list \<Rightarrow> nat option" where
  "first_unnamed i [] = None"
| "first_unnamed i (r # rs) = (if rp_root r = [] then Some i else first_unnamed (Suc i) rs)"

definition ParseSetDocument :: "json \<Rightarrow> digest_error + set_document" where
  "ParseSetDocument data = (case struct_members data of None \<Rightarrow> Inl NotAnObject
     | Some ms \<Rightarrow>
       if map_of ms (S ''roots'') = None then Inl NoRoots
       else (case array_field ms ''roots'' of None \<Rightarrow> Inl BadDocument
         | Some vs \<Rightarrow> (case decode_all decode_root_plan vs of None \<Rightarrow> Inl BadDocument
           | Some roots \<Rightarrow> (case first_unnamed 0 roots of Some i \<Rightarrow> Inl (RootWithoutName i)
             | None \<Rightarrow> Inr \<lparr>sd_roots = roots\<rparr>))))"

section \<open>The digest of a root\<close>

definition DigestPrefix :: gostring where "DigestPrefix = S ''sha256:''"
definition digestVersion :: gostring where "digestVersion = S ''choudoufu-set-digest/1''"

definition isNoOp :: "gostring list \<Rightarrow> bool" where
  "isNoOp actions = (actions = [S ''no-op''])"

definition action_name :: "json \<Rightarrow> gostring option" where
  "action_name v = (case v of JStr s \<Rightarrow> Some s | JNull \<Rightarrow> Some [] | _ \<Rightarrow> None)"

text \<open>\<open>changeHead\<close> and \<open>outputHead\<close>.\<close>

definition actions_of :: "(gostring \<times> json) list \<Rightarrow> gostring list option" where
  "actions_of ms = (case array_field ms ''actions'' of None \<Rightarrow> None | Some vs \<Rightarrow> decode_all action_name vs)"

definition output_head :: "json \<Rightarrow> gostring list option" where
  "output_head v = (case struct_members v of None \<Rightarrow> None | Some ms \<Rightarrow> actions_of ms)"

definition change_head :: "json \<Rightarrow> (gostring \<times> gostring \<times> gostring list) option" where
  "change_head v = (case struct_members v of None \<Rightarrow> None
     | Some ms \<Rightarrow>
       (case (string_field ms ''address'', string_field ms ''deposed'', object_field ms ''change'') of
          (Some address, Some deposed, Some change) \<Rightarrow>
            (case actions_of change of None \<Rightarrow> None | Some actions \<Rightarrow> Some (address, deposed, actions))
        | _ \<Rightarrow> None))"

text \<open>The changes that are not no-ops, canonical, with the address and deposed key they sort by.\<close>

fun keyed_changes :: "gostring \<Rightarrow> nat \<Rightarrow> json list \<Rightarrow> digest_error + (gostring \<times> gostring \<times> json) list" where
  "keyed_changes root i [] = Inr []"
| "keyed_changes root i (raw # rest) =
     (case change_head raw of None \<Rightarrow> Inl (BadResourceChange root i)
      | Some (address, deposed, actions) \<Rightarrow>
        if isNoOp actions then keyed_changes root (Suc i) rest
        else try_bind (keyed_changes root (Suc i) rest)
               (\<lambda>ks. Inr ((address, deposed, canonical raw) # ks)))"

fun output_changes :: "gostring \<Rightarrow> (gostring \<times> json) list \<Rightarrow> digest_error + (gostring \<times> json) list" where
  "output_changes root [] = Inr []"
| "output_changes root ((name, raw) # rest) =
     (case output_head raw of None \<Rightarrow> Inl (BadOutputChange root name)
      | Some actions \<Rightarrow>
        if isNoOp actions then output_changes root rest
        else try_bind (output_changes root rest) (\<lambda>os. Inr ((name, canonical raw) # os)))"

record root_canon =
  cn_root :: gostring
  cn_estate :: gostring
  cn_status :: gostring
  cn_error :: gostring
  cn_has_plan :: bool
  cn_errored :: bool
  cn_resource_changes :: "json list"
  cn_output_changes :: "(gostring \<times> json) list"

definition empty_canon :: "root_plan \<Rightarrow> root_canon" where
  "empty_canon r = \<lparr>cn_root = rp_root r, cn_estate = rp_estate r, cn_status = rp_status r, cn_error = rp_error r,
     cn_has_plan = False, cn_errored = False, cn_resource_changes = [], cn_output_changes = []\<rparr>"

definition root_canon_of :: "root_plan \<Rightarrow> digest_error + root_canon" where
  "root_canon_of r =
     (let c = empty_canon r in
      case rp_plan r of None \<Rightarrow> Inr c | Some JNull \<Rightarrow> Inr c
      | Some plan \<Rightarrow>
        (case struct_members plan of None \<Rightarrow> Inl (BadPlan (rp_root r))
         | Some ms \<Rightarrow>
           (case (bool_field ms ''errored'', array_field ms ''resource_changes'', object_field ms ''output_changes'') of
              (Some errored, Some rcs, Some ocs) \<Rightarrow>
                try_bind (keyed_changes (rp_root r) 0 rcs) (\<lambda>ks.
                  try_bind (output_changes (rp_root r) ocs) (\<lambda>os.
                    Inr (c\<lparr>cn_has_plan := True, cn_errored := errored,
                           cn_resource_changes := map (\<lambda>(_, _, raw). raw) (sort_key (\<lambda>(a, d, _). (a, d)) ks),
                           cn_output_changes := sort_key fst os\<rparr>)))
            | _ \<Rightarrow> Inl (BadPlan (rp_root r)))))"

text \<open>The struct \<open>rootCanon\<close> as \<open>json.Marshal\<close> sees it: its fields in order, an empty error omitted.\<close>

definition canon_json :: "root_canon \<Rightarrow> json" where
  "canon_json c = JObj
     ([(S ''v'', JStr digestVersion), (S ''root'', JStr (cn_root c)), (S ''estate'', JStr (cn_estate c)),
       (S ''status'', JStr (cn_status c))]
      @ (if cn_error c = [] then [] else [(S ''error'', JStr (cn_error c))])
      @ [(S ''has_plan'', JBool (cn_has_plan c)), (S ''errored'', JBool (cn_errored c)),
         (S ''resource_changes'', JArr (cn_resource_changes c)),
         (S ''output_changes'', JObj (cn_output_changes c))])"

definition RootDigest :: "(gostring \<Rightarrow> gostring) \<Rightarrow> root_plan \<Rightarrow> digest_error + gostring" where
  "RootDigest sha256 r = try_bind (root_canon_of r) (\<lambda>c. Inr (DigestPrefix @ sha256 (marshal (canon_json c))))"

section \<open>The digest of a set\<close>

record root_digest_entry =
  de_root :: gostring
  de_digest :: gostring

text \<open>\<open>len\<close> of a string is its number of UTF-8 bytes.\<close>

definition utf8_len :: "gostring \<Rightarrow> nat" where
  "utf8_len s = sum_list (map (\<lambda>r. if r < 0x80 then 1 else if r < 0x800 then 2 else if r < 0x10000 then 3 else 4) s)"

definition frame :: "gostring \<Rightarrow> gostring" where
  "frame s = itoa_nat (utf8_len s) @ r_colon # s"

text \<open>The loop: the previous root, whose repetition is refused, and the text hashed so far.\<close>

fun set_frames :: "gostring option \<Rightarrow> root_digest_entry list \<Rightarrow> digest_error + gostring" where
  "set_frames prev [] = Inr []"
| "set_frames prev (e # es) =
     (if prev = Some (de_root e) then Inl (RootTwice (de_root e))
      else try_bind (set_frames (Some (de_root e)) es)
             (\<lambda>t. Inr (frame (de_root e) @ frame (de_digest e) @ [10] @ t)))"

definition SetDigest :: "(gostring \<Rightarrow> gostring) \<Rightarrow> root_digest_entry list \<Rightarrow> digest_error + gostring" where
  "SetDigest sha256 entries =
     (let sorted = sort_key de_root entries
      in try_bind (set_frames None sorted) (\<lambda>t.
           Inr (DigestPrefix @ sha256 (digestVersion @ [10] @ itoa_nat (length sorted) @ [10] @ t))))"

text \<open>The loop of \<open>DocumentDigests\<close>: the digests by root, and the entries in document order.\<close>

fun document_entries :: "(gostring \<Rightarrow> gostring) \<Rightarrow> root_plan list \<Rightarrow> (gostring \<rightharpoonup> gostring) \<Rightarrow> root_digest_entry list
    \<Rightarrow> digest_error + (gostring \<rightharpoonup> gostring) \<times> root_digest_entry list" where
  "document_entries sha256 [] byRoot entries = Inr (byRoot, entries)"
| "document_entries sha256 (r # rs) byRoot entries =
     try_bind (RootDigest sha256 r) (\<lambda>d.
       if byRoot (rp_root r) \<noteq> None then Inl (RootTwice (rp_root r))
       else document_entries sha256 rs (byRoot(rp_root r \<mapsto> d))
              (entries @ [\<lparr>de_root = rp_root r, de_digest = d\<rparr>]))"

definition DocumentDigests :: "(gostring \<Rightarrow> gostring) \<Rightarrow> set_document
    \<Rightarrow> digest_error + (gostring \<rightharpoonup> gostring) \<times> gostring" where
  "DocumentDigests sha256 doc =
     try_bind (document_entries sha256 (sd_roots doc) Map.empty []) (\<lambda>(byRoot, entries).
       try_bind (SetDigest sha256 entries) (\<lambda>set. Inr (byRoot, set)))"

section \<open>The encoding determines the value\<close>

lemma hex_value_lower [simp]: "d < 16 \<Longrightarrow> hex_value (lower_hex_rune d) = Some d"
  by (auto simp: hex_value_def lower_hex_rune_def ascii_defs)

lemma fmt_x_value: "of_digits 16 0 (map (\<lambda>r. the (hex_value r)) (fmt_x w n)) = n"
proof -
  have "map ((\<lambda>r. the (hex_value r)) \<circ> lower_hex_rune) (digits_base 16 n) = map id (digits_base 16 n)"
    by (rule map_cong) (auto dest!: digits_base_bound [rotated])
  moreover have "hex_value 48 = Some 0" by (simp add: hex_value_def ascii_defs)
  ultimately show ?thesis
    by (simp add: fmt_x_def pad_left_def of_digits_replicate_0 of_digits_digits_base)
qed

lemma fmt_x_inject [simp]: "fmt_x w m = fmt_x w n \<longleftrightarrow> m = n"
  by (metis fmt_x_value)

lemma length_fmt_x: "n < 16 ^ w \<Longrightarrow> 0 < w \<Longrightarrow> length (fmt_x w n) = w"
  using length_digits_base [of 16 n w] by (simp add: fmt_x_def pad_left_def)

text \<open>The first two runes of an escaped rune, and what is left to tell it apart.\<close>

definition escaped_hex :: "rune \<Rightarrow> bool" where
  "escaped_hex r \<longleftrightarrow> r \<notin> {8, 12, 10, 13, 9} \<and> (r < 32 \<or> r = 60 \<or> r = 62 \<or> r = 38 \<or> r = 0x2028 \<or> r = 0x2029)"

lemma json_rune_hex: "escaped_hex r \<Longrightarrow> json_rune r = r_bslash # 117 # fmt_x 4 r \<and> length (fmt_x 4 r) = 4"
  by (auto simp: escaped_hex_def json_rune_def intro!: length_fmt_x)

lemma json_rune_other: "\<not> escaped_hex r \<Longrightarrow>
    json_rune r = (if r = r_quote \<or> r = r_bslash then [r_bslash, r]
      else if r = 8 then [r_bslash, 98] else if r = 12 then [r_bslash, 102] else if r = 10 then [r_bslash, 110]
      else if r = 13 then [r_bslash, 114] else if r = 9 then [r_bslash, 116] else [r])"
  by (auto simp: escaped_hex_def json_rune_def)

lemma json_rune_prefix: "json_rune a @ x = json_rune b @ y \<Longrightarrow> a = b \<and> x = y"
proof (cases "escaped_hex a"; cases "escaped_hex b")
  assume e: "json_rune a @ x = json_rune b @ y" and ab: "escaped_hex a" "escaped_hex b"
  then show ?thesis using json_rune_hex [OF ab(1)] json_rune_hex [OF ab(2)] by auto
next
  assume e: "json_rune a @ x = json_rune b @ y" and ab: "escaped_hex a" "\<not> escaped_hex b"
  then show ?thesis using json_rune_hex [OF ab(1)] by (auto simp: json_rune_other split: if_splits)
next
  assume e: "json_rune a @ x = json_rune b @ y" and ab: "\<not> escaped_hex a" "escaped_hex b"
  then show ?thesis using json_rune_hex [OF ab(2)] by (auto simp: json_rune_other split: if_splits)
next
  assume e: "json_rune a @ x = json_rune b @ y" and ab: "\<not> escaped_hex a" "\<not> escaped_hex b"
  then show ?thesis by (auto simp: json_rune_other split: if_splits)
qed

lemma json_rune_start: "json_rune r @ x \<noteq> r_quote # y"
  by (cases "escaped_hex r") (auto simp: json_rune_hex json_rune_other)

lemma json_string_prefix: "json_string s @ x = json_string t @ y \<Longrightarrow> s = t \<and> x = y"
proof -
  have "concat (map json_rune s) @ r_quote # x = concat (map json_rune t) @ r_quote # y \<Longrightarrow> s = t \<and> x = y"
  proof (induction s arbitrary: t)
    case Nil
    then show ?case using json_rune_start [THEN not_sym] by (cases t) auto
  next
    case (Cons a s)
    show ?case
    proof (cases t)
      case Nil
      then show ?thesis using Cons.prems json_rune_start by auto
    next
      case (Cons b t')
      then show ?thesis using Cons.prems Cons.IH [of t'] json_rune_prefix [of a _ b] by auto
    qed
  qed
  then show "json_string s @ x = json_string t @ y \<Longrightarrow> s = t \<and> x = y" by (simp add: json_string_def)
qed

text \<open>Numbers are the literals of the JSON grammar, as far as telling them apart needs it.\<close>

definition number_rune :: "rune \<Rightarrow> bool" where
  "number_rune r \<longleftrightarrow> ascii_digit r \<or> r \<in> {r_hyphen, r_plus, r_dot, 101, 69}"

fun wf_json :: "json \<Rightarrow> bool" where
  "wf_json (JNum lit) = (lit \<noteq> [] \<and> list_all number_rune lit \<and> (ascii_digit (hd lit) \<or> hd lit = r_hyphen))"
| "wf_json (JArr vs) = list_all wf_json vs"
| "wf_json (JObj ms) = list_all (\<lambda>(_, v). wf_json v) ms"
| "wf_json v = True"

definition no_number :: "gostring \<Rightarrow> bool" where
  "no_number s \<longleftrightarrow> s = [] \<or> \<not> number_rune (hd s)"

lemma no_number_simps [simp]: "no_number []" "no_number (c # s) \<longleftrightarrow> \<not> number_rune c"
  by (simp_all add: no_number_def)

lemma takeWhile_number: "list_all number_rune a \<Longrightarrow> no_number x \<Longrightarrow> takeWhile number_rune (a @ x) = a"
  by (cases x) (auto simp: takeWhile_append list_all_iff)

lemma number_prefix:
  "list_all number_rune a \<Longrightarrow> list_all number_rune b \<Longrightarrow> a @ x = b @ y \<Longrightarrow> no_number x \<Longrightarrow> no_number y
   \<Longrightarrow> a = b \<and> x = y"
  using takeWhile_number [of a x] takeWhile_number [of b y] by auto

definition kind_rune :: "json \<Rightarrow> rune" where
  "kind_rune v = (case v of JNull \<Rightarrow> 110 | JBool b \<Rightarrow> (if b then 116 else 102) | JNum lit \<Rightarrow> hd lit
     | JStr _ \<Rightarrow> r_quote | JArr _ \<Rightarrow> r_lbr | JObj _ \<Rightarrow> 123)"

lemma hd_marshal: "wf_json v \<Longrightarrow> marshal v \<noteq> [] \<and> hd (marshal v) = kind_rune v"
  by (cases v) (auto simp: kind_rune_def json_string_def)

lemma kind_rune_close: "wf_json v \<Longrightarrow> kind_rune v \<noteq> r_rbr \<and> kind_rune v \<noteq> 44 \<and> kind_rune v \<noteq> 125"
  by (cases v) (auto simp: kind_rune_def ascii_defs)

lemma marshal_start: "wf_json v \<Longrightarrow> marshal v @ x = c # y \<Longrightarrow> c = kind_rune v"
  using hd_marshal [of v] by (cases "marshal v") auto

lemma number_closers [simp]: "\<not> number_rune 44" "\<not> number_rune 93" "\<not> number_rune 125"
  by (simp_all add: number_rune_def ascii_defs)

lemma marshal_elems_Cons: "marshal_elems (v # vs) = marshal v @ (if vs = [] then [] else 44 # marshal_elems vs)"
  by (cases vs) auto

lemma marshal_members_Cons: "marshal_members ((k, v) # ms) =
    json_string k @ r_colon # marshal v @ (if ms = [] then [] else 44 # marshal_members ms)"
  by (cases ms) auto

text \<open>Reading one value back: the property of a value that the arrays and objects need of their parts.\<close>

definition readable :: "json \<Rightarrow> bool" where
  "readable v \<longleftrightarrow> (\<forall>w x y. wf_json w \<longrightarrow> marshal v @ x = marshal w @ y \<longrightarrow> no_number x \<longrightarrow> no_number y
     \<longrightarrow> v = w \<and> x = y)"

lemma readableD: "readable v \<Longrightarrow> wf_json w \<Longrightarrow> marshal v @ x = marshal w @ y \<Longrightarrow> no_number x \<Longrightarrow> no_number y
    \<Longrightarrow> v = w \<and> x = y"
  unfolding readable_def by blast

lemma elems_start: "list_all wf_json vs \<Longrightarrow> marshal_elems vs @ r_rbr # x = r_rbr # y \<Longrightarrow> vs = []"
proof (cases vs)
  case (Cons v vs')
  assume "list_all wf_json vs" "marshal_elems vs @ r_rbr # x = r_rbr # y"
  then have "wf_json v" "marshal v @ (if vs' = [] then [] else 44 # marshal_elems vs') @ r_rbr # x = r_rbr # y"
    using Cons by (auto simp: marshal_elems_Cons)
  then show ?thesis using marshal_start kind_rune_close by metis
qed simp

lemma elems_prefix:
  "\<forall>v \<in> set vs. readable v \<Longrightarrow> list_all wf_json vs \<Longrightarrow> list_all wf_json ws
    \<Longrightarrow> marshal_elems vs @ r_rbr # x = marshal_elems ws @ r_rbr # y \<Longrightarrow> vs = ws \<and> x = y"
proof (induction vs arbitrary: ws)
  case Nil
  then show ?case using elems_start [of ws y x] by (auto dest: sym)
next
  case (Cons v vs)
  show ?case
  proof (cases ws)
    case Nil
    then show ?thesis using Cons.prems elems_start [of "v # vs" x y] by auto
  next
    case ws: (Cons w ws')
    let ?rest = "\<lambda>vs x. (if vs = [] then [] else 44 # marshal_elems vs) @ r_rbr # x"
    have "marshal v @ ?rest vs x = marshal w @ ?rest ws' y"
      using Cons.prems(4) ws by (simp add: marshal_elems_Cons)
    then have vw: "v = w" "?rest vs x = ?rest ws' y"
      using Cons.prems ws readableD [of v w "?rest vs x" "?rest ws' y"] by auto
    then show ?thesis using Cons.IH [of ws'] Cons.prems ws by (auto split: if_splits)
  qed
qed

lemma members_prefix:
  "\<forall>m \<in> set ms. readable (snd m) \<Longrightarrow> list_all (\<lambda>(_, v). wf_json v) ms \<Longrightarrow> list_all (\<lambda>(_, v). wf_json v) ns
    \<Longrightarrow> marshal_members ms @ 125 # x = marshal_members ns @ 125 # y \<Longrightarrow> ms = ns \<and> x = y"
proof (induction ms arbitrary: ns)
  case Nil
  then show ?case by (cases ns) (auto simp: marshal_members_Cons json_string_def)
next
  case (Cons m ms)
  obtain k v where m: "m = (k, v)" by fastforce
  show ?case
  proof (cases ns)
    case Nil
    then show ?thesis using Cons.prems m by (auto simp: marshal_members_Cons json_string_def)
  next
    case ns: (Cons n ns')
    obtain l w where n: "n = (l, w)" by fastforce
    let ?rest = "\<lambda>ms x. (if ms = [] then [] else 44 # marshal_members ms) @ 125 # x"
    have "json_string k @ r_colon # marshal v @ ?rest ms x = json_string l @ r_colon # marshal w @ ?rest ns' y"
      using Cons.prems(4) ns m n by (simp add: marshal_members_Cons)
    note kl = json_string_prefix [OF this]
    then have "k = l" and e: "marshal v @ ?rest ms x = marshal w @ ?rest ns' y"
      by (rule conjunct1, use kl in \<open>simp only: list.inject simp_thms\<close>)
    have "v = w" and r: "?rest ms x = ?rest ns' y"
      using readableD [of v w, OF _ _ e] Cons.prems ns m n by auto
    have "(ms = []) = (ns' = [])" "marshal_members ms @ 125 # x = marshal_members ns' @ 125 # y"
      using r by (cases "ms = []"; cases "ns' = []"; simp)+
    then have "ms = ns' \<and> x = y" using Cons.IH [of ns'] Cons.prems(1-3) ns by simp
    then show ?thesis using ns m n \<open>k = l\<close> \<open>v = w\<close> by simp
  qed
qed

lemma kind_rune_eq:
  assumes "wf_json w"
  shows "kind_rune w = r_lbr \<Longrightarrow> \<exists>ws. w = JArr ws" "kind_rune w = 123 \<Longrightarrow> \<exists>ms. w = JObj ms"
    "kind_rune w = r_quote \<Longrightarrow> \<exists>s. w = JStr s" "kind_rune w = 110 \<Longrightarrow> w = JNull"
    "kind_rune w = (if b then 116 else 102) \<Longrightarrow> w = JBool b"
    "ascii_digit (kind_rune w) \<or> kind_rune w = r_hyphen \<Longrightarrow> \<exists>lit. w = JNum lit"
  using assms by (cases w; auto simp: kind_rune_def ascii_defs split: if_splits)+

lemma wf_readable: "wf_json v \<Longrightarrow> readable v"
proof (induction v)
  case (JNum a)
  show ?case unfolding readable_def
  proof (intro allI impI)
    fix w x y assume w: "wf_json w" "marshal (JNum a) @ x = marshal w @ y" "no_number x" "no_number y"
    have "marshal w @ y = hd a # tl a @ x" using w(2) JNum.prems by (cases a) auto
    then have "kind_rune w = hd a" using marshal_start [OF w(1)] by metis
    then obtain b where "w = JNum b"
      using kind_rune_eq(6) [OF w(1)] JNum.prems by auto
    then show "JNum a = w \<and> x = y" using w JNum.prems number_prefix [of a b x y] by auto
  qed
next
  case (JArr vs)
  then have vs: "\<forall>v \<in> set vs. readable v" "list_all wf_json vs" by (auto simp: list_all_iff)
  show ?case unfolding readable_def
  proof (intro allI impI)
    fix w x y assume w: "wf_json w" "marshal (JArr vs) @ x = marshal w @ y"
    then have "kind_rune w = r_lbr" using marshal_start [OF w(1) w(2) [symmetric, unfolded marshal.simps S_simps append_Cons]] by simp
    then obtain ws where "w = JArr ws"
      using kind_rune_eq(1) [OF w(1)] by blast
    then show "JArr vs = w \<and> x = y" using w elems_prefix [OF vs] by auto
  qed
next
  case (JObj ms)
  then have ms: "\<forall>m \<in> set ms. readable (snd m)" "list_all (\<lambda>(_, v). wf_json v) ms"
    by (auto simp: list_all_iff)
  show ?case unfolding readable_def
  proof (intro allI impI)
    fix w x y assume w: "wf_json w" "marshal (JObj ms) @ x = marshal w @ y"
    then have "kind_rune w = 123" using marshal_start [OF w(1) w(2) [symmetric, unfolded marshal.simps S_simps append_Cons]] by simp
    then obtain ns where "w = JObj ns"
      using kind_rune_eq(2) [OF w(1)] by blast
    then show "JObj ms = w \<and> x = y" using w members_prefix [OF ms] by auto
  qed
next
  case (JStr s)
  show ?case unfolding readable_def
  proof (intro allI impI)
    fix w x y assume w: "wf_json w" "marshal (JStr s) @ x = marshal w @ y"
    then have "kind_rune w = r_quote"
      using marshal_start [OF w(1) w(2) [symmetric, unfolded marshal.simps json_string_def append_Cons]] by simp
    then obtain t where "w = JStr t"
      using kind_rune_eq(3) [OF w(1)] by blast
    then show "JStr s = w \<and> x = y" using w json_string_prefix [of s x t y] by auto
  qed
next
  case JNull
  show ?case unfolding readable_def
  proof (intro allI impI)
    fix w x y assume w: "wf_json w" "marshal JNull @ x = marshal w @ y"
    then have "kind_rune w = 110" using marshal_start [OF w(1) w(2) [symmetric, unfolded marshal.simps S_simps append_Cons]] by simp
    then have "w = JNull" using kind_rune_eq(4) [OF w(1)] by blast
    then show "JNull = w \<and> x = y" using w by auto
  qed
next
  case (JBool b)
  show ?case unfolding readable_def
  proof (intro allI impI)
    fix w x y assume w: "wf_json w" "marshal (JBool b) @ x = marshal w @ y"
    then have "kind_rune w = (if b then 116 else 102)"
      using marshal_start [OF w(1), of y "if b then 116 else 102" "tl (marshal (JBool b)) @ x"] by (cases b) auto
    then have "w = JBool b" using kind_rune_eq(5) [OF w(1)] by blast
    then show "JBool b = w \<and> x = y" using w by auto
  qed
qed

lemma marshal_inject: "wf_json v \<Longrightarrow> wf_json w \<Longrightarrow> marshal v = marshal w \<longleftrightarrow> v = w"
  using readableD [OF wf_readable, of v w "[]" "[]"] by auto

section \<open>What a root digest covers\<close>

fun wf_plan :: "root_plan \<Rightarrow> bool" where
  "wf_plan r = (case rp_plan r of None \<Rightarrow> True | Some plan \<Rightarrow> wf_json plan)"

definition change_key :: "json \<Rightarrow> (gostring \<times> gostring \<times> json) option" where
  "change_key raw = (case change_head raw of None \<Rightarrow> None
     | Some (a, d, actions) \<Rightarrow> if isNoOp actions then None else Some (a, d, canonical raw))"

definition output_key :: "gostring \<times> json \<Rightarrow> (gostring \<times> json) option" where
  "output_key = (\<lambda>(name, raw). case output_head raw of None \<Rightarrow> None
     | Some actions \<Rightarrow> if isNoOp actions then None else Some (name, canonical raw))"

lemma keyed_changes_Inr: "keyed_changes root i rcs = Inr ks \<longleftrightarrow>
    list_all (\<lambda>raw. change_head raw \<noteq> None) rcs \<and> ks = List.map_filter change_key rcs"
proof (induction rcs arbitrary: i ks)
  case (Cons raw rest)
  then show ?case
    by (cases "change_head raw"; cases "isNoOp (snd (snd (the (change_head raw))))")
       (auto simp: try_bind_Inr_iff change_key_def List.map_filter_simps)
qed (auto simp: List.map_filter_simps)

lemma output_changes_Inr: "output_changes root ocs = Inr os \<longleftrightarrow>
    list_all (\<lambda>(_, raw). output_head raw \<noteq> None) ocs \<and> os = List.map_filter output_key ocs"
proof (induction ocs arbitrary: os)
  case (Cons oc rest)
  obtain name raw where oc: "oc = (name, raw)" by fastforce
  show ?case
    by (cases "output_head raw"; cases "isNoOp (the (output_head raw))")
       (auto simp: oc Cons.IH try_bind_Inr_iff output_key_def List.map_filter_simps)
qed (auto simp: List.map_filter_simps)

lemma wf_canonical: "wf_json v \<Longrightarrow> wf_json (canonical v)"
proof (induction v)
  case (JObj ms)
  then have "wf_json (canonical v)" if "(k, v) \<in> set ms" for k v
    using that by (auto simp: list_all_iff)
  then show ?case by (auto simp: list_all_iff)
qed (auto simp: list_all_iff)

lemma wf_map_of: "wf_json (JObj ms) \<Longrightarrow> map_of ms k = Some v \<Longrightarrow> wf_json v"
  by (auto simp: list_all_iff dest!: map_of_SomeD)

lemma wf_array_field: "wf_json (JObj ms) \<Longrightarrow> array_field ms name = Some vs \<Longrightarrow> list_all wf_json vs"
  using wf_map_of [of ms "S name"] by (fastforce simp: array_field_def split: option.splits json.splits)

lemma wf_object_field:
  "wf_json (JObj ms) \<Longrightarrow> object_field ms name = Some os \<Longrightarrow> list_all (\<lambda>(_, v). wf_json v) os"
  using wf_map_of [of ms "S name"] by (fastforce simp: object_field_def split: option.splits json.splits)

text \<open>A plan as the digest reads it: an object with these three members.\<close>

definition plan_parts :: "root_plan \<Rightarrow> (bool \<times> json list \<times> (gostring \<times> json) list) option" where
  "plan_parts r = (case rp_plan r of None \<Rightarrow> None | Some plan \<Rightarrow>
     (case struct_members plan of None \<Rightarrow> None | Some ms \<Rightarrow>
       (case (bool_field ms ''errored'', array_field ms ''resource_changes'', object_field ms ''output_changes'') of
          (Some e, Some rcs, Some ocs) \<Rightarrow> Some (e, rcs, ocs) | _ \<Rightarrow> None)))"

lemma root_canon_of_Inr:
  "root_canon_of r = Inr c \<longleftrightarrow>
     (if rp_plan r = None \<or> rp_plan r = Some JNull then c = empty_canon r
      else \<exists>e rcs ocs. plan_parts r = Some (e, rcs, ocs)
        \<and> list_all (\<lambda>raw. change_head raw \<noteq> None) rcs \<and> list_all (\<lambda>(_, raw). output_head raw \<noteq> None) ocs
        \<and> c = (empty_canon r)\<lparr>cn_has_plan := True, cn_errored := e,
              cn_resource_changes := map (\<lambda>(_, _, raw). raw)
                (sort_key (\<lambda>(a, d, _). (a, d)) (List.map_filter change_key rcs)),
              cn_output_changes := sort_key fst (List.map_filter output_key ocs)\<rparr>)"
proof (cases "rp_plan r = None \<or> rp_plan r = Some JNull")
  case True
  then show ?thesis by (auto simp: root_canon_of_def Let_def)
next
  case False
  then obtain plan where plan: "rp_plan r = Some plan" "plan \<noteq> JNull" by auto
  have "root_canon_of r = (case plan_parts r of None \<Rightarrow> Inl (BadPlan (rp_root r))
      | Some (e, rcs, ocs) \<Rightarrow> try_bind (keyed_changes (rp_root r) 0 rcs) (\<lambda>ks.
          try_bind (output_changes (rp_root r) ocs) (\<lambda>os. Inr ((empty_canon r)\<lparr>cn_has_plan := True, cn_errored := e,
              cn_resource_changes := map (\<lambda>(_, _, raw). raw) (sort_key (\<lambda>(a, d, _). (a, d)) ks),
              cn_output_changes := sort_key fst os\<rparr>))))"
    using plan by (cases plan) (auto simp: root_canon_of_def plan_parts_def Let_def split: option.split)
  then show ?thesis using False
    by (auto simp: try_bind_Inr_iff keyed_changes_Inr output_changes_Inr split: option.splits prod.splits)
qed

lemma wf_plan_parts:
  assumes "wf_plan r" "plan_parts r = Some (e, rcs, ocs)"
  shows "list_all wf_json rcs \<and> list_all (\<lambda>(_, raw). wf_json raw) ocs"
proof -
  obtain plan ms where plan: "rp_plan r = Some plan" "struct_members plan = Some ms"
      and parts: "array_field ms ''resource_changes'' = Some rcs" "object_field ms ''output_changes'' = Some ocs"
    using assms(2) by (auto simp: plan_parts_def split: option.splits)
  have "wf_json (JObj ms)" using assms(1) plan by (cases plan) (auto simp: struct_members_def)
  then show ?thesis using parts wf_array_field wf_object_field by blast
qed

lemma wf_canon_json:
  assumes "wf_plan r" "root_canon_of r = Inr c"
  shows "wf_json (canon_json c)"
proof (cases "rp_plan r = None \<or> rp_plan r = Some JNull")
  case True
  then show ?thesis using assms(2) by (auto simp: root_canon_of_Inr canon_json_def empty_canon_def)
next
  case False
  then obtain e rcs ocs where parts: "plan_parts r = Some (e, rcs, ocs)"
      and c: "cn_resource_changes c = map (\<lambda>(_, _, raw). raw)
          (sort_key (\<lambda>(a, d, _). (a, d)) (List.map_filter change_key rcs))"
        "cn_output_changes c = sort_key fst (List.map_filter output_key ocs)"
    using assms(2) by (auto simp: root_canon_of_Inr)
  have "list_all wf_json (cn_resource_changes c)" "list_all (\<lambda>(_, v). wf_json v) (cn_output_changes c)"
    using wf_plan_parts [OF assms(1) parts] unfolding c
    by (auto simp: list_all_iff List.map_filter_def change_key_def output_key_def intro!: wf_canonical
        split: option.splits if_splits)
  then show ?thesis by (simp add: canon_json_def)
qed

lemma canon_json_inject [simp]: "canon_json c = canon_json c' \<longleftrightarrow> c = c'"
  by (cases c; cases c') (auto simp: canon_json_def split: if_splits)


section \<open>What a set digest covers\<close>

lemma utf8_len_append [simp]: "utf8_len (a @ b) = utf8_len a + utf8_len b"
  by (simp add: utf8_len_def)

lemma utf8_len_0 [simp]: "utf8_len a = 0 \<longleftrightarrow> a = []"
  by (cases a) (auto simp: utf8_len_def)

lemma utf8_prefix: "utf8_len a = utf8_len b \<Longrightarrow> a @ x = b @ y \<Longrightarrow> a = b \<and> x = y"
  by (auto simp: append_eq_append_conv2)

lemma itoa_stop:
  assumes "itoa_nat m @ c # x = itoa_nat n @ c # y" "\<not> ascii_digit c"
  shows "m = n \<and> x = y"
proof -
  have *: "takeWhile ascii_digit (itoa_nat k @ c # z) = itoa_nat k" for k z
    using assms(2) itoa_nat_digits [of _ k] by (simp add: takeWhile_append)
  show ?thesis using * [of m x] * [of n y] assms(1) by auto
qed

lemma frame_prefix: "frame a @ x = frame b @ y \<Longrightarrow> a = b \<and> x = y"
proof -
  assume "frame a @ x = frame b @ y"
  then have "itoa_nat (utf8_len a) @ r_colon # (a @ x) = itoa_nat (utf8_len b) @ r_colon # (b @ y)"
    by (simp add: frame_def)
  then have "utf8_len a = utf8_len b" "a @ x = b @ y"
    using itoa_stop [of "utf8_len a" r_colon "a @ x" "utf8_len b" "b @ y"] by (auto simp: ascii_defs)
  then show ?thesis by (rule utf8_prefix)
qed

definition entry_frame :: "root_digest_entry \<Rightarrow> gostring" where
  "entry_frame e = frame (de_root e) @ frame (de_digest e) @ [10]"

lemma entry_frame_prefix:
  assumes "entry_frame e @ x = entry_frame e' @ y"
  shows "e = e' \<and> x = y"
proof -
  have *: "frame (de_root e) @ frame (de_digest e) @ 10 # x = frame (de_root e') @ frame (de_digest e') @ 10 # y"
    using assms by (simp add: entry_frame_def)
  note r = frame_prefix [OF *]
  note d = frame_prefix [OF conjunct2 [OF r]]
  show ?thesis using r d by (cases e, cases e') (simp only: root_digest_entry.select_convs list.inject simp_thms)
qed

lemma entry_frames_inject: "length es = length es' \<Longrightarrow>
    concat (map entry_frame es) = concat (map entry_frame es') \<Longrightarrow> es = es'"
  by (induction es es' rule: list_induct2) (auto dest: entry_frame_prefix)

lemma set_frames_Inr:
  assumes "sorted (map de_root es)"
  shows "set_frames prev es = Inr t \<longleftrightarrow> distinct (map de_root es) \<and> (es \<noteq> [] \<longrightarrow> prev \<noteq> Some (de_root (hd es)))
     \<and> t = concat (map entry_frame es)"
  using assms
proof (induction es arbitrary: prev t)
  case (Cons e es)
  have "de_root e \<notin> de_root ` set es \<longleftrightarrow> (es \<noteq> [] \<longrightarrow> de_root e \<noteq> de_root (hd es))"
    using Cons.prems by (cases es) force+
  then show ?case using Cons by (auto simp: try_bind_Inr_iff entry_frame_def)
qed auto

lemma SetDigest_Inr: "SetDigest sha es = Inr d \<longleftrightarrow> distinct (map de_root es)
    \<and> d = DigestPrefix @ sha (digestVersion @ [10] @ itoa_nat (length es) @ [10]
          @ concat (map entry_frame (sort_key de_root es)))"
  by (auto simp: SetDigest_def Let_def try_bind_Inr_iff set_frames_Inr distinct_map)

lemma sort_key_perm:
  assumes "mset xs = mset ys" "distinct (map f xs)"
  shows "sort_key f xs = sort_key f ys"
proof (rule sort_key_unique)
  have "mset (map f ys) = mset (map f xs)" using assms(1) by simp
  then show "distinct (map f (sort_key f ys))"
    using assms(2) by (metis mset_eq_imp_distinct_iff mset_map mset_sort)
  show "set (sort_key f ys) = set xs" using assms(1) by (metis mset_eq_setD set_sort)
qed (use assms in simp_all)

text \<open>The text the set digest hashes.\<close>

definition set_text :: "root_digest_entry list \<Rightarrow> gostring" where
  "set_text es = digestVersion @ [10] @ itoa_nat (length es) @ [10] @ concat (map entry_frame (sort_key de_root es))"

lemma set_text_iff:
  assumes "distinct (map de_root es)"
  shows "set_text es = set_text es' \<longleftrightarrow> mset es = mset es'"
proof
  assume "set_text es = set_text es'"
  then have "itoa_nat (length es) @ 10 # concat (map entry_frame (sort_key de_root es))
      = itoa_nat (length es') @ 10 # concat (map entry_frame (sort_key de_root es'))"
    by (simp add: set_text_def)
  then have "length es = length es'"
      "concat (map entry_frame (sort_key de_root es)) = concat (map entry_frame (sort_key de_root es'))"
    using itoa_stop [of "length es" 10 _ "length es'"] by (auto simp: ascii_defs)
  then have "sort_key de_root es = sort_key de_root es'" by (intro entry_frames_inject) simp_all
  then show "mset es = mset es'" by (metis mset_sort)
next
  assume e: "mset es = mset es'"
  then have "length es = length es'" by (rule mset_eq_length)
  then show "set_text es = set_text es'" using sort_key_perm [OF e assms] by (simp add: set_text_def)
qed

lemma RootDigest_Inr: "RootDigest sha r = Inr d \<longleftrightarrow>
    (\<exists>c. root_canon_of r = Inr c \<and> d = DigestPrefix @ sha (marshal (canon_json c)))"
  by (auto simp: RootDigest_def try_bind_Inr_iff)

lemma root_texts_inject:
  assumes "wf_plan r" "wf_plan r'" "root_canon_of r = Inr c" "root_canon_of r' = Inr c'"
  shows "marshal (canon_json c) = marshal (canon_json c') \<longleftrightarrow> c = c'"
  using marshal_inject [OF wf_canon_json [OF assms(1,3)] wf_canon_json [OF assms(2,4)]] by simp

definition digest_entry :: "(gostring \<Rightarrow> gostring) \<Rightarrow> root_plan \<Rightarrow> root_digest_entry" where
  "digest_entry sha r = \<lparr>de_root = rp_root r, de_digest = projr (RootDigest sha r)\<rparr>"

lemma document_entries_Inr:
  "document_entries sha rs byRoot es = Inr (m, es') \<Longrightarrow>
     es' = es @ map (digest_entry sha) rs \<and> list_all (\<lambda>r. \<not> isl (RootDigest sha r)) rs
     \<and> distinct (map rp_root rs) \<and> list_all (\<lambda>r. byRoot (rp_root r) = None) rs
     \<and> m = byRoot ++ map_of (map (\<lambda>r. (rp_root r, projr (RootDigest sha r))) rs)"
proof (induction rs arbitrary: byRoot es)
  case (Cons r rs)
  then obtain d where d: "RootDigest sha r = Inr d" "byRoot (rp_root r) = None"
      and rec: "document_entries sha rs (byRoot(rp_root r \<mapsto> d)) (es @ [\<lparr>de_root = rp_root r, de_digest = d\<rparr>]) = Inr (m, es')"
    by (auto simp: try_bind_Inr_iff split: if_splits)
  note IH = Cons.IH [OF rec]
  from IH have new: "rp_root r \<notin> rp_root ` set rs" by (auto simp: list_all_iff split: if_splits)
  then have "map_of (map (\<lambda>r. (rp_root r, projr (RootDigest sha r))) rs) (rp_root r) = None"
    by (auto simp: map_of_eq_None_iff image_image)
  then have "byRoot(rp_root r \<mapsto> d) ++ map_of (map (\<lambda>r. (rp_root r, projr (RootDigest sha r))) rs)
      = byRoot ++ (map_of (map (\<lambda>r. (rp_root r, projr (RootDigest sha r))) rs))(rp_root r \<mapsto> d)"
    by (auto simp: fun_eq_iff map_add_def split: option.split)
  moreover from IH have "m = byRoot(rp_root r \<mapsto> d) ++ map_of (map (\<lambda>r. (rp_root r, projr (RootDigest sha r))) rs)"
    by blast
  ultimately have "m = byRoot ++ map_of (map (\<lambda>r. (rp_root r, projr (RootDigest sha r))) (r # rs))"
    using d(1) by (simp only: list.map map_of.simps prod.sel sum.sel)
  moreover have "es' = es @ map (digest_entry sha) (r # rs)" "list_all (\<lambda>r. \<not> isl (RootDigest sha r)) (r # rs)"
    "distinct (map rp_root (r # rs))"
    using IH d(1) new by (simp_all add: digest_entry_def)
  moreover have "list_all (\<lambda>r. byRoot (rp_root r) = None) (r # rs)"
    using IH d(2) by (auto simp: list_all_iff split: if_splits)
  ultimately show ?case by blast
qed simp

lemma DocumentDigests_Inr:
  assumes "DocumentDigests sha doc = Inr (byRoot, d)"
  shows "list_all (\<lambda>r. \<not> isl (RootDigest sha r)) (sd_roots doc) \<and> distinct (map rp_root (sd_roots doc))
    \<and> byRoot = map_of (map (\<lambda>r. (rp_root r, projr (RootDigest sha r))) (sd_roots doc))
    \<and> SetDigest sha (map (digest_entry sha) (sd_roots doc)) = Inr d"
  using assms document_entries_Inr [of sha "sd_roots doc" Map.empty "[]"]
  by (auto simp: DocumentDigests_def try_bind_Inr_iff split: prod.splits)

text \<open>The texts hashed for the digests of a document.\<close>

definition hashed :: "(gostring \<Rightarrow> gostring) \<Rightarrow> set_document \<Rightarrow> gostring set" where
  "hashed sha doc = insert (set_text (map (digest_entry sha) (sd_roots doc)))
     {marshal (canon_json c) | c. Inr c \<in> root_canon_of ` set (sd_roots doc)}"

lemma same_canons:
  assumes "list_all (\<lambda>r. \<not> isl (RootDigest sha r)) (sd_roots doc)"
    "list_all (\<lambda>r. \<not> isl (RootDigest sha r)) (sd_roots doc')"
    "list_all wf_plan (sd_roots doc)" "list_all wf_plan (sd_roots doc')"
    "digest_entry sha ` set (sd_roots doc) \<subseteq> digest_entry sha ` set (sd_roots doc')"
    and inj: "inj_on sha (hashed sha doc \<union> hashed sha doc')"
  shows "root_canon_of ` set (sd_roots doc) \<subseteq> root_canon_of ` set (sd_roots doc')"
proof
  fix x assume "x \<in> root_canon_of ` set (sd_roots doc)"
  then obtain r where r: "r \<in> set (sd_roots doc)" "x = root_canon_of r" by blast
  with assms(5) obtain r' where r': "r' \<in> set (sd_roots doc')" "digest_entry sha r = digest_entry sha r'" by blast
  then obtain d where d: "RootDigest sha r = Inr d" "RootDigest sha r' = Inr d"
    using assms(1,2) r by (auto simp: digest_entry_def list_all_iff isl_def) (metis Inl_Inr_False obj_sumE sum.sel(2))
  then obtain c c' where c: "root_canon_of r = Inr c" "root_canon_of r' = Inr c'"
      "sha (marshal (canon_json c)) = sha (marshal (canon_json c'))"
    by (auto simp: RootDigest_Inr)
  moreover have "marshal (canon_json c) \<in> hashed sha doc" "marshal (canon_json c') \<in> hashed sha doc'"
    using r r' c by (force simp: hashed_def)+
  ultimately have "marshal (canon_json c) = marshal (canon_json c')" using inj by (auto dest: inj_onD)
  then have "c = c'" using root_texts_inject r r' c assms(3,4) by (metis list_all_iff)
  then show "x \<in> root_canon_of ` set (sd_roots doc')" using r r' c by force
qed

text \<open>
  Two plans of a root have one digest only if they change the same things: their canonical
  contents (the root and its estate, the status and error, and every resource and output change that
  is not a no-op) are equal, or the two different texts hashed are a collision of the hash.
\<close>

theorem root_digest_covers_changes:
  assumes "wf_plan r" "wf_plan r'" "RootDigest sha r = Inr d" "RootDigest sha r' = Inr d"
  shows "\<exists>c c'. root_canon_of r = Inr c \<and> root_canon_of r' = Inr c'
    \<and> (c = c' \<or> marshal (canon_json c) \<noteq> marshal (canon_json c')
          \<and> sha (marshal (canon_json c)) = sha (marshal (canon_json c')))"
  using assms root_texts_inject by (auto simp: RootDigest_Inr)

text \<open>
  The set digest is a digest of the set of entries: it does not depend on the order they are
  given in, and another list of entries has it only if it is a rearrangement of the same entries or
  the hash collides on the two framed texts; no choice of names makes two sets frame alike.
\<close>

theorem set_digest_binds:
  assumes "SetDigest sha es = Inr d"
  shows "(mset es' = mset es \<longrightarrow> SetDigest sha es' = Inr d)
    \<and> (SetDigest sha es' = Inr d \<longrightarrow> mset es' = mset es
          \<or> set_text es \<noteq> set_text es' \<and> sha (set_text es) = sha (set_text es'))"
proof -
  have dist: "distinct (map de_root es)" and d: "d = DigestPrefix @ sha (set_text es)"
    using assms by (auto simp: SetDigest_Inr set_text_def)
  have "SetDigest sha es' = Inr d" if e: "mset es' = mset es"
  proof -
    have "distinct (map de_root es')" using dist e by (metis mset_eq_imp_distinct_iff mset_map)
    then show ?thesis using set_text_iff [OF dist, of es'] e d by (auto simp: SetDigest_Inr set_text_def)
  qed
  moreover have "mset es' = mset es \<or> set_text es \<noteq> set_text es' \<and> sha (set_text es) = sha (set_text es')"
    if "SetDigest sha es' = Inr d"
    using that set_text_iff [OF dist, of es'] d by (auto simp: SetDigest_Inr set_text_def)
  ultimately show ?thesis by blast
qed

text \<open>
  C12. What approving a set digest approves: if two set plan documents have the same set digest and
  the hash does not collide on the texts hashed for them, they name the same roots, give each root
  the same digest, and each root of one makes exactly the changes the same root of the other makes.
\<close>

theorem approved_digest_fixes_changes:
  assumes "DocumentDigests sha doc = Inr (byRoot, d)" "DocumentDigests sha doc' = Inr (byRoot', d)"
    and "list_all wf_plan (sd_roots doc)" "list_all wf_plan (sd_roots doc')"
    and "inj_on sha (hashed sha doc \<union> hashed sha doc')"
  shows "byRoot = byRoot' \<and> mset (map rp_root (sd_roots doc)) = mset (map rp_root (sd_roots doc'))
    \<and> root_canon_of ` set (sd_roots doc) = root_canon_of ` set (sd_roots doc')"
proof -
  let ?es = "\<lambda>doc. map (digest_entry sha) (sd_roots doc)"
  note D = DocumentDigests_Inr [OF assms(1)] DocumentDigests_Inr [OF assms(2)]
  have dist: "distinct (map de_root (?es doc))" using D by (simp add: digest_entry_def comp_def)
  have "sha (set_text (?es doc)) = sha (set_text (?es doc'))"
    using D by (auto simp: SetDigest_Inr set_text_def)
  then have "set_text (?es doc) = set_text (?es doc')"
    by (rule inj_onD [OF assms(5)]) (simp_all add: hashed_def)
  then have es: "mset (?es doc) = mset (?es doc')" using set_text_iff [OF dist] by blast
  have roots: "mset (map rp_root (sd_roots doc)) = mset (map rp_root (sd_roots doc'))"
    using arg_cong [OF es, of "image_mset de_root"] by (simp add: digest_entry_def image_mset.compositionality comp_def)
  have as_map: "map (\<lambda>r. (rp_root r, projr (RootDigest sha r))) (sd_roots x)
      = map (\<lambda>e. (de_root e, de_digest e)) (?es x)" for x
    by (simp add: digest_entry_def comp_def)
  let ?f = "\<lambda>e. (de_root e, de_digest e)"
  have dist': "distinct (map de_root (?es doc'))" using D by (simp add: digest_entry_def comp_def)
  have fst: "map fst (map ?f es) = map de_root es" for es by simp
  have "set (map ?f (?es doc)) = set (map ?f (?es doc'))" using mset_eq_setD [OF es] by (simp only: set_map)
  then have "map_of (map ?f (?es doc)) = map_of (map ?f (?es doc'))"
    using dist dist' map_of_inject_set [of "map ?f (?es doc)" "map ?f (?es doc')"] unfolding fst by blast
  then have "byRoot = byRoot'" using D unfolding as_map by (simp only: simp_thms)
  moreover have "root_canon_of ` set (sd_roots doc) \<subseteq> root_canon_of ` set (sd_roots doc')"
    using same_canons [OF _ _ _ _ _ assms(5)] D assms(3,4) mset_eq_setD [OF es] by simp
  moreover have "root_canon_of ` set (sd_roots doc') \<subseteq> root_canon_of ` set (sd_roots doc)"
    using same_canons [of sha doc' doc] assms(5) D assms(3,4) mset_eq_setD [OF es] by (simp add: Un_commute)
  ultimately show ?thesis using roots by blast
qed

text \<open>
  C37. What may differ without moving a root's digest: a plan whose changes that are not no-ops are
  canonically the same, in whatever order and among whatever no-ops, has the same digest, as long as
  no two of those changes share an address and deposed key and no two outputs share a name.
\<close>

theorem root_digest_ignores_order_and_noops:
  assumes "RootDigest sha r = Inr d" "rp_plan r \<noteq> Some JNull" "plan' \<noteq> JNull"
    and "plan_parts r = Some (e, rcs, ocs)" "plan_parts (r\<lparr>rp_plan := Some plan'\<rparr>) = Some (e, rcs', ocs')"
    and "list_all (\<lambda>raw. change_head raw \<noteq> None) rcs'" "list_all (\<lambda>(_, raw). output_head raw \<noteq> None) ocs'"
    and "mset (List.map_filter change_key rcs) = mset (List.map_filter change_key rcs')"
    and "mset (List.map_filter output_key ocs) = mset (List.map_filter output_key ocs')"
    and "distinct (map (\<lambda>(a, d, _). (a, d)) (List.map_filter change_key rcs))"
    and "distinct (map fst (List.map_filter output_key ocs))"
  shows "RootDigest sha (r\<lparr>rp_plan := Some plan'\<rparr>) = Inr d"
proof -
  have plan: "rp_plan r \<noteq> None" using assms(4) by (auto simp: plan_parts_def split: option.splits)
  have changes: "sort_key (\<lambda>(a, d, _). (a, d)) (List.map_filter change_key rcs')
      = sort_key (\<lambda>(a, d, _). (a, d)) (List.map_filter change_key rcs)"
    using sort_key_perm [OF assms(8,10)] by simp
  have outputs: "sort_key fst (List.map_filter output_key ocs') = sort_key fst (List.map_filter output_key ocs)"
    using sort_key_perm [OF assms(9,11)] by simp
  obtain c where c: "root_canon_of r = Inr c" "d = DigestPrefix @ sha (marshal (canon_json c))"
    using assms(1) by (auto simp: RootDigest_Inr)
  then have "root_canon_of (r\<lparr>rp_plan := Some plan'\<rparr>) = Inr c"
    using assms(2-7) plan changes outputs by (auto simp: root_canon_of_Inr empty_canon_def)
  then show ?thesis using c(2) by (simp add: RootDigest_Inr)
qed

section \<open>A concrete set\<close>

definition demo_change :: "string \<Rightarrow> string \<Rightarrow> json" where
  "demo_change addr action = JObj [(S ''address'', JStr (S addr)),
     (S ''change'', JObj [(S ''actions'', JArr [JStr (S action)])])]"

definition demo_plan :: "json list \<Rightarrow> json" where
  "demo_plan rcs = JObj [(S ''errored'', JBool False), (S ''resource_changes'', JArr rcs)]"

definition demo_root :: "json list \<Rightarrow> root_plan" where
  "demo_root rcs = \<lparr>rp_root = S ''net'', rp_estate = S ''net'', rp_status = StatusPlanned, rp_error = [],
     rp_plan = Some (demo_plan rcs)\<rparr>"

lemmas demo_change_defs = demo_change_def demo_plan_def demo_root_def plan_parts_def struct_members_def
  bool_field_def array_field_def object_field_def string_field_def change_head_def actions_of_def
  action_name_def isNoOp_def change_key_def List.map_filter_simps

definition demo_rcs :: "json list" where
  "demo_rcs = [demo_change ''aws_vpc.a'' ''create'', demo_change ''aws_eip.b'' ''update'']"

definition demo_rcs' :: "json list" where
  "demo_rcs' = [demo_change ''aws_eip.b'' ''update'', demo_change ''aws_vpc.c'' ''no-op'', demo_change ''aws_vpc.a'' ''create'']"

lemma demo_parts:
  "plan_parts (demo_root rcs) = Some (False, rcs, [])"
  "plan_parts ((demo_root rcs)\<lparr>rp_plan := Some (demo_plan rcs')\<rparr>) = Some (False, rcs', [])"
  by (simp_all add: demo_change_defs)

lemma demo_heads: "list_all (\<lambda>raw. change_head raw \<noteq> None) demo_rcs"
    "list_all (\<lambda>raw. change_head raw \<noteq> None) demo_rcs'"
  by (simp_all add: demo_rcs_def demo_rcs'_def demo_change_defs)

lemma demo_keys: "List.map_filter change_key demo_rcs =
    [(S ''aws_vpc.a'', [], canonical (demo_change ''aws_vpc.a'' ''create'')),
     (S ''aws_eip.b'', [], canonical (demo_change ''aws_eip.b'' ''update''))]"
  "List.map_filter change_key demo_rcs' =
    [(S ''aws_eip.b'', [], canonical (demo_change ''aws_eip.b'' ''update'')),
     (S ''aws_vpc.a'', [], canonical (demo_change ''aws_vpc.a'' ''create''))]"
  by (simp_all add: demo_rcs_def demo_rcs'_def demo_change_defs)

lemma demo_digest: "\<exists>d. RootDigest sha (demo_root demo_rcs) = Inr d"
proof -
  have "rp_plan (demo_root demo_rcs) = Some (demo_plan demo_rcs)" "demo_plan demo_rcs \<noteq> JNull"
    by (simp_all add: demo_root_def demo_plan_def)
  then have "\<exists>c. root_canon_of (demo_root demo_rcs) = Inr c"
    using demo_parts(1) [of demo_rcs] demo_heads(1) unfolding root_canon_of_Inr by auto
  then show ?thesis by (auto simp: RootDigest_Inr)
qed

theorem root_digest_ignores_order_and_noops_witness:
  "\<exists>d. RootDigest (\<lambda>s. s) (demo_root demo_rcs) = Inr d \<and> RootDigest (\<lambda>s. s) (demo_root demo_rcs') = Inr d"
proof -
  obtain d where d: "RootDigest (\<lambda>s. s) (demo_root demo_rcs) = Inr d" using demo_digest by blast
  have "RootDigest (\<lambda>s. s) ((demo_root demo_rcs)\<lparr>rp_plan := Some (demo_plan demo_rcs')\<rparr>) = Inr d"
    by (rule root_digest_ignores_order_and_noops [OF d _ _ demo_parts(1) demo_parts(2) demo_heads(2)])
       (simp_all add: demo_keys demo_root_def demo_plan_def List.map_filter_simps)
  then show ?thesis using d by (auto simp: demo_root_def)
qed

theorem root_digest_covers_changes_witness:
  "\<exists>c. root_canon_of (demo_root demo_rcs) = Inr c"
  using root_digest_covers_changes [of "demo_root demo_rcs" "demo_root demo_rcs" "\<lambda>s. s"] demo_digest [of "\<lambda>s. s"]
  by (auto simp: demo_root_def demo_plan_def demo_rcs_def demo_change_def)

theorem set_digest_binds_witness:
  "\<exists>d. SetDigest (\<lambda>s. s) [\<lparr>de_root = S ''b'', de_digest = []\<rparr>, \<lparr>de_root = S ''a'', de_digest = []\<rparr>] = Inr d
     \<and> SetDigest (\<lambda>s. s) [\<lparr>de_root = S ''a'', de_digest = []\<rparr>, \<lparr>de_root = S ''b'', de_digest = []\<rparr>] = Inr d"
proof -
  let ?es = "[\<lparr>de_root = S ''b'', de_digest = []\<rparr>, \<lparr>de_root = S ''a'', de_digest = []\<rparr>]"
  obtain d where "SetDigest (\<lambda>s. s) ?es = Inr d" by (auto simp: SetDigest_Inr)
  then show ?thesis
    using set_digest_binds [of "\<lambda>s. s" ?es d "[\<lparr>de_root = S ''a'', de_digest = []\<rparr>, \<lparr>de_root = S ''b'', de_digest = []\<rparr>]"]
    by auto
qed

definition demo_set :: set_document where
  "demo_set = \<lparr>sd_roots = [demo_root demo_rcs]\<rparr>"

lemma demo_set_digest: "\<exists>byRoot d. DocumentDigests (\<lambda>s. s) demo_set = Inr (byRoot, d)"
proof -
  obtain d where "RootDigest (\<lambda>s. s) (demo_root demo_rcs) = Inr d" using demo_digest by blast
  then show ?thesis
    by (auto simp: DocumentDigests_def demo_set_def try_bind_Inr_iff SetDigest_Inr)
qed

theorem approved_digest_fixes_changes_witness:
  "\<exists>byRoot d. DocumentDigests (\<lambda>s. s) demo_set = Inr (byRoot, d) \<and> inj_on (\<lambda>s. s) (hashed (\<lambda>s. s) demo_set)"
proof -
  obtain byRoot d where "DocumentDigests (\<lambda>s. s) demo_set = Inr (byRoot, d)" using demo_set_digest by blast
  moreover from this have "byRoot = byRoot"
    using approved_digest_fixes_changes [of "\<lambda>s. s" demo_set byRoot d demo_set byRoot]
    by (auto simp: demo_set_def demo_root_def demo_plan_def demo_rcs_def demo_change_def)
  ultimately show ?thesis by auto
qed

end
