(* ===== verification/Waves.thy ===== *)
theory Waves
  imports SetDigest
begin

text \<open>
  Wave planning, \<open>internal/live/waves/split.go\<close> and \<open>build.go\<close>: a set of roots, each owning an
  estate and reading others, is ordered into waves so that no root lands before what it reads.

  Go's maps are HOL maps; the names of roots and estates are texts compared rune by rune, which is
  the byte order of their UTF-8.  Reading a root's configuration (\<open>LoadRoot\<close>) is a parameter.
\<close>

section \<open>Data\<close>

record wave_read =
  rd_estate :: gostring
  rd_from :: gostring

record wave_root =
  wr_root :: gostring
  wr_estate :: gostring
  wr_reads :: "wave_read list"

record edge =
  ed_reader :: gostring
  ed_producer :: gostring
  ed_estate :: gostring
  ed_from :: gostring

record wave =
  wv_number :: nat
  wv_canary :: bool
  wv_roots :: "gostring list"
  wv_edges :: "edge list"
  wv_digest :: gostring

record external_read =
  ex_root :: gostring
  ex_estate :: gostring
  ex_from :: gostring

record waves =
  ws_waves :: "wave list"
  ws_edges :: "edge list"
  ws_external :: "external_read list"
  ws_wave_of :: "gostring \<rightharpoonup> nat"

datatype split_error =
    RootWithoutDirectory
  | RootNamedTwice gostring
  | RootWithoutEstate gostring
  | EstateOwnedTwice gostring gostring gostring
  | UnknownCanary gostring
  | CanaryReadsOther gostring edge
  | ReadCycle "edge list"

section \<open>The roots by name and by estate\<close>

fun index_roots :: "wave_root list \<Rightarrow> (gostring \<rightharpoonup> wave_root) \<Rightarrow> (gostring \<rightharpoonup> gostring)
    \<Rightarrow> split_error + (gostring \<rightharpoonup> wave_root) \<times> (gostring \<rightharpoonup> gostring)" where
  "index_roots [] byRoot byEstate = Inr (byRoot, byEstate)"
| "index_roots (r # rs) byRoot byEstate =
     (if wr_root r = [] then Inl RootWithoutDirectory
      else if byRoot (wr_root r) \<noteq> None then Inl (RootNamedTwice (wr_root r))
      else if wr_estate r = [] then Inl (RootWithoutEstate (wr_root r))
      else (case byEstate (wr_estate r) of
          Some other \<Rightarrow> Inl (EstateOwnedTwice other (wr_root r) (wr_estate r))
        | None \<Rightarrow> index_roots rs (byRoot(wr_root r \<mapsto> r)) (byEstate(wr_estate r \<mapsto> wr_root r))))"

section \<open>The edges\<close>

text \<open>
  What the loop over the reads collects.  The code's \<open>readers\<close>, the reverse of \<open>producers\<close>, is
  filled and never read, and is left out.
\<close>

record edge_state =
  es_edges :: "edge list"
  es_external :: "external_read list"
  es_producers :: "gostring \<Rightarrow> gostring list"
  es_edge_for :: "gostring \<times> gostring \<rightharpoonup> edge"

fun add_reads :: "(gostring \<rightharpoonup> gostring) \<Rightarrow> gostring \<Rightarrow> wave_read list \<Rightarrow> edge_state \<Rightarrow> edge_state" where
  "add_reads byEstate name [] st = st"
| "add_reads byEstate name (rd # rds) st =
     (case byEstate (rd_estate rd) of
        None \<Rightarrow> add_reads byEstate name rds (st\<lparr>es_external := es_external st @
          [\<lparr>ex_root = name, ex_estate = rd_estate rd, ex_from = rd_from rd\<rparr>]\<rparr>)
      | Some producer \<Rightarrow>
          if producer = name then add_reads byEstate name rds st
          else if es_edge_for st (name, producer) \<noteq> None then add_reads byEstate name rds st
          else
            (let e = \<lparr>ed_reader = name, ed_producer = producer, ed_estate = rd_estate rd, ed_from = rd_from rd\<rparr>
             in add_reads byEstate name rds
                  (st\<lparr>es_edges := es_edges st @ [e],
                      es_producers := (es_producers st)(name := es_producers st name @ [producer]),
                      es_edge_for := (es_edge_for st)((name, producer) \<mapsto> e)\<rparr>)))"

definition sorted_reads :: "(gostring \<rightharpoonup> wave_root) \<Rightarrow> gostring \<Rightarrow> wave_read list" where
  "sorted_reads byRoot name = (case byRoot name of None \<Rightarrow> []
     | Some r \<Rightarrow> sort_key (\<lambda>rd. (rd_estate rd, rd_from rd)) (wr_reads r))"

fun add_edges :: "(gostring \<rightharpoonup> wave_root) \<Rightarrow> (gostring \<rightharpoonup> gostring) \<Rightarrow> gostring list \<Rightarrow> edge_state \<Rightarrow> edge_state" where
  "add_edges byRoot byEstate [] st = st"
| "add_edges byRoot byEstate (name # names) st =
     add_edges byRoot byEstate names (add_reads byEstate name (sorted_reads byRoot name) st)"

definition no_edges :: edge_state where
  "no_edges = \<lparr>es_edges = [], es_external = [], es_producers = (\<lambda>_. []), es_edge_for = Map.empty\<rparr>"

section \<open>The canaries\<close>

definition trim_space :: "unicode \<Rightarrow> gostring \<Rightarrow> gostring" where
  "trim_space u s = rev (dropWhile (isSpace u) (rev (dropWhile (isSpace u) s)))"

text \<open>The set of canary roots, as a list without repetition.\<close>

fun mark_canaries :: "unicode \<Rightarrow> (gostring \<rightharpoonup> wave_root) \<Rightarrow> (gostring \<rightharpoonup> gostring) \<Rightarrow> gostring list
    \<Rightarrow> gostring list \<Rightarrow> split_error + gostring list" where
  "mark_canaries u byRoot byEstate [] canary = Inr canary"
| "mark_canaries u byRoot byEstate (c # cs) canary =
     (let c = trim_space u c in
      if c = [] then mark_canaries u byRoot byEstate cs canary
      else if (case byRoot c of None \<Rightarrow> False | Some r \<Rightarrow> wr_root r \<noteq> [])
        then mark_canaries u byRoot byEstate cs (List.insert c canary)
      else (case byEstate c of
          Some r \<Rightarrow> if r \<noteq> [] then mark_canaries u byRoot byEstate cs (List.insert r canary) else Inl (UnknownCanary c)
        | None \<Rightarrow> Inl (UnknownCanary c)))"

text \<open>The first read of a canary, in order, that another canary does not own.\<close>

definition canary_read :: "edge_state \<Rightarrow> gostring list \<Rightarrow> (gostring \<times> gostring) option" where
  "canary_read st canary = List.find (\<lambda>(c, p). p \<notin> set canary)
     (concat (map (\<lambda>c. map (Pair c) (es_producers st c)) (sort canary)))"

section \<open>The search for a cycle\<close>

datatype mark = Unseen | OnPath | Done

record dfs =
  df_state :: "gostring \<Rightarrow> mark"
  df_path :: "gostring list"
  df_found :: "gostring list"

text \<open>
  The loop of \<open>visit\<close> over the producers of a root; \<open>visit_root\<close> is the recursive call.  A result
  is whether a cycle was found, and the state; \<open>None\<close> is a search that ran out of fuel.
\<close>

fun visit_producers :: "(gostring \<Rightarrow> dfs \<Rightarrow> (bool \<times> dfs) option) \<Rightarrow> gostring list \<Rightarrow> dfs \<Rightarrow> (bool \<times> dfs) option" where
  "visit_producers visit_root [] s = Some (False, s)"
| "visit_producers visit_root (p # ps) s =
     (case df_state s p of
        OnPath \<Rightarrow> if p \<in> set (df_path s)
          then Some (True, s\<lparr>df_found := dropWhile (\<lambda>m. m \<noteq> p) (df_path s) @ [p]\<rparr>)
          else visit_producers visit_root ps s
      | Unseen \<Rightarrow> (case visit_root p s of None \<Rightarrow> None
          | Some (found, s) \<Rightarrow> if found then Some (True, s) else visit_producers visit_root ps s)
      | Done \<Rightarrow> visit_producers visit_root ps s)"

fun visit :: "nat \<Rightarrow> (gostring \<Rightarrow> gostring list) \<Rightarrow> gostring \<Rightarrow> dfs \<Rightarrow> (bool \<times> dfs) option" where
  "visit 0 producers n s = None"
| "visit (Suc fuel) producers n s =
     (let s = s\<lparr>df_state := (df_state s)(n := OnPath), df_path := df_path s @ [n]\<rparr>
      in case visit_producers (visit fuel producers) (sort (producers n)) s of None \<Rightarrow> None
         | Some (found, s) \<Rightarrow>
             if found then Some (True, s)
             else Some (False, s\<lparr>df_path := butlast (df_path s), df_state := (df_state s)(n := Done)\<rparr>))"

fun search :: "nat \<Rightarrow> (gostring \<Rightarrow> gostring list) \<Rightarrow> gostring list \<Rightarrow> dfs \<Rightarrow> (bool \<times> dfs) option" where
  "search fuel producers [] s = Some (False, s)"
| "search fuel producers (n # ns) s =
     (if df_state s n = Unseen
      then (case visit fuel producers n s of None \<Rightarrow> None
        | Some (found, s) \<Rightarrow> if found then Some (True, s) else search fuel producers ns s)
      else search fuel producers ns s)"

definition findCycle :: "gostring list \<Rightarrow> (gostring \<Rightarrow> gostring list) \<Rightarrow> gostring list option option" where
  "findCycle names producers =
     (case search (Suc (length names)) producers names \<lparr>df_state = (\<lambda>_. Unseen), df_path = [], df_found = []\<rparr> of
        None \<Rightarrow> None
      | Some (found, s) \<Rightarrow> Some (if found then Some (df_found s) else None))"

section \<open>The numbers of the waves\<close>

text \<open>
  The recursive \<open>assign\<close>, which memoizes in \<open>WaveOf\<close>: the loop over the producers, with the
  recursive call as an argument, the wave number so far and the map.
\<close>

fun assign_producers :: "(gostring \<Rightarrow> (gostring \<rightharpoonup> nat) \<Rightarrow> (nat \<times> (gostring \<rightharpoonup> nat)) option)
    \<Rightarrow> gostring list \<Rightarrow> nat \<Rightarrow> (gostring \<rightharpoonup> nat) \<Rightarrow> (nat \<times> (gostring \<rightharpoonup> nat)) option" where
  "assign_producers assign_root [] w waveOf = Some (w, waveOf)"
| "assign_producers assign_root (p # ps) w waveOf =
     (case assign_root p waveOf of None \<Rightarrow> None
      | Some (pw, waveOf) \<Rightarrow> assign_producers assign_root ps (if pw + 1 > w then pw + 1 else w) waveOf)"

fun assign :: "nat \<Rightarrow> nat \<Rightarrow> (gostring \<Rightarrow> gostring list) \<Rightarrow> gostring \<Rightarrow> (gostring \<rightharpoonup> nat) \<Rightarrow> (nat \<times> (gostring \<rightharpoonup> nat)) option" where
  "assign 0 base producers n waveOf = None"
| "assign (Suc fuel) base producers n waveOf =
     (case waveOf n of Some w \<Rightarrow> Some (w, waveOf)
      | None \<Rightarrow>
        (case assign_producers (assign fuel base producers) (producers n) (base + 1) waveOf of None \<Rightarrow> None
         | Some (w, waveOf) \<Rightarrow> Some (w, waveOf(n \<mapsto> w))))"

fun assign_all :: "nat \<Rightarrow> nat \<Rightarrow> (gostring \<Rightarrow> gostring list) \<Rightarrow> gostring list \<Rightarrow> nat \<Rightarrow> (gostring \<rightharpoonup> nat)
    \<Rightarrow> (nat \<times> (gostring \<rightharpoonup> nat)) option" where
  "assign_all fuel base producers [] maxWave waveOf = Some (maxWave, waveOf)"
| "assign_all fuel base producers (n # ns) maxWave waveOf =
     (case assign fuel base producers n waveOf of None \<Rightarrow> None
      | Some (w, waveOf) \<Rightarrow> assign_all fuel base producers ns (if w > maxWave then w else maxWave) waveOf)"

text \<open>The loop that gathers the waves: \<open>k\<close> waves from number \<open>w\<close> on, empty ones left out.\<close>

definition wave_at :: "gostring list \<Rightarrow> edge list \<Rightarrow> (gostring \<rightharpoonup> nat) \<Rightarrow> nat \<Rightarrow> nat \<Rightarrow> wave" where
  "wave_at names edges waveOf base w =
     \<lparr>wv_number = w, wv_canary = (w = 1 \<and> base = 1),
      wv_roots = filter (\<lambda>n. waveOf n = Some w) names,
      wv_edges = filter (\<lambda>e. waveOf (ed_reader e) = Some w \<and> waveOf (ed_producer e) = Some w) edges,
      wv_digest = []\<rparr>"

definition gather_waves :: "gostring list \<Rightarrow> edge list \<Rightarrow> (gostring \<rightharpoonup> nat) \<Rightarrow> nat \<Rightarrow> nat \<Rightarrow> wave list" where
  "gather_waves names edges waveOf base maxWave =
     filter (\<lambda>wv. wv_roots wv \<noteq> []) (map (wave_at names edges waveOf base) [1..<Suc maxWave])"

text \<open>The last loop numbers the waves that are left from 1 and their roots with them.\<close>

fun mark_roots :: "nat \<Rightarrow> gostring list \<Rightarrow> (gostring \<rightharpoonup> nat) \<Rightarrow> (gostring \<rightharpoonup> nat)" where
  "mark_roots w [] waveOf = waveOf"
| "mark_roots w (n # ns) waveOf = mark_roots w ns (waveOf(n \<mapsto> w))"

fun renumber :: "nat \<Rightarrow> wave list \<Rightarrow> (gostring \<rightharpoonup> nat) \<Rightarrow> wave list \<times> (gostring \<rightharpoonup> nat)" where
  "renumber i [] waveOf = ([], waveOf)"
| "renumber i (wv # wvs) waveOf =
     (let (wvs, waveOf) = renumber (Suc i) wvs (mark_roots (Suc i) (wv_roots wv) waveOf)
      in (wv\<lparr>wv_number := Suc i\<rparr> # wvs, waveOf))"

section \<open>The split\<close>

text \<open>The edges of a cycle, from each root of it to the next.\<close>

fun cycle_edges :: "(gostring \<times> gostring \<rightharpoonup> edge) \<Rightarrow> gostring list \<Rightarrow> edge list" where
  "cycle_edges edgeFor (a # b # ns) = the (edgeFor (a, b)) # cycle_edges edgeFor (b # ns)"
| "cycle_edges edgeFor ns = []"

text \<open>The part of \<open>Split\<close> after the checks: from the edges and the canaries to the waves.\<close>

definition number_waves :: "gostring list \<Rightarrow> edge_state \<Rightarrow> gostring list \<Rightarrow> waves option" where
  "number_waves names st canary =
     (let base = (if canary = [] then 0 else 1) in
      case assign_all (Suc (length names)) base (es_producers st) names base (\<lambda>n. if n \<in> set canary then Some 1 else None) of
        None \<Rightarrow> None
      | Some (maxWave, waveOf) \<Rightarrow>
          (let (wvs, waveOf) = renumber 0 (gather_waves names (es_edges st) waveOf base maxWave) waveOf
           in Some \<lparr>ws_waves = wvs, ws_edges = es_edges st, ws_external = es_external st, ws_wave_of = waveOf\<rparr>))"

definition Split :: "unicode \<Rightarrow> wave_root list \<Rightarrow> gostring list \<Rightarrow> (split_error + waves) option" where
  "Split u roots canaries =
     (case index_roots roots Map.empty Map.empty of Inl e \<Rightarrow> Some (Inl e)
      | Inr (byRoot, byEstate) \<Rightarrow>
        (let names = sort (map wr_root roots);
             st = add_edges byRoot byEstate names no_edges
         in case mark_canaries u byRoot byEstate canaries [] of Inl e \<Rightarrow> Some (Inl e)
            | Inr canary \<Rightarrow>
              (case canary_read st canary of
                 Some (c, p) \<Rightarrow> Some (Inl (CanaryReadsOther c (the (es_edge_for st (c, p)))))
               | None \<Rightarrow>
                 (case findCycle names (es_producers st) of None \<Rightarrow> None
                  | Some (Some cycle) \<Rightarrow> Some (Inl (ReadCycle (cycle_edges (es_edge_for st) cycle)))
                  | Some None \<Rightarrow> map_option Inr (number_waves names st canary)))))"

section \<open>The digests of the waves\<close>

datatype wave_error =
    SplitErr split_error
  | DigestErr digest_error
  | NoPlanForRoot gostring nat
  | NoRootsToSplit
  | RootsDiffer "gostring list" "gostring list"
  | LoadFailed gostring
  | EstateDiffers gostring gostring gostring

fun wave_entries :: "(gostring \<rightharpoonup> gostring) \<Rightarrow> nat \<Rightarrow> gostring list \<Rightarrow> wave_error + root_digest_entry list" where
  "wave_entries byRoot w [] = Inr []"
| "wave_entries byRoot w (r # rs) = (case byRoot r of None \<Rightarrow> Inl (NoPlanForRoot r w)
     | Some d \<Rightarrow> try_bind (wave_entries byRoot w rs) (\<lambda>es. Inr (\<lparr>de_root = r, de_digest = d\<rparr> # es)))"

fun attach_digests :: "(gostring \<Rightarrow> gostring) \<Rightarrow> (gostring \<rightharpoonup> gostring) \<Rightarrow> wave list \<Rightarrow> wave_error + wave list" where
  "attach_digests sha256 byRoot [] = Inr []"
| "attach_digests sha256 byRoot (wv # wvs) =
     try_bind (wave_entries byRoot (wv_number wv) (wv_roots wv)) (\<lambda>entries.
       (case SetDigest sha256 entries of Inl e \<Rightarrow> Inl (DigestErr e)
        | Inr d \<Rightarrow> try_bind (attach_digests sha256 byRoot wvs) (\<lambda>wvs. Inr (wv\<lparr>wv_digest := d\<rparr> # wvs))))"

definition AttachDigests :: "(gostring \<Rightarrow> gostring) \<Rightarrow> (gostring \<rightharpoonup> gostring) \<Rightarrow> waves \<Rightarrow> wave_error + waves" where
  "AttachDigests sha256 byRoot w =
     try_bind (attach_digests sha256 byRoot (ws_waves w)) (\<lambda>wvs. Inr (w\<lparr>ws_waves := wvs\<rparr>))"

end
