(* ===== verification/ReadGraph.thy ===== *)
theory ReadGraph
  imports Waves
begin

text \<open>
  The two searches of wave planning over a graph of reads: the search for a cycle and the
  numbering.  The interface \<open>read_graph\<close> is what they rely on, that a root of the set only reads
  roots of the set; under it the fuel given is enough, a reported cycle is one, and without a cycle
  there is an order that puts every root after what it reads.
\<close>

section \<open>Paths, cycles and orders\<close>

definition reads_path :: "('a \<Rightarrow> 'a list) \<Rightarrow> 'a list \<Rightarrow> bool" where
  "reads_path producers = successively (\<lambda>a b. b \<in> set (producers a))"

definition reads_cycle :: "('a \<Rightarrow> 'a list) \<Rightarrow> 'a list \<Rightarrow> bool" where
  "reads_cycle producers c \<longleftrightarrow> 2 \<le> length c \<and> hd c = last c \<and> reads_path producers c"

definition producers_first :: "('a \<Rightarrow> 'a list) \<Rightarrow> 'a list \<Rightarrow> bool" where
  "producers_first producers L \<longleftrightarrow> (\<forall>xs n ys. L = xs @ n # ys \<longrightarrow> set (producers n) \<subseteq> set xs)"

lemma producers_first_Nil [simp]: "producers_first producers []"
  by (simp add: producers_first_def)

lemma producers_first_snoc [simp]:
  "producers_first producers (L @ [n]) \<longleftrightarrow> producers_first producers L \<and> set (producers n) \<subseteq> set L"
proof
  assume first: "producers_first producers (L @ [n])"
  then have "set (producers n) \<subseteq> set L" unfolding producers_first_def by blast
  moreover have "set (producers m) \<subseteq> set xs" if "L = xs @ m # ys" for xs m ys
    using first that unfolding producers_first_def by (metis append.assoc append_Cons)
  ultimately show "producers_first producers L \<and> set (producers n) \<subseteq> set L"
    unfolding producers_first_def by blast
next
  assume *: "producers_first producers L \<and> set (producers n) \<subseteq> set L"
  show "producers_first producers (L @ [n])" unfolding producers_first_def
  proof (intro allI impI)
    fix xs m ys assume e: "L @ [n] = xs @ m # ys"
    show "set (producers m) \<subseteq> set xs"
    proof (cases ys rule: rev_cases)
      case Nil
      then show ?thesis using e * by simp
    next
      case (snoc ys' y)
      then have "L = xs @ m # ys'" using e by simp
      then show ?thesis using * unfolding producers_first_def by blast
    qed
  qed
qed

text \<open>The position of a root in such an order.\<close>

definition position :: "'a list \<Rightarrow> 'a \<Rightarrow> nat" where
  "position L n = length (takeWhile (\<lambda>m. m \<noteq> n) L)"

lemma position_less: "n \<in> set L \<Longrightarrow> position L n < length L"
  unfolding position_def by (induction L) auto

lemma position_producer:
  assumes "producers_first producers L" "n \<in> set L" "p \<in> set (producers n)"
  shows "p \<in> set L \<and> position L p < position L n"
proof -
  obtain xs ys where L: "L = xs @ n # ys" "n \<notin> set xs" using assms(2) by (metis split_list_first)
  then have p: "p \<in> set xs" using assms(1,3) unfolding producers_first_def by blast
  have "position L n = length xs" using L by (simp add: position_def)
  moreover have "position L p < length xs"
    using position_less [OF p] p L by (simp add: position_def takeWhile_append1)
  ultimately show ?thesis using p L by simp
qed

lemma no_cycle:
  assumes "producers_first producers L" "reads_cycle producers c" "hd c \<in> set L"
  shows False
proof -
  have "reads_path producers c \<Longrightarrow> hd c \<in> set L \<Longrightarrow> c \<noteq> [] \<Longrightarrow>
      successively (\<lambda>a b. position L b < position L a) c" for c
    unfolding reads_path_def
  proof (induction c rule: induct_list012)
    case (3 a b c)
    then show ?case using position_producer [OF assms(1)] by auto
  qed auto
  then have "successively (\<lambda>a b. position L b < position L a) c"
    using assms(2,3) by (cases "c = []") (auto simp: reads_cycle_def)
  then have "sorted_wrt (\<lambda>a b. position L b < position L a) c"
    by (subst (asm) successively_conv_sorted_wrt) (auto intro: transpI)
  moreover obtain a b c' where "c = a # b # c'"
    using assms(2) by (cases c rule: remdups_adj.cases) (auto simp: reads_cycle_def)
  ultimately have "position L (last c) < position L (hd c)" by auto
  then show False using assms(2) by (simp add: reads_cycle_def)
qed

section \<open>The search for a cycle\<close>

definition dfs_ok :: "gostring list \<Rightarrow> (gostring \<Rightarrow> gostring list) \<Rightarrow> dfs \<Rightarrow> gostring list \<Rightarrow> bool" where
  "dfs_ok names producers s L \<longleftrightarrow>
     set (df_path s) = {n. df_state s n = OnPath} \<and> distinct (df_path s) \<and> set (df_path s) \<subseteq> set names
     \<and> reads_path producers (df_path s)
     \<and> set L = {n. df_state s n = Done} \<and> set L \<subseteq> set names \<and> distinct L \<and> producers_first producers L"

text \<open>What a visit that started from \<open>s\<close> with the roots of \<open>L\<close> done comes to.\<close>

definition visited :: "gostring list \<Rightarrow> (gostring \<Rightarrow> gostring list) \<Rightarrow> dfs \<Rightarrow> gostring list \<Rightarrow> gostring list
    \<Rightarrow> (bool \<times> dfs) option \<Rightarrow> bool" where
  "visited names producers s L ns res \<longleftrightarrow>
     (\<exists>s'. res = Some (True, s') \<and> reads_cycle producers (df_found s') \<and> hd (df_found s') \<in> set names)
     \<or> (\<exists>s' L'. res = Some (False, s') \<and> dfs_ok names producers s' L' \<and> set L \<subseteq> set L'
          \<and> df_path s' = df_path s \<and> set ns \<subseteq> set L')"

lemma reads_path_snoc: "reads_path producers (path @ [n]) \<longleftrightarrow>
    reads_path producers path \<and> (path = [] \<or> n \<in> set (producers (last path)))"
  by (auto simp: reads_path_def successively_append_iff)

lemma visited_cycle:
  assumes "dfs_ok names producers s L" "p \<in> set (df_path s)" "p \<in> set (producers (last (df_path s)))"
  shows "reads_cycle producers (dropWhile (\<lambda>m. m \<noteq> p) (df_path s) @ [p])
    \<and> hd (dropWhile (\<lambda>m. m \<noteq> p) (df_path s) @ [p]) \<in> set names"
proof -
  obtain xs ys where path: "df_path s = xs @ p # ys" "p \<notin> set xs"
    using assms(2) by (metis split_list_first)
  then have d: "dropWhile (\<lambda>m. m \<noteq> p) (df_path s) = p # ys" by simp
  have "reads_path producers (p # ys)" "p \<in> set names"
    using assms(1) path by (auto simp: dfs_ok_def reads_path_def successively_append_iff)
  moreover have "last (p # ys) = last (df_path s)" using path by simp
  ultimately show ?thesis
    using assms(3) reads_path_snoc [of producers "p # ys" p] unfolding d by (auto simp: reads_cycle_def)
qed

locale read_graph =
  fixes names :: "gostring list" and producers :: "gostring \<Rightarrow> gostring list"
  assumes producers_in: "n \<in> set names \<Longrightarrow> set (producers n) \<subseteq> set names"
begin

lemma visit_producers_visited:
  assumes "\<And>p s L. dfs_ok names producers s L \<Longrightarrow> df_state s p = Unseen \<Longrightarrow> p \<in> set names
      \<Longrightarrow> df_path s = path \<Longrightarrow> p \<in> set (producers (last path)) \<Longrightarrow> visited names producers s L [p] (visit_root p s)"
    and "dfs_ok names producers s L" "df_path s = path" "path \<noteq> []"
    and "set ps \<subseteq> set (producers (last path))" "set ps \<subseteq> set names"
  shows "visited names producers s L ps (visit_producers visit_root ps s)"
  using assms(2-)
proof (induction ps arbitrary: s L)
  case Nil
  then show ?case by (auto simp: visited_def)
next
  case (Cons p ps)
  show ?case
  proof (cases "df_state s p")
    case Unseen
    then have "visited names producers s L [p] (visit_root p s)" using assms(1) Cons.prems by simp
    then consider s' where "visit_root p s = Some (True, s')" "reads_cycle producers (df_found s')"
        "hd (df_found s') \<in> set names"
      | s' L' where "visit_root p s = Some (False, s')" "dfs_ok names producers s' L'" "set L \<subseteq> set L'"
        "df_path s' = df_path s" "p \<in> set L'"
      by (auto simp: visited_def)
    then show ?thesis
    proof cases
      case 1
      then show ?thesis using Unseen by (auto simp: visited_def)
    next
      case 2
      then have "visited names producers s' L' ps (visit_producers visit_root ps s')"
        using Cons.IH [of s' L'] Cons.prems by simp
      then show ?thesis using 2 Unseen by (fastforce simp: visited_def)
    qed
  next
    case OnPath
    then have "p \<in> set (df_path s)" using Cons.prems(1) by (simp add: dfs_ok_def)
    then show ?thesis using OnPath visited_cycle [OF Cons.prems(1)] Cons.prems by (simp add: visited_def)
  next
    case Done
    then have "p \<in> set L" using Cons.prems(1) by (simp add: dfs_ok_def)
    then show ?thesis using Done Cons.IH [of s L] Cons.prems by (fastforce simp: visited_def)
  qed
qed

lemma visit_visited:
  assumes "dfs_ok names producers s L" "df_state s n = Unseen" "n \<in> set names"
    and "df_path s = [] \<or> n \<in> set (producers (last (df_path s)))"
    and "length names < fuel + length (df_path s)"
  shows "visited names producers s L [n] (visit fuel producers n s)"
  using assms
proof (induction fuel arbitrary: n s L)
  case 0
  have "length (df_path s) \<le> length names"
  proof -
    have "length (df_path s) = card (set (df_path s))"
      using 0(1) distinct_card [of "df_path s"] by (simp only: dfs_ok_def)
    also have "\<dots> \<le> card (set names)" using 0(1) by (intro card_mono) (auto simp: dfs_ok_def)
    also have "\<dots> \<le> length names" by (rule card_length)
    finally show ?thesis .
  qed
  then show ?case using 0(5) by simp
next
  case (Suc fuel)
  let ?s = "s\<lparr>df_state := (df_state s)(n := OnPath), df_path := df_path s @ [n]\<rparr>"
  have new: "n \<notin> set (df_path s)" "n \<notin> set L" using Suc.prems(1,2) by (auto simp: dfs_ok_def)
  have ok: "dfs_ok names producers ?s L"
    using Suc.prems new by (auto simp: dfs_ok_def reads_path_snoc)
  have "visited names producers ?s L (sort (producers n))
      (visit_producers (visit fuel producers) (sort (producers n)) ?s)"
  proof (rule visit_producers_visited [OF _ ok refl])
    fix p s' L'
    assume "dfs_ok names producers s' L'" "df_state s' p = Unseen" "p \<in> set names"
      "df_path s' = df_path ?s" "p \<in> set (producers (last (df_path ?s)))"
    then show "visited names producers s' L' [p] (visit fuel producers p s')"
      using Suc.prems(5) by (intro Suc.IH) auto
  qed (use producers_in [OF Suc.prems(3)] in auto)
  then consider s' where "visit_producers (visit fuel producers) (sort (producers n)) ?s = Some (True, s')"
      "reads_cycle producers (df_found s')" "hd (df_found s') \<in> set names"
    | s' L' where "visit_producers (visit fuel producers) (sort (producers n)) ?s = Some (False, s')"
      "dfs_ok names producers s' L'" "set L \<subseteq> set L'" "df_path s' = df_path ?s" "set (producers n) \<subseteq> set L'"
    by (auto simp: visited_def)
  then show ?case
  proof cases
    case 1
    then show ?thesis by (auto simp: visited_def Let_def)
  next
    case 2
    let ?r = "s'\<lparr>df_path := butlast (df_path s'), df_state := (df_state s')(n := Done)\<rparr>"
    have "n \<in> set (df_path s')" using 2(4) by simp
    then have on: "df_state s' n = OnPath" using 2(2) unfolding dfs_ok_def by blast
    then have "n \<notin> set L'" using 2(2) by (simp add: dfs_ok_def)
    then have "dfs_ok names producers ?r (L' @ [n])"
      using 2(2,4,5) new Suc.prems(3) by (auto simp: dfs_ok_def reads_path_snoc)
    then show ?thesis using 2 by (auto simp: visited_def Let_def intro!: exI [of _ "L' @ [n]"])
  qed
qed

lemma search_visited:
  assumes "dfs_ok names producers s L" "df_path s = []" "set ns \<subseteq> set names" "length names < fuel"
  shows "visited names producers s L ns (search fuel producers ns s)"
  using assms
proof (induction ns arbitrary: s L)
  case Nil
  then show ?case by (auto simp: visited_def)
next
  case (Cons n ns)
  show ?case
  proof (cases "df_state s n = Unseen")
    case True
    then have "visited names producers s L [n] (visit fuel producers n s)"
      using Cons.prems by (intro visit_visited) auto
    then consider s' where "visit fuel producers n s = Some (True, s')" "reads_cycle producers (df_found s')"
        "hd (df_found s') \<in> set names"
      | s' L' where "visit fuel producers n s = Some (False, s')" "dfs_ok names producers s' L'" "set L \<subseteq> set L'"
        "df_path s' = df_path s" "n \<in> set L'"
      by (auto simp: visited_def)
    then show ?thesis
    proof cases
      case 1
      then show ?thesis using True by (auto simp: visited_def)
    next
      case 2
      then have "visited names producers s' L' ns (search fuel producers ns s')"
        using Cons.IH [of s' L'] Cons.prems by simp
      then show ?thesis using 2 True by (fastforce simp: visited_def)
    qed
  next
    case False
    have "df_state s n \<noteq> OnPath" using Cons.prems(1,2) by (auto simp: dfs_ok_def)
    then have "n \<in> set L" using False Cons.prems(1) by (cases "df_state s n") (auto simp: dfs_ok_def)
    then show ?thesis using False Cons.IH [of s L] Cons.prems by (fastforce simp: visited_def)
  qed
qed

lemma findCycle_cases:
  obtains c where "findCycle names producers = Some (Some c)" "reads_cycle producers c" "hd c \<in> set names"
  | L where "findCycle names producers = Some None" "distinct L" "set L = set names" "producers_first producers L"
proof -
  let ?s = "\<lparr>df_state = (\<lambda>_. Unseen), df_path = [], df_found = []\<rparr>"
  have "visited names producers ?s [] names (search (Suc (length names)) producers names ?s)"
    by (rule search_visited) (simp_all add: dfs_ok_def reads_path_def)
  then show thesis
    using that by (auto simp: visited_def findCycle_def dfs_ok_def)
qed

text \<open>The search is total and reports a cycle exactly when there is one through the set.\<close>

lemma findCycle_None_iff:
  "findCycle names producers = Some None \<longleftrightarrow> (\<nexists>c. reads_cycle producers c \<and> hd c \<in> set names)"
  by (rule findCycle_cases) (use no_cycle in \<open>fastforce+\<close>)

end

section \<open>The numbering\<close>

text \<open>
  A partial numbering is right when the canaries are 1 and every other numbered root is one after
  the latest of what it reads, and after the canary wave.
\<close>

definition wave_number :: "nat \<Rightarrow> (gostring \<Rightarrow> gostring list) \<Rightarrow> (gostring \<rightharpoonup> nat) \<Rightarrow> gostring \<Rightarrow> nat" where
  "wave_number base producers waveOf n = Max (insert (base + 1) ((\<lambda>p. the (waveOf p) + 1) ` set (producers n)))"

definition numbering :: "nat \<Rightarrow> gostring set \<Rightarrow> (gostring \<Rightarrow> gostring list) \<Rightarrow> (gostring \<rightharpoonup> nat) \<Rightarrow> bool" where
  "numbering base canary producers waveOf \<longleftrightarrow> (\<forall>c \<in> canary. waveOf c = Some 1)
     \<and> (\<forall>n w. waveOf n = Some w \<and> n \<notin> canary \<longrightarrow>
          set (producers n) \<subseteq> dom waveOf \<and> w = wave_number base producers waveOf n)"

lemma wave_number_cong:
  "(\<And>p. p \<in> set (producers n) \<Longrightarrow> waveOf p = waveOf' p) \<Longrightarrow>
     wave_number base producers waveOf n = wave_number base producers waveOf' n"
  by (simp add: wave_number_def cong: image_cong)

lemma numbering_extend:
  assumes "numbering base canary producers waveOf" "set (producers n) \<subseteq> dom waveOf" "n \<notin> canary"
    and "w = wave_number base producers waveOf n"
  shows "numbering base canary producers (waveOf(n \<mapsto> w)) \<and> waveOf \<subseteq>\<^sub>m waveOf(n \<mapsto> w)"
proof -
  have same: "waveOf(n \<mapsto> w) = waveOf" if "n \<in> dom waveOf"
    using that assms by (auto simp: numbering_def fun_upd_idem_iff)
  show ?thesis
  proof (cases "n \<in> dom waveOf")
    case True
    then show ?thesis using same assms(1) by simp
  next
    case False
    have *: "wave_number base producers (waveOf(n \<mapsto> w)) m = wave_number base producers waveOf m"
      if "set (producers m) \<subseteq> dom waveOf" for m
      using that False by (intro wave_number_cong) auto
    have "waveOf \<subseteq>\<^sub>m waveOf(n \<mapsto> w)" using False by (auto simp: map_le_def)
    moreover have "numbering base canary producers (waveOf(n \<mapsto> w))"
      unfolding numbering_def
    proof (intro conjI allI impI ballI)
      fix c assume "c \<in> canary"
      then show "(waveOf(n \<mapsto> w)) c = Some 1" using assms(1,3) by (auto simp: numbering_def)
    next
      fix m v assume m: "(waveOf(n \<mapsto> w)) m = Some v \<and> m \<notin> canary"
      have p: "set (producers m) \<subseteq> dom waveOf" "v = wave_number base producers waveOf m"
        using m assms by (auto simp: numbering_def split: if_splits)
      then show "set (producers m) \<subseteq> dom (waveOf(n \<mapsto> w))" by auto
      show "v = wave_number base producers (waveOf(n \<mapsto> w)) m" using * [OF p(1)] p(2) by simp
    qed
    ultimately show ?thesis by blast
  qed
qed

text \<open>What numbering one root from a right numbering comes to.\<close>

definition numbered :: "nat \<Rightarrow> gostring set \<Rightarrow> (gostring \<Rightarrow> gostring list) \<Rightarrow> gostring list \<Rightarrow> (gostring \<rightharpoonup> nat)
    \<Rightarrow> gostring \<Rightarrow> (nat \<times> (gostring \<rightharpoonup> nat)) option \<Rightarrow> bool" where
  "numbered base canary producers L waveOf n res \<longleftrightarrow>
     (\<exists>w waveOf'. res = Some (w, waveOf') \<and> numbering base canary producers waveOf' \<and> waveOf \<subseteq>\<^sub>m waveOf'
        \<and> waveOf' n = Some w \<and> dom waveOf' \<subseteq> dom waveOf \<union> set L)"

lemma assign_producers_numbered:
  assumes "\<And>p waveOf. p \<in> set ps \<Longrightarrow> numbering base canary producers waveOf
      \<Longrightarrow> numbered base canary producers L waveOf p (assign_root p waveOf)"
    and "numbering base canary producers waveOf"
  shows "\<exists>waveOf'. assign_producers assign_root ps w waveOf =
        Some (Max (insert w ((\<lambda>p. the (waveOf' p) + 1) ` set ps)), waveOf')
      \<and> numbering base canary producers waveOf' \<and> waveOf \<subseteq>\<^sub>m waveOf' \<and> set ps \<subseteq> dom waveOf'
      \<and> dom waveOf' \<subseteq> dom waveOf \<union> set L"
  using assms
proof (induction ps arbitrary: w waveOf)
  case Nil
  then show ?case by simp
next
  case (Cons p ps)
  obtain pw waveOf1 where step: "assign_root p waveOf = Some (pw, waveOf1)"
      and ok: "numbering base canary producers waveOf1" "waveOf \<subseteq>\<^sub>m waveOf1" "waveOf1 p = Some pw"
        "dom waveOf1 \<subseteq> dom waveOf \<union> set L"
    using Cons.prems(1) [of p waveOf] Cons.prems(2) by (auto simp: numbered_def)
  let ?w = "if pw + 1 > w then pw + 1 else w"
  obtain waveOf' where IH: "assign_producers assign_root ps ?w waveOf1 =
        Some (Max (insert ?w ((\<lambda>p. the (waveOf' p) + 1) ` set ps)), waveOf')"
      "numbering base canary producers waveOf'" "waveOf1 \<subseteq>\<^sub>m waveOf'" "set ps \<subseteq> dom waveOf'"
      "dom waveOf' \<subseteq> dom waveOf1 \<union> set L"
    using Cons.IH [of waveOf1 ?w] Cons.prems(1) ok(1) by auto
  have p: "waveOf' p = Some pw" using IH(3) ok(3) by (auto simp: map_le_def dom_def)
  have "Max (insert ?w ((\<lambda>p. the (waveOf' p) + 1) ` set ps))
      = Max (insert w ((\<lambda>p. the (waveOf' p) + 1) ` set (p # ps)))"
    using p by (cases "ps = []") (auto simp: max_def)
  moreover have "dom waveOf' \<subseteq> dom waveOf \<union> set L" using IH(5) ok(4) by blast
  moreover have "waveOf \<subseteq>\<^sub>m waveOf'" using ok(2) IH(3) by (rule map_le_trans)
  ultimately show ?case
    using step IH(1,2,4) p by (intro exI [of _ waveOf']) auto
qed

lemma assign_numbered:
  assumes "producers_first producers L" "n \<in> set L" "position L n < fuel" "numbering base canary producers waveOf"
    and "canary \<subseteq> dom waveOf"
  shows "numbered base canary producers L waveOf n (assign fuel base producers n waveOf)"
  using assms(2-)
proof (induction fuel arbitrary: n waveOf)
  case (Suc fuel)
  show ?case
  proof (cases "waveOf n")
    case (Some w)
    then show ?thesis using Suc.prems(3) by (auto simp: numbered_def)
  next
    case None
    then have nc: "n \<notin> canary" using Suc.prems(4) by auto
    have "numbered base canary producers L waveOf' p (assign fuel base producers p waveOf')"
      if "p \<in> set (producers n)" "numbering base canary producers waveOf'" for p waveOf'
      using that Suc.IH [of p waveOf'] Suc.prems(2) position_producer [OF assms(1) Suc.prems(1) that(1)]
      by (auto simp: numbering_def)
    from assign_producers_numbered [OF this Suc.prems(3)]
    obtain waveOf' where step: "assign_producers (assign fuel base producers) (producers n) (base + 1) waveOf =
          Some (Max (insert (base + 1) ((\<lambda>p. the (waveOf' p) + 1) ` set (producers n))), waveOf')"
        and ok: "numbering base canary producers waveOf'" "waveOf \<subseteq>\<^sub>m waveOf'" "set (producers n) \<subseteq> dom waveOf'"
          "dom waveOf' \<subseteq> dom waveOf \<union> set L"
      by blast
    let ?w = "wave_number base producers waveOf' n"
    have "numbering base canary producers (waveOf'(n \<mapsto> ?w)) \<and> waveOf' \<subseteq>\<^sub>m waveOf'(n \<mapsto> ?w)"
      using ok nc by (intro numbering_extend) auto
    then show ?thesis
      using None step ok Suc.prems(1) by (auto simp: numbered_def wave_number_def intro: map_le_trans)
  qed
qed simp

lemma assign_all_numbered:
  assumes "producers_first producers L" "set ns \<subseteq> set L" "length L < fuel" "numbering base canary producers waveOf"
    and "canary \<subseteq> dom waveOf"
  shows "\<exists>waveOf'. assign_all fuel base producers ns maxWave waveOf =
        Some (Max (insert maxWave ((\<lambda>n. the (waveOf' n)) ` set ns)), waveOf')
      \<and> numbering base canary producers waveOf' \<and> waveOf \<subseteq>\<^sub>m waveOf' \<and> set ns \<subseteq> dom waveOf'
      \<and> dom waveOf' \<subseteq> dom waveOf \<union> set L"
  using assms(2-)
proof (induction ns arbitrary: maxWave waveOf)
  case Nil
  then show ?case by simp
next
  case (Cons n ns)
  have "position L n < fuel" using position_less [of n L] Cons.prems(1,2) by simp
  then obtain w waveOf1 where step: "assign fuel base producers n waveOf = Some (w, waveOf1)"
      and ok: "numbering base canary producers waveOf1" "waveOf \<subseteq>\<^sub>m waveOf1" "waveOf1 n = Some w"
        "dom waveOf1 \<subseteq> dom waveOf \<union> set L"
    using assign_numbered [OF assms(1), of n fuel base canary waveOf] Cons.prems by (auto simp: numbered_def)
  let ?m = "if w > maxWave then w else maxWave"
  have "canary \<subseteq> dom waveOf1" using ok(2) Cons.prems(4) map_le_implies_dom_le by blast
  then obtain waveOf' where IH: "assign_all fuel base producers ns ?m waveOf1 =
        Some (Max (insert ?m ((\<lambda>n. the (waveOf' n)) ` set ns)), waveOf')"
      "numbering base canary producers waveOf'" "waveOf1 \<subseteq>\<^sub>m waveOf'" "set ns \<subseteq> dom waveOf'"
      "dom waveOf' \<subseteq> dom waveOf1 \<union> set L"
    using Cons.IH [of waveOf1 ?m] Cons.prems(1,2) ok(1) by auto
  have n: "waveOf' n = Some w" using IH(3) ok(3) by (auto simp: map_le_def dom_def)
  have "Max (insert ?m ((\<lambda>n. the (waveOf' n)) ` set ns))
      = Max (insert maxWave ((\<lambda>n. the (waveOf' n)) ` set (n # ns)))"
    using n by (cases "ns = []") (auto simp: max_def)
  moreover have "dom waveOf' \<subseteq> dom waveOf \<union> set L" using IH(5) ok(4) by blast
  moreover have "waveOf \<subseteq>\<^sub>m waveOf'" using ok(2) IH(3) by (rule map_le_trans)
  ultimately show ?case
    using step IH(1,2,4) n by (intro exI [of _ waveOf']) auto
qed

end
