(* ===== verification/WaveFacts.thy ===== *)
theory WaveFacts
  imports ReadGraph
begin

text \<open>
  What \<open>Split\<close> guarantees: every root is in exactly one wave, every read of a root of the set
  points to an earlier wave or stays among the canaries, each root lands as early as that allows,
  and the refusals are for the reasons they name.
\<close>

section \<open>The set as it is indexed\<close>

definition valid_roots :: "wave_root list \<Rightarrow> bool" where
  "valid_roots roots \<longleftrightarrow> distinct (map wr_root roots) \<and> distinct (map wr_estate roots)
     \<and> [] \<notin> wr_root ` set roots \<and> [] \<notin> wr_estate ` set roots"

definition root_named :: "wave_root list \<Rightarrow> gostring \<rightharpoonup> wave_root" where
  "root_named roots = map_of (map (\<lambda>r. (wr_root r, r)) roots)"

definition estate_owner :: "wave_root list \<Rightarrow> gostring \<rightharpoonup> gostring" where
  "estate_owner roots = map_of (map (\<lambda>r. (wr_estate r, wr_root r)) roots)"

lemma index_roots_ok:
  assumes "valid_roots rs" "\<forall>r \<in> set rs. byRoot (wr_root r) = None \<and> byEstate (wr_estate r) = None"
  shows "index_roots rs byRoot byEstate = Inr (byRoot ++ root_named rs, byEstate ++ estate_owner rs)"
  using assms
proof (induction rs arbitrary: byRoot byEstate)
  case (Cons r rs)
  have first: "index_roots (r # rs) byRoot byEstate
      = index_roots rs (byRoot(wr_root r \<mapsto> r)) (byEstate(wr_estate r \<mapsto> wr_root r))"
    using Cons.prems by (auto simp: valid_roots_def)
  have "wr_root r \<notin> fst ` set (map (\<lambda>r. (wr_root r, r)) rs)" "wr_estate r \<notin> fst ` set (map (\<lambda>r. (wr_estate r, wr_root r)) rs)"
    using Cons.prems(1) by (auto simp: valid_roots_def image_image)
  then have "byRoot(wr_root r \<mapsto> r) ++ root_named rs = byRoot ++ root_named (r # rs)"
    "byEstate(wr_estate r \<mapsto> wr_root r) ++ estate_owner rs = byEstate ++ estate_owner (r # rs)"
    unfolding root_named_def estate_owner_def list.map by (simp_all only: map_upd_map_add not_False_eq_True)
  moreover have "index_roots rs (byRoot(wr_root r \<mapsto> r)) (byEstate(wr_estate r \<mapsto> wr_root r))
      = Inr (byRoot(wr_root r \<mapsto> r) ++ root_named rs, byEstate(wr_estate r \<mapsto> wr_root r) ++ estate_owner rs)"
    using Cons.prems by (intro Cons.IH) (auto simp: valid_roots_def image_iff)
  ultimately show ?case unfolding first by (simp only:)
qed (simp add: root_named_def estate_owner_def)

lemma index_roots_bad:
  assumes "index_roots rs byRoot byEstate = Inr res"
  shows "valid_roots rs \<and> (\<forall>r \<in> set rs. byRoot (wr_root r) = None \<and> byEstate (wr_estate r) = None)"
  using assms
proof (induction rs arbitrary: byRoot byEstate)
  case (Cons r rs)
  then have "wr_root r \<noteq> []" "byRoot (wr_root r) = None" "wr_estate r \<noteq> []" "byEstate (wr_estate r) = None"
    and rec: "index_roots rs (byRoot(wr_root r \<mapsto> r)) (byEstate(wr_estate r \<mapsto> wr_root r)) = Inr res"
    by (auto split: if_splits option.splits)
  then show ?case using Cons.IH [OF rec] by (auto simp: valid_roots_def split: if_splits)
qed (simp add: valid_roots_def)

lemma index_roots_Inr: "index_roots rs Map.empty Map.empty = Inr (byRoot, byEstate) \<longleftrightarrow>
    valid_roots rs \<and> byRoot = root_named rs \<and> byEstate = estate_owner rs"
  using index_roots_ok [of rs Map.empty Map.empty] index_roots_bad [of rs Map.empty Map.empty] by auto

lemma root_named_Some: "valid_roots rs \<Longrightarrow> root_named rs n = Some r \<longleftrightarrow> r \<in> set rs \<and> wr_root r = n"
  by (auto simp: root_named_def valid_roots_def map_of_eq_Some_iff comp_def)

lemma root_named_None: "root_named rs n = None \<longleftrightarrow> n \<notin> wr_root ` set rs"
  by (simp add: root_named_def map_of_eq_None_iff image_image)

lemma estate_owner_Some: "valid_roots rs \<Longrightarrow>
    estate_owner rs e = Some n \<longleftrightarrow> (\<exists>r \<in> set rs. wr_estate r = e \<and> wr_root r = n)"
  by (auto simp: estate_owner_def valid_roots_def map_of_eq_Some_iff comp_def)

section \<open>The reads as edges\<close>

text \<open>\<open>n\<close> reads \<open>p\<close>: a root of the set reads the estate another root of it owns.\<close>

definition reads :: "wave_root list \<Rightarrow> gostring \<Rightarrow> gostring \<Rightarrow> bool" where
  "reads roots n p \<longleftrightarrow> (\<exists>r \<in> set roots. wr_root r = n \<and> p \<noteq> n
     \<and> (\<exists>rd \<in> set (wr_reads r). estate_owner roots (rd_estate rd) = Some p))"

definition declared_edge :: "wave_root list \<Rightarrow> edge \<Rightarrow> bool" where
  "declared_edge roots e \<longleftrightarrow> (\<exists>r \<in> set roots. wr_root r = ed_reader e \<and> ed_producer e \<noteq> ed_reader e
     \<and> \<lparr>rd_estate = ed_estate e, rd_from = ed_from e\<rparr> \<in> set (wr_reads r)
     \<and> estate_owner roots (ed_estate e) = Some (ed_producer e))"

lemma declared_edge_reads: "declared_edge roots e \<Longrightarrow> reads roots (ed_reader e) (ed_producer e)"
  by (force simp: declared_edge_def reads_def)

definition edges_ok :: "wave_root list \<Rightarrow> edge_state \<Rightarrow> bool" where
  "edges_ok roots st \<longleftrightarrow>
     (\<forall>n p. p \<in> set (es_producers st n) \<longleftrightarrow> es_edge_for st (n, p) \<noteq> None)
     \<and> (\<forall>n p e. es_edge_for st (n, p) = Some e \<longrightarrow> e \<in> set (es_edges st) \<and> ed_reader e = n \<and> ed_producer e = p)
     \<and> (\<forall>e \<in> set (es_edges st). es_edge_for st (ed_reader e, ed_producer e) = Some e \<and> declared_edge roots e)"

lemma edges_ok_add:
  assumes "edges_ok roots st" "declared_edge roots e" "es_edge_for st (ed_reader e, ed_producer e) = None"
  shows "edges_ok roots (st\<lparr>es_edges := es_edges st @ [e],
     es_producers := (es_producers st)(ed_reader e := es_producers st (ed_reader e) @ [ed_producer e]),
     es_edge_for := (es_edge_for st)((ed_reader e, ed_producer e) \<mapsto> e)\<rparr>)" (is "edges_ok roots ?st")
  unfolding edges_ok_def
proof (intro conjI allI impI ballI)
  show "p \<in> set (es_producers ?st n) \<longleftrightarrow> es_edge_for ?st (n, p) \<noteq> None" for n p
    using assms(1) by (auto simp: edges_ok_def)
  fix n p e' assume "es_edge_for ?st (n, p) = Some e'"
  then show "e' \<in> set (es_edges ?st)" "ed_reader e' = n" "ed_producer e' = p"
    using assms(1) unfolding edges_ok_def by (auto split: if_splits)
next
  fix e' assume "e' \<in> set (es_edges ?st)"
  then consider "e' = e" | "e' \<in> set (es_edges st)" by auto
  then have "es_edge_for ?st (ed_reader e', ed_producer e') = Some e' \<and> declared_edge roots e'"
  proof cases
    case 2
    then have "es_edge_for st (ed_reader e', ed_producer e') = Some e'" "declared_edge roots e'"
      using assms(1) unfolding edges_ok_def by blast+
    moreover from this(1) have "(ed_reader e', ed_producer e') \<noteq> (ed_reader e, ed_producer e)"
      using assms(3) by (metis option.distinct(1))
    ultimately show ?thesis by auto
  qed (use assms(2) in simp)
  then show "es_edge_for ?st (ed_reader e', ed_producer e') = Some e'" "declared_edge roots e'" by blast+
qed

lemma add_reads_ok:
  assumes "edges_ok roots st" "r \<in> set roots" "wr_root r = name" "set rds \<subseteq> set (wr_reads r)"
  shows "edges_ok roots (add_reads (estate_owner roots) name rds st)
    \<and> dom (es_edge_for (add_reads (estate_owner roots) name rds st)) = dom (es_edge_for st)
        \<union> {(name, p) | p. p \<noteq> name \<and> (\<exists>rd \<in> set rds. estate_owner roots (rd_estate rd) = Some p)}"
  using assms
proof (induction rds arbitrary: st)
  case (Cons rd rds)
  let ?add = "add_reads (estate_owner roots) name"
  show ?case
  proof (cases "estate_owner roots (rd_estate rd)")
    case None
    have "edges_ok roots (st\<lparr>es_external := es_external st @
        [\<lparr>ex_root = name, ex_estate = rd_estate rd, ex_from = rd_from rd\<rparr>]\<rparr>)"
      using Cons.prems(1) by (simp add: edges_ok_def)
    from Cons.IH [OF this] show ?thesis using Cons.prems None by auto
  next
    case (Some p)
    let ?e = "\<lparr>ed_reader = name, ed_producer = p, ed_estate = rd_estate rd, ed_from = rd_from rd\<rparr>"
    let ?st = "st\<lparr>es_edges := es_edges st @ [?e],
       es_producers := (es_producers st)(name := es_producers st name @ [p]),
       es_edge_for := (es_edge_for st)((name, p) \<mapsto> ?e)\<rparr>"
    show ?thesis
    proof (cases "p = name \<or> es_edge_for st (name, p) \<noteq> None")
      case True
      then have "?add (rd # rds) st = ?add rds st" using Some True by (auto simp: Let_def)
      moreover have "(name, p) \<in> dom (es_edge_for st) \<or> p = name" using True by auto
      ultimately show ?thesis using Cons.IH [OF Cons.prems(1-3)] Cons.prems(4) Some by auto
    next
      case False
      have eq: "\<lparr>rd_estate = rd_estate rd, rd_from = rd_from rd\<rparr> = rd" by (cases rd) simp
      have "\<lparr>rd_estate = rd_estate rd, rd_from = rd_from rd\<rparr> \<in> set (wr_reads r)"
        unfolding eq using Cons.prems(4) by simp
      then have "declared_edge roots ?e"
        using Cons.prems(2,3) False Some unfolding declared_edge_def by (intro bexI [of _ r]) auto
      then have "edges_ok roots ?st" using edges_ok_add [OF Cons.prems(1), of ?e] False by simp
      moreover have "set rds \<subseteq> set (wr_reads r)" using Cons.prems(4) by simp
      moreover have "dom (es_edge_for ?st) = insert (name, p) (dom (es_edge_for st))" by simp
      ultimately have IH: "edges_ok roots (?add rds ?st)" "dom (es_edge_for (?add rds ?st)) = insert (name, p) (dom (es_edge_for st))
          \<union> {(name, p) | p. p \<noteq> name \<and> (\<exists>rd \<in> set rds. estate_owner roots (rd_estate rd) = Some p)}"
        using Cons.IH [of ?st, OF _ Cons.prems(2,3)] by metis+
      have step: "?add (rd # rds) st = ?add rds ?st" using Some False by (simp add: Let_def)
      show ?thesis unfolding step using IH Some False by auto
    qed
  qed
qed auto

lemma add_edges_ok:
  assumes "valid_roots roots" "edges_ok roots st" "set names \<subseteq> wr_root ` set roots"
  shows "edges_ok roots (add_edges (root_named roots) (estate_owner roots) names st)
    \<and> dom (es_edge_for (add_edges (root_named roots) (estate_owner roots) names st)) =
        dom (es_edge_for st) \<union> {(n, p). n \<in> set names \<and> reads roots n p}"
  using assms(2,3)
proof (induction names arbitrary: st)
  case (Cons n names)
  then obtain r where r: "r \<in> set roots" "wr_root r = n" by auto
  then have sr: "sorted_reads (root_named roots) n = sort_key (\<lambda>rd. (rd_estate rd, rd_from rd)) (wr_reads r)"
    using assms(1) by (simp add: sorted_reads_def root_named_Some [THEN iffD2])
  let ?st = "add_reads (estate_owner roots) n (sorted_reads (root_named roots) n) st"
  have only: "reads roots n p \<longleftrightarrow> p \<noteq> n \<and> (\<exists>rd \<in> set (wr_reads r). estate_owner roots (rd_estate rd) = Some p)" for p
    using r assms(1) root_named_Some [OF assms(1)] by (auto simp: reads_def) (metis option.inject)
  have "edges_ok roots ?st \<and> dom (es_edge_for ?st) = dom (es_edge_for st) \<union> {(n, p) | p. reads roots n p}"
    using add_reads_ok [OF Cons.prems(1) r, of "sorted_reads (root_named roots) n"] by (simp add: sr only)
  then show ?case using Cons.IH [of ?st] Cons.prems(2) by auto
qed simp


section \<open>The graph the split searches\<close>

definition split_names :: "wave_root list \<Rightarrow> gostring list" where
  "split_names roots = sort (map wr_root roots)"

definition split_edges :: "wave_root list \<Rightarrow> edge_state" where
  "split_edges roots = add_edges (root_named roots) (estate_owner roots) (split_names roots) no_edges"

definition split_producers :: "wave_root list \<Rightarrow> gostring \<Rightarrow> gostring list" where
  "split_producers roots = (if valid_roots roots then es_producers (split_edges roots) else (\<lambda>_. []))"

lemma split_edges_ok:
  assumes "valid_roots roots"
  shows "edges_ok roots (split_edges roots)" "es_edge_for (split_edges roots) (n, p) \<noteq> None \<longleftrightarrow> reads roots n p"
proof -
  have ne: "edges_ok roots no_edges" by (simp add: edges_ok_def no_edges_def)
  have "set (split_names roots) \<subseteq> wr_root ` set roots" by (simp add: split_names_def)
  note ok = add_edges_ok [OF assms ne this, folded split_edges_def]
  then show "edges_ok roots (split_edges roots)" by blast
  have "dom (es_edge_for (split_edges roots)) = {(n, p). n \<in> set (split_names roots) \<and> reads roots n p}"
    using ok by (simp add: no_edges_def)
  moreover have "n \<in> set (split_names roots)" if "reads roots n p"
    using that by (auto simp: reads_def split_names_def)
  ultimately show "es_edge_for (split_edges roots) (n, p) \<noteq> None \<longleftrightarrow> reads roots n p"
    by (auto simp: domIff [symmetric])
qed

lemma split_producers_iff: "p \<in> set (split_producers roots n) \<longleftrightarrow> valid_roots roots \<and> reads roots n p"
  using split_edges_ok [of roots] by (auto simp: split_producers_def edges_ok_def)

lemma reads_in: "valid_roots roots \<Longrightarrow> reads roots n p \<Longrightarrow> n \<in> wr_root ` set roots \<and> p \<in> wr_root ` set roots"
  by (auto simp: reads_def estate_owner_Some)

interpretation split_graph: read_graph "split_names roots" "split_producers roots" for roots
  by unfold_locales (auto simp: split_producers_iff split_names_def dest: reads_in)

section \<open>The canaries\<close>

text \<open>The root a canary names, by directory or else by estate.\<close>

definition canary_root :: "unicode \<Rightarrow> wave_root list \<Rightarrow> gostring \<Rightarrow> gostring option" where
  "canary_root u roots c = (let c = trim_space u c in
     if root_named roots c \<noteq> None then Some c else estate_owner roots c)"

lemma mark_canaries_eq:
  assumes "valid_roots roots"
  shows "mark_canaries u (root_named roots) (estate_owner roots) cs canary =
    (case List.find (\<lambda>c. trim_space u c \<noteq> [] \<and> canary_root u roots c = None) cs of
       Some c \<Rightarrow> Inl (UnknownCanary (trim_space u c))
     | None \<Rightarrow> Inr (fold List.insert (map (\<lambda>c. the (canary_root u roots c)) (filter (\<lambda>c. trim_space u c \<noteq> []) cs)) canary))"
proof (induction cs arbitrary: canary)
  case (Cons c cs)
  let ?c = "trim_space u c"
  have owner: "n \<noteq> []" if "estate_owner roots ?c = Some n" for n
    using that assms estate_owner_Some [OF assms] unfolding valid_roots_def by (metis imageI)
  show ?case
  proof (cases "?c = []")
    case False
    show ?thesis
    proof (cases "root_named roots ?c")
      case None
      then show ?thesis using False owner
        by (cases "estate_owner roots ?c") (simp_all add: Cons.IH canary_root_def Let_def split: option.split)
    next
      case (Some r)
      then have "wr_root r = ?c" using assms by (simp add: root_named_Some)
      then show ?thesis using Some False by (simp add: Cons.IH canary_root_def Let_def split: option.split)
    qed
  qed (simp add: Cons.IH split: option.split)
qed simp

definition canary_set :: "unicode \<Rightarrow> wave_root list \<Rightarrow> gostring list \<Rightarrow> gostring set" where
  "canary_set u roots canaries = {n. \<exists>c \<in> set canaries. trim_space u c \<noteq> [] \<and> canary_root u roots c = Some n}"

lemma mark_canaries_Inr:
  assumes "valid_roots roots" "mark_canaries u (root_named roots) (estate_owner roots) cs [] = Inr canary"
  shows "set canary = canary_set u roots cs \<and> distinct canary \<and> set canary \<subseteq> wr_root ` set roots"
proof -
  have known: "\<And>c. c \<in> set cs \<Longrightarrow> trim_space u c \<noteq> [] \<Longrightarrow> canary_root u roots c \<noteq> None"
    and canary: "canary = fold List.insert (map (\<lambda>c. the (canary_root u roots c)) (filter (\<lambda>c. trim_space u c \<noteq> []) cs)) []"
    using assms by (auto simp: mark_canaries_eq find_None_list_all list_all_iff split: option.splits)
  have fold: "set (fold List.insert xs ys) = set xs \<union> set ys" "distinct ys \<Longrightarrow> distinct (fold List.insert xs ys)"
    for xs ys :: "gostring list"
    by (induction xs arbitrary: ys) auto
  have "set canary = canary_set u roots cs"
    using known unfolding canary fold(1) canary_set_def by force
  moreover have "canary_set u roots cs \<subseteq> wr_root ` set roots"
  proof
    fix n assume "n \<in> canary_set u roots cs"
    then obtain c where c: "canary_root u roots c = Some n" by (auto simp: canary_set_def)
    show "n \<in> wr_root ` set roots"
    proof (cases "root_named roots (trim_space u c) = None")
      case True
      then have "estate_owner roots (trim_space u c) = Some n" using c by (simp add: canary_root_def Let_def)
      then show ?thesis using assms(1) by (auto simp: estate_owner_Some)
    next
      case False
      then show ?thesis using c by (auto simp: canary_root_def Let_def root_named_None)
    qed
  qed
  ultimately show ?thesis using canary fold(2) [of "[]"] by simp
qed


lemma canary_read_None:
  "canary_read st canary = None \<longleftrightarrow> (\<forall>c \<in> set canary. set (es_producers st c) \<subseteq> set canary)"
  by (auto simp: canary_read_def find_None_list_all list_all_iff)

section \<open>The waves\<close>

lemma numbering_start: "numbering base canary producers (\<lambda>n. if n \<in> canary then Some 1 else None)"
  by (simp add: numbering_def)

lemma numbering_positive: "numbering base canary producers waveOf \<Longrightarrow> waveOf n = Some w \<Longrightarrow> 1 \<le> w"
proof (cases "n \<in> canary")
  case False
  assume "numbering base canary producers waveOf" "waveOf n = Some w"
  then have "w = wave_number base producers waveOf n" using False by (auto simp: numbering_def)
  then show ?thesis by (simp add: wave_number_def Max_ge_iff)
qed (auto simp: numbering_def)

text \<open>No wave number is skipped.\<close>

lemma numbering_contiguous:
  assumes "numbering base canary producers waveOf" "base = (if canary = {} then 0 else 1)"
    and "waveOf n = Some w" "1 \<le> v" "v \<le> w"
  shows "\<exists>m. waveOf m = Some v"
  using assms(3,5)
proof (induction w arbitrary: n rule: less_induct)
  case (less w)
  show ?case
  proof (cases "v = w")
    case False
    then have vw: "v < w" using less.prems by simp
    then have nc: "n \<notin> canary" using assms(1,4) less.prems(1) by (auto simp: numbering_def)
    then have w: "w = wave_number base producers waveOf n" and prods: "set (producers n) \<subseteq> dom waveOf"
      using assms(1) less.prems(1) by (auto simp: numbering_def)
    have "w \<in> insert (base + 1) ((\<lambda>p. the (waveOf p) + 1) ` set (producers n))"
      unfolding w wave_number_def by (rule Max_in) auto
    then consider "w = base + 1" | p where "p \<in> set (producers n)" "w = the (waveOf p) + 1" by auto
    then show ?thesis
    proof cases
      case 1
      then have "v = 1" "canary \<noteq> {}" using vw assms(2,4) by (auto split: if_splits)
      then show ?thesis using assms(1) by (auto simp: numbering_def)
    next
      case 2
      then obtain pw where "waveOf p = Some pw" "w = pw + 1" using prods by auto
      then show ?thesis using less.IH [of pw p] vw by simp
    qed
  qed (use less.prems in blast)
qed

lemma mark_roots_id: "(\<And>n. n \<in> set ns \<Longrightarrow> waveOf n = Some w) \<Longrightarrow> mark_roots w ns waveOf = waveOf"
  by (induction ns) (auto simp: fun_upd_idem)

lemma renumber_id:
  "renumber i (map (wave_at names edges waveOf base) [Suc i..<Suc i + k]) waveOf
     = (map (wave_at names edges waveOf base) [Suc i..<Suc i + k], waveOf)"
proof (induction k arbitrary: i)
  case (Suc k)
  have "[Suc i..<Suc i + Suc k] = Suc i # [Suc (Suc i)..<Suc (Suc i) + k]"
    by (simp add: upt_conv_Cons del: upt_Suc)
  moreover have "mark_roots (Suc i) (wv_roots (wave_at names edges waveOf base (Suc i))) waveOf = waveOf"
    by (rule mark_roots_id) (simp add: wave_at_def)
  ultimately show ?case using Suc.IH [of "Suc i"] by (simp del: upt_Suc) (simp add: wave_at_def)
qed simp

lemma number_waves_eq:
  assumes "producers_first (es_producers st) L" "distinct L" "set L = set names" "set canary \<subseteq> set names"
  shows "\<exists>waveOf m. number_waves names st canary = Some \<lparr>
      ws_waves = map (wave_at names (es_edges st) waveOf (if canary = [] then 0 else 1)) [1..<Suc m],
      ws_edges = es_edges st, ws_external = es_external st, ws_wave_of = waveOf\<rparr>
    \<and> numbering (if canary = [] then 0 else 1) (set canary) (es_producers st) waveOf
    \<and> dom waveOf = set names \<and> (\<forall>n w. waveOf n = Some w \<longrightarrow> 1 \<le> w \<and> w \<le> m)
    \<and> (\<forall>w. 1 \<le> w \<and> w \<le> m \<longrightarrow> (\<exists>n. waveOf n = Some w))"
proof -
  let ?base = "if canary = [] then 0 else 1 :: nat"
  let ?W0 = "\<lambda>n. if n \<in> set canary then Some (1 :: nat) else None"
  have "length L = card (set names)" using assms(2,3) by (metis distinct_card)
  then have len: "length L < Suc (length names)" using card_length [of names] by simp
  have dom0: "set canary \<subseteq> dom ?W0" by (auto simp: dom_def)
  have ns: "set names \<subseteq> set L" using assms(3) by simp
  from assign_all_numbered [where base = ?base and maxWave = ?base, OF assms(1) ns len numbering_start dom0]
  obtain waveOf where all: "assign_all (Suc (length names)) ?base (es_producers st) names ?base ?W0 =
        Some (Max (insert ?base ((\<lambda>n. the (waveOf n)) ` set names)), waveOf)"
      and ok: "numbering ?base (set canary) (es_producers st) waveOf" "set names \<subseteq> dom waveOf"
        "dom waveOf \<subseteq> dom ?W0 \<union> set L"
    by blast
  let ?m = "Max (insert ?base ((\<lambda>n. the (waveOf n)) ` set names))"
  have dom: "dom waveOf = set names" using ok(2,3) assms(3,4) by (auto simp: dom_def split: if_splits)
  have bounds: "1 \<le> w \<and> w \<le> ?m" if "waveOf n = Some w" for n w
  proof
    show "1 \<le> w" using numbering_positive [OF ok(1) that] .
    have "n \<in> set names" using that dom by auto
    then show "w \<le> ?m" using that by (intro Max_ge) (auto simp: image_iff intro!: bexI [of _ n])
  qed
  have used: "\<exists>n. waveOf n = Some w" if w: "1 \<le> w" "w \<le> ?m" for w
  proof -
    have "?m \<in> insert ?base ((\<lambda>n. the (waveOf n)) ` set names)" by (rule Max_in) auto
    then consider "?m = ?base" | n where "n \<in> set names" "?m = the (waveOf n)" by auto
    then show ?thesis
    proof cases
      case 1
      then have "w = 1" "canary \<noteq> []" using w by (auto split: if_splits)
      then show ?thesis using ok(1) by (cases canary) (auto simp: numbering_def)
    next
      case 2
      then obtain v where v: "waveOf n = Some v" using dom by blast
      then have "waveOf n = Some ?m" unfolding 2(2) by simp
      then show ?thesis using numbering_contiguous [OF ok(1) _ _ w(1,2)] by simp
    qed
  qed
  have "gather_waves names (es_edges st) waveOf ?base ?m = map (wave_at names (es_edges st) waveOf ?base) [1..<Suc ?m]"
  proof -
    have "wv_roots (wave_at names (es_edges st) waveOf ?base w) \<noteq> []" if w: "w \<in> set [1..<Suc ?m]" for w
    proof -
      obtain n where "waveOf n = Some w" using used [of w] w by auto
      moreover from this have "n \<in> set names" using dom by blast
      ultimately show ?thesis by (auto simp: wave_at_def filter_empty_conv)
    qed
    then show ?thesis unfolding gather_waves_def by (intro filter_True) auto
  qed
  moreover have "renumber 0 (map (wave_at names (es_edges st) waveOf ?base) [1..<Suc ?m]) waveOf
      = (map (wave_at names (es_edges st) waveOf ?base) [1..<Suc ?m], waveOf)"
    using renumber_id [of 0 names "es_edges st" waveOf ?base ?m] by (simp only: One_nat_def add_Suc plus_nat.add_0)
  ultimately have "number_waves names st canary = Some \<lparr>
      ws_waves = map (wave_at names (es_edges st) waveOf ?base) [1..<Suc ?m],
      ws_edges = es_edges st, ws_external = es_external st, ws_wave_of = waveOf\<rparr>"
    unfolding number_waves_def Let_def all by (simp only: option.case prod.case)
  then show ?thesis using ok(1) dom bounds used by blast
qed

section \<open>What an accepted split is\<close>

definition waves_shape :: "wave_root list \<Rightarrow> gostring set \<Rightarrow> waves \<Rightarrow> bool" where
  "waves_shape roots canary ws \<longleftrightarrow> (\<exists>m. let base = (if canary = {} then 0 else 1) in
     ws_waves ws = map (wave_at (split_names roots) (ws_edges ws) (ws_wave_of ws) base) [1..<Suc m]
     \<and> numbering base canary (split_producers roots) (ws_wave_of ws)
     \<and> dom (ws_wave_of ws) = wr_root ` set roots
     \<and> (\<forall>n w. ws_wave_of ws n = Some w \<longrightarrow> 1 \<le> w \<and> w \<le> m)
     \<and> (\<forall>w. 1 \<le> w \<and> w \<le> m \<longrightarrow> (\<exists>n. ws_wave_of ws n = Some w)))"

lemma split_producers_valid: "valid_roots roots \<Longrightarrow> split_producers roots = es_producers (split_edges roots)"
  by (simp add: split_producers_def)

lemma Split_valid:
  assumes "valid_roots roots"
  shows "Split u roots canaries =
     (case mark_canaries u (root_named roots) (estate_owner roots) canaries [] of Inl e \<Rightarrow> Some (Inl e)
      | Inr canary \<Rightarrow>
        (case canary_read (split_edges roots) canary of
           Some (c, p) \<Rightarrow> Some (Inl (CanaryReadsOther c (the (es_edge_for (split_edges roots) (c, p)))))
         | None \<Rightarrow>
           (case findCycle (split_names roots) (split_producers roots) of None \<Rightarrow> None
            | Some (Some cycle) \<Rightarrow> Some (Inl (ReadCycle (cycle_edges (es_edge_for (split_edges roots)) cycle)))
            | Some None \<Rightarrow> map_option Inr (number_waves (split_names roots) (split_edges roots) canary))))"
proof -
  have index: "index_roots roots Map.empty Map.empty = Inr (root_named roots, estate_owner roots)"
    using assms by (simp only: index_roots_Inr)
  show ?thesis
    unfolding Split_def Let_def index sum.case prod.case split_producers_valid [OF assms] split_edges_def split_names_def ..
qed

lemma Split_not_valid: "\<not> valid_roots roots \<Longrightarrow> \<exists>e. Split u roots canaries = Some (Inl e) \<and> (\<forall>es. e \<noteq> ReadCycle es)"
proof -
  assume "\<not> valid_roots roots"
  then obtain e where e: "index_roots roots Map.empty Map.empty = Inl e"
    using index_roots_Inr [of roots] by (cases "index_roots roots Map.empty Map.empty") auto
  have "index_roots rs byRoot byEstate \<noteq> Inl (ReadCycle es)" for rs byRoot byEstate es
    by (induction rs arbitrary: byRoot byEstate) (auto split: option.splits)
  then show ?thesis using e by (auto simp: Split_def)
qed

lemma number_waves_shape:
  assumes "valid_roots roots" "mark_canaries u (root_named roots) (estate_owner roots) canaries [] = Inr canary"
    and "producers_first (split_producers roots) L" "distinct L" "set L = set (split_names roots)"
  shows "\<exists>ws. number_waves (split_names roots) (split_edges roots) canary = Some ws
     \<and> waves_shape roots (canary_set u roots canaries) ws \<and> ws_edges ws = es_edges (split_edges roots)
     \<and> ws_external ws = es_external (split_edges roots)"
proof -
  have canary: "set canary = canary_set u roots canaries" "set canary \<subseteq> set (split_names roots)"
    using mark_canaries_Inr [OF assms(1,2)] by (auto simp: split_names_def)
  have names: "set (split_names roots) = wr_root ` set roots" by (simp add: split_names_def)
  have empty: "canary = [] \<longleftrightarrow> canary_set u roots canaries = {}" unfolding canary(1) [symmetric] by simp
  have first: "producers_first (es_producers (split_edges roots)) L"
    using assms(3) by (simp only: split_producers_valid [OF assms(1)])
  obtain waveOf m where ws: "number_waves (split_names roots) (split_edges roots) canary = Some \<lparr>
        ws_waves = map (wave_at (split_names roots) (es_edges (split_edges roots)) waveOf (if canary = [] then 0 else 1)) [1..<Suc m],
        ws_edges = es_edges (split_edges roots), ws_external = es_external (split_edges roots), ws_wave_of = waveOf\<rparr>"
      and num: "numbering (if canary = [] then 0 else 1) (set canary) (es_producers (split_edges roots)) waveOf"
      and rest: "dom waveOf = set (split_names roots)" "\<forall>n w. waveOf n = Some w \<longrightarrow> 1 \<le> w \<and> w \<le> m"
        "\<forall>w. 1 \<le> w \<and> w \<le> m \<longrightarrow> (\<exists>n. waveOf n = Some w)"
    using number_waves_eq [OF first assms(4,5) canary(2)] by blast
  let ?ws = "\<lparr>ws_waves = map (wave_at (split_names roots) (es_edges (split_edges roots)) waveOf (if canary = [] then 0 else 1)) [1..<Suc m],
      ws_edges = es_edges (split_edges roots), ws_external = es_external (split_edges roots), ws_wave_of = waveOf\<rparr>"
  have "waves_shape roots (canary_set u roots canaries) ?ws"
    using num rest
    unfolding waves_shape_def Let_def empty [symmetric] split_producers_valid [OF assms(1)] names canary(1) waves.simps
    by blast
  then show ?thesis unfolding ws by simp
qed


lemma mset_classes:
  assumes "distinct ws" "\<And>x. x \<in> set xs \<Longrightarrow> f x \<in> Some ` set ws"
  shows "mset (concat (map (\<lambda>w. filter (\<lambda>x. f x = Some w) xs) ws)) = mset xs"
  using assms
proof (induction ws arbitrary: xs)
  case Nil
  then have "xs = []" by (cases xs) force+
  then show ?case by simp
next
  case (Cons w ws)
  let ?ys = "filter (\<lambda>x. f x \<noteq> Some w) xs"
  have "map (\<lambda>v. filter (\<lambda>x. f x = Some v) xs) ws = map (\<lambda>v. filter (\<lambda>x. f x = Some v) ?ys) ws"
    using Cons.prems(1) by (intro map_cong refl) (auto intro!: filter_cong)
  moreover have "mset (concat (map (\<lambda>v. filter (\<lambda>x. f x = Some v) ?ys) ws)) = mset ?ys"
    using Cons.prems by (intro Cons.IH) auto
  ultimately have "mset (concat (map (\<lambda>v. filter (\<lambda>x. f x = Some v) xs) ws)) = mset ?ys" by (simp only:)
  then show ?case using multiset_partition [of "mset xs" "\<lambda>x. f x = Some w"] by simp
qed

lemma Split_Inr_cases:
  assumes "Split u roots canaries = Some (Inr ws)"
  shows "valid_roots roots \<and> waves_shape roots (canary_set u roots canaries) ws
     \<and> (\<forall>c \<in> canary_set u roots canaries. \<forall>p. reads roots c p \<longrightarrow> p \<in> canary_set u roots canaries)
     \<and> ws_edges ws = es_edges (split_edges roots)"
proof -
  have valid: "valid_roots roots" using Split_not_valid [of roots u canaries] assms by fastforce
  obtain canary where canary: "mark_canaries u (root_named roots) (estate_owner roots) canaries [] = Inr canary"
      and closed: "canary_read (split_edges roots) canary = None"
      and cyc: "findCycle (split_names roots) (split_producers roots) = Some None"
      and ws: "number_waves (split_names roots) (split_edges roots) canary = Some ws"
    using assms unfolding Split_valid [OF valid] by (auto split: sum.splits option.splits)
  obtain L where L: "producers_first (split_producers roots) L" "distinct L" "set L = set (split_names roots)"
    by (rule split_graph.findCycle_cases [of roots]) (use cyc in auto)
  have "waves_shape roots (canary_set u roots canaries) ws \<and> ws_edges ws = es_edges (split_edges roots)"
    using number_waves_shape [OF valid canary L] ws by auto
  moreover have "set canary = canary_set u roots canaries" using mark_canaries_Inr [OF valid canary] by blast
  moreover have "p \<in> set canary" if "c \<in> set canary" "reads roots c p" for c p
  proof -
    have "set (split_producers roots c) \<subseteq> set canary"
      using closed that(1) by (simp add: canary_read_None split_producers_valid [OF valid])
    then show ?thesis using that(2) valid split_producers_iff by blast
  qed
  ultimately show ?thesis using valid by blast
qed

lemma shape_waves:
  assumes "valid_roots roots" "waves_shape roots canary ws"
  shows "map wv_number (ws_waves ws) = [1..<Suc (length (ws_waves ws))]"
    and "\<And>wv n. wv \<in> set (ws_waves ws) \<Longrightarrow> n \<in> set (wv_roots wv) \<longleftrightarrow> ws_wave_of ws n = Some (wv_number wv)"
    and "[] \<notin> wv_roots ` set (ws_waves ws)"
    and "mset (concat (map wv_roots (ws_waves ws))) = mset (map wr_root roots)"
proof -
  obtain m base where ws: "ws_waves ws = map (wave_at (split_names roots) (ws_edges ws) (ws_wave_of ws) base) [1..<Suc m]"
      and dom: "dom (ws_wave_of ws) = wr_root ` set roots"
      and le: "\<And>n w. ws_wave_of ws n = Some w \<Longrightarrow> 1 \<le> w \<and> w \<le> m"
      and used: "\<And>w. 1 \<le> w \<and> w \<le> m \<Longrightarrow> \<exists>n. ws_wave_of ws n = Some w"
    using assms(2) unfolding waves_shape_def Let_def by blast
  have names: "set (split_names roots) = wr_root ` set roots" "mset (split_names roots) = mset (map wr_root roots)"
    by (simp_all add: split_names_def)
  show "map wv_number (ws_waves ws) = [1..<Suc (length (ws_waves ws))]"
    unfolding ws by (simp add: wave_at_def comp_def del: upt_Suc)
  show mem: "n \<in> set (wv_roots wv) \<longleftrightarrow> ws_wave_of ws n = Some (wv_number wv)" if "wv \<in> set (ws_waves ws)" for wv n
    using that dom unfolding ws names(1) [symmetric] by (auto simp: wave_at_def simp del: upt_Suc)
  show "[] \<notin> wv_roots ` set (ws_waves ws)"
  proof
    assume "[] \<in> wv_roots ` set (ws_waves ws)"
    then obtain wv where wv: "wv \<in> set (ws_waves ws)" "wv_roots wv = []" by force
    moreover have "1 \<le> wv_number wv \<and> wv_number wv \<le> m"
      using wv(1) unfolding ws by (auto simp: wave_at_def simp del: upt_Suc)
    ultimately show False using mem [OF wv(1)] used [of "wv_number wv"] by auto
  qed
  have "map wv_roots (ws_waves ws) = map (\<lambda>w. filter (\<lambda>n. ws_wave_of ws n = Some w) (split_names roots)) [1..<Suc m]"
    unfolding ws by (simp add: wave_at_def comp_def del: upt_Suc)
  moreover have "mset (concat (map (\<lambda>w. filter (\<lambda>n. ws_wave_of ws n = Some w) (split_names roots)) [1..<Suc m]))
      = mset (split_names roots)"
  proof (rule mset_classes)
    fix n assume "n \<in> set (split_names roots)"
    then obtain w where w: "ws_wave_of ws n = Some w" using dom unfolding names(1) by blast
    then have "w \<in> set [1..<Suc m]" using le [OF w] by (auto simp del: upt_Suc)
    then show "ws_wave_of ws n \<in> Some ` set [1..<Suc m]" unfolding w by (rule imageI)
  qed simp
  ultimately show "mset (concat (map wv_roots (ws_waves ws))) = mset (map wr_root roots)"
    using names(2) by simp
qed


text \<open>
  A split that \<open>Split\<close> accepts puts every root of the set in exactly one wave: the waves are
  numbered from 1 on, none is empty, their roots together are the roots given, each once, and
  \<open>WaveOf\<close> is the number of the wave a root is in.
\<close>

theorem split_partitions_the_set:
  assumes "Split u roots canaries = Some (Inr ws)"
  shows "map wv_number (ws_waves ws) = [1..<Suc (length (ws_waves ws))]
    \<and> (\<forall>wv \<in> set (ws_waves ws). wv_roots wv \<noteq> [] \<and> (\<forall>n. n \<in> set (wv_roots wv) \<longleftrightarrow> ws_wave_of ws n = Some (wv_number wv)))
    \<and> mset (concat (map wv_roots (ws_waves ws))) = mset (map wr_root roots)
    \<and> distinct (concat (map wv_roots (ws_waves ws)))"
proof -
  note valid = Split_Inr_cases [OF assms, THEN conjunct1]
  have shape: "waves_shape roots (canary_set u roots canaries) ws" using Split_Inr_cases [OF assms] by blast
  note waves = shape_waves [OF valid shape]
  have "wv_roots wv \<noteq> []" if "wv \<in> set (ws_waves ws)" for wv
    using waves(3) imageI [OF that, of wv_roots] by auto
  moreover have "distinct (map wr_root roots)" using valid by (simp add: valid_roots_def)
  then have "distinct (concat (map wv_roots (ws_waves ws)))" using waves(4) mset_eq_imp_distinct_iff by blast
  ultimately show ?thesis using waves(1,2,4) by blast
qed

lemma reads_earlier:
  assumes "Split u roots canaries = Some (Inr ws)" "reads roots n p"
  shows "\<exists>w v. ws_wave_of ws n = Some w \<and> ws_wave_of ws p = Some v
    \<and> (v < w \<or> v = 1 \<and> w = 1 \<and> {n, p} \<subseteq> canary_set u roots canaries)"
proof -
  note split = Split_Inr_cases [OF assms(1)]
  obtain base where num: "numbering base (canary_set u roots canaries) (split_producers roots) (ws_wave_of ws)"
      and dom: "dom (ws_wave_of ws) = wr_root ` set roots"
    using split unfolding waves_shape_def Let_def by blast
  obtain w v where wv: "ws_wave_of ws n = Some w" "ws_wave_of ws p = Some v"
    using reads_in [of roots n p] assms(2) split dom by (metis domD)
  show ?thesis
  proof (cases "n \<in> canary_set u roots canaries")
    case True
    then have "p \<in> canary_set u roots canaries" using split assms(2) by blast
    then show ?thesis using True wv num by (auto simp: numbering_def)
  next
    case False
    then have "w = wave_number base (split_producers roots) (ws_wave_of ws) n" using num wv(1) by (simp add: numbering_def)
    moreover have "p \<in> set (split_producers roots n)" using split assms(2) by (simp add: split_producers_iff)
    then have "the (ws_wave_of ws p) + 1 \<in> (\<lambda>p. the (ws_wave_of ws p) + 1) ` set (split_producers roots n)"
      by (rule imageI)
    ultimately have "v + 1 \<le> w" using wv(2) by (simp add: wave_number_def del: image_iff)
    then show ?thesis using wv by auto
  qed
qed

text \<open>
  C8. No root lands before what it reads: for every read of a root of the set, the root that owns
  the estate read is in an earlier wave, or both are canaries and land together in wave 1.
\<close>

theorem split_respects_reads:
  assumes "Split u roots canaries = Some (Inr ws)" "reads roots n p"
  shows "\<exists>w v. ws_wave_of ws n = Some w \<and> ws_wave_of ws p = Some v
    \<and> (v < w \<or> v = 1 \<and> w = 1 \<and> {n, p} \<subseteq> canary_set u roots canaries)"
  using assms by (rule reads_earlier)

text \<open>
  C21. Every root lands as early as its reads allow: a canary in wave 1; any other root one wave
  after the latest of the roots it reads, and at the earliest in wave 1, or in wave 2 when the set
  has canaries.
\<close>

theorem split_earliest:
  assumes "Split u roots canaries = Some (Inr ws)" "n \<in> wr_root ` set roots"
  shows "ws_wave_of ws n = Some (if n \<in> canary_set u roots canaries then 1
    else Max (insert (if canary_set u roots canaries = {} then 1 else 2) {v + 1 | v p. reads roots n p \<and> ws_wave_of ws p = Some v}))"
proof -
  note split = Split_Inr_cases [OF assms(1)]
  let ?canary = "canary_set u roots canaries"
  have num: "numbering (if ?canary = {} then 0 else 1) ?canary (split_producers roots) (ws_wave_of ws)"
      and dom: "dom (ws_wave_of ws) = wr_root ` set roots"
    using split unfolding waves_shape_def Let_def by blast+
  obtain w where w: "ws_wave_of ws n = Some w" using assms(2) dom by (metis domD)
  show ?thesis
  proof (cases "n \<in> ?canary")
    case True
    then show ?thesis using num by (simp add: numbering_def)
  next
    case False
    then have "w = wave_number (if ?canary = {} then 0 else 1) (split_producers roots) (ws_wave_of ws) n"
        and prods: "set (split_producers roots n) \<subseteq> dom (ws_wave_of ws)"
      using num w by (simp_all add: numbering_def)
    moreover have "(\<lambda>p. the (ws_wave_of ws p) + 1) ` set (split_producers roots n)
        = {v + 1 | v p. reads roots n p \<and> ws_wave_of ws p = Some v}" (is "?A = ?B")
    proof -
      have "reads roots n p \<longleftrightarrow> p \<in> set (split_producers roots n)" for p using split by (simp add: split_producers_iff)
      then have "?B = {v + 1 | v p. p \<in> set (split_producers roots n) \<and> ws_wave_of ws p = Some v}" by simp
      moreover have "\<dots> = ?A" using prods by (force simp: image_iff dom_def)
      ultimately show ?thesis by simp
    qed
    moreover have "(if ?canary = {} then 0 else 1) + 1 = (if ?canary = {} then 1 else 2 :: nat)" by simp
    ultimately show ?thesis using False w unfolding wave_number_def by (simp only: if_False)
  qed
qed


lemma reads_path_tranclp:
  assumes "reads_path producers c" "2 \<le> length c"
  shows "(\<lambda>a b. b \<in> set (producers a))\<^sup>+\<^sup>+ (hd c) (last c)"
  using assms unfolding reads_path_def
proof (induction c rule: induct_list012)
  case (3 a b c)
  then show ?case by (cases c) (auto intro: tranclp_into_tranclp2)
qed simp_all

lemma tranclp_reads_path:
  assumes "(\<lambda>a b. b \<in> set (producers a))\<^sup>+\<^sup>+ a b"
  shows "\<exists>c. reads_path producers c \<and> 2 \<le> length c \<and> hd c = a \<and> last c = b"
  using assms
proof (induction rule: tranclp_induct)
  case (base b)
  then show ?case by (intro exI [of _ "[a, b]"]) (simp add: reads_path_def)
next
  case (step b b')
  then obtain c where c: "reads_path producers c" "2 \<le> length c" "hd c = a" "last c = b" by blast
  then have "c \<noteq> []" by auto
  then show ?case using c step(2)
    by (intro exI [of _ "c @ [b']"]) (simp add: reads_path_def successively_append_iff)
qed

lemma cycle_iff_tranclp:
  "(\<exists>c. reads_cycle producers c \<and> hd c = a) \<longleftrightarrow> (\<lambda>a b. b \<in> set (producers a))\<^sup>+\<^sup>+ a a"
  using reads_path_tranclp [of producers] tranclp_reads_path [of producers a a]
  by (auto simp: reads_cycle_def) metis+

lemma split_producers_reads:
  "valid_roots roots \<Longrightarrow> (\<lambda>a b. b \<in> set (split_producers roots a)) = reads roots"
  by (simp add: split_producers_iff fun_eq_iff)

lemma split_acyclic_iff:
  assumes "valid_roots roots"
  shows "findCycle (split_names roots) (split_producers roots) = Some None \<longleftrightarrow> acyclicP (reads roots)"
proof -
  have "(reads roots)\<^sup>+\<^sup>+ a a \<Longrightarrow> a \<in> set (split_names roots)" for a
    using reads_in [OF assms] by (auto dest!: tranclpD simp: split_names_def)
  then have "(\<nexists>c. reads_cycle (split_producers roots) c \<and> hd c \<in> set (split_names roots))
      \<longleftrightarrow> (\<forall>a. \<not> (reads roots)\<^sup>+\<^sup>+ a a)"
    using cycle_iff_tranclp [of "split_producers roots"] unfolding split_producers_reads [OF assms] by metis
  then show ?thesis
    unfolding split_graph.findCycle_None_iff by (simp add: acyclic_def tranclp_unfold)
qed

lemma cycle_edges_declared:
  assumes "valid_roots roots" "reads_path (split_producers roots) c" "2 \<le> length c"
  shows "cycle_edges (es_edge_for (split_edges roots)) c \<noteq> []
    \<and> (\<forall>e \<in> set (cycle_edges (es_edge_for (split_edges roots)) c). declared_edge roots e)
    \<and> successively (\<lambda>e e'. ed_producer e = ed_reader e') (cycle_edges (es_edge_for (split_edges roots)) c)
    \<and> ed_reader (hd (cycle_edges (es_edge_for (split_edges roots)) c)) = hd c
    \<and> ed_producer (last (cycle_edges (es_edge_for (split_edges roots)) c)) = last c"
  using assms(2,3)
proof (induction c rule: induct_list012)
  case (3 a b c)
  then have "reads roots a b" using assms(1) by (simp add: reads_path_def split_producers_iff)
  then obtain e where e: "es_edge_for (split_edges roots) (a, b) = Some e"
    using split_edges_ok(2) [OF assms(1)] by blast
  then have ok: "declared_edge roots e" "ed_reader e = a" "ed_producer e = b"
    using split_edges_ok(1) [OF assms(1)] unfolding edges_ok_def by blast+
  show ?case
  proof (cases c)
    case Nil
    then show ?thesis using e ok by simp
  next
    case (Cons d ds)
    have path: "reads_path (split_producers roots) (b # c)" using 3(3) by (simp add: reads_path_def)
    have two: "2 \<le> length (b # c)" using Cons by simp
    note IH = 3(2) [OF path two]
    show ?thesis using IH e ok by (cases "cycle_edges (es_edge_for (split_edges roots)) (b # c)") auto
  qed
qed simp_all

lemma canaries_known:
  assumes "valid_roots roots"
  shows "(\<exists>canary. mark_canaries u (root_named roots) (estate_owner roots) canaries [] = Inr canary)
    \<longleftrightarrow> (\<forall>c \<in> set canaries. trim_space u c \<noteq> [] \<longrightarrow> canary_root u roots c \<noteq> None)"
  unfolding mark_canaries_eq [OF assms]
  by (auto simp: find_None_iff find_Some_iff split: option.split)


lemma Split_accepts:
  "Split u roots canaries \<noteq> None \<and> ((\<exists>ws. Split u roots canaries = Some (Inr ws)) \<longleftrightarrow>
     valid_roots roots
     \<and> (\<forall>c \<in> set canaries. trim_space u c \<noteq> [] \<longrightarrow> canary_root u roots c \<noteq> None)
     \<and> (\<forall>c \<in> canary_set u roots canaries. \<forall>p. reads roots c p \<longrightarrow> p \<in> canary_set u roots canaries)
     \<and> acyclicP (reads roots))"
proof (cases "valid_roots roots")
  case False
  then show ?thesis using Split_not_valid [OF False, of u canaries] by auto
next
  case valid: True
  note known = canaries_known [OF valid, of u canaries]
  show ?thesis
  proof (cases "mark_canaries u (root_named roots) (estate_owner roots) canaries []")
    case (Inl e)
    then show ?thesis using known by (auto simp: Split_valid [OF valid])
  next
    case (Inr canary)
    then have canary: "set canary = canary_set u roots canaries" using mark_canaries_Inr [OF valid] by blast
    have closed: "canary_read (split_edges roots) canary = None \<longleftrightarrow>
        (\<forall>c \<in> canary_set u roots canaries. \<forall>p. reads roots c p \<longrightarrow> p \<in> canary_set u roots canaries)"
      using split_producers_iff [of _ roots] valid
      unfolding canary_read_None canary [symmetric] split_producers_valid [OF valid, symmetric] by blast
    show ?thesis
    proof (rule split_graph.findCycle_cases [of roots])
      fix c assume "findCycle (split_names roots) (split_producers roots) = Some (Some c)"
      then show ?thesis using Inr closed split_acyclic_iff [OF valid]
        by (auto simp: Split_valid [OF valid] split: option.split)
    next
      fix L assume L: "findCycle (split_names roots) (split_producers roots) = Some None" "distinct L"
        "set L = set (split_names roots)" "producers_first (split_producers roots) L"
      obtain ws where "number_waves (split_names roots) (split_edges roots) canary = Some ws"
        using number_waves_shape [OF valid Inr L(4,2,3)] by blast
      then show ?thesis using Inr closed known L(1) split_acyclic_iff [OF valid] valid
        by (auto simp: Split_valid [OF valid] split: option.split)
    qed
  qed
qed

lemma Split_total: "Split u roots canaries \<noteq> None"
  using Split_accepts by blast

text \<open>
  C15. \<open>Split\<close> always returns, and it accepts a set exactly when every root and every estate of it is
  named once, every canary names a root or an estate of it, canaries only read canaries, and the
  reads have no cycle.
\<close>

theorem split_accepts_iff:
  "Split u roots canaries \<noteq> None \<and> ((\<exists>ws. Split u roots canaries = Some (Inr ws)) \<longleftrightarrow>
     valid_roots roots
     \<and> (\<forall>c \<in> set canaries. trim_space u c \<noteq> [] \<longrightarrow> canary_root u roots c \<noteq> None)
     \<and> (\<forall>c \<in> canary_set u roots canaries. \<forall>p. reads roots c p \<longrightarrow> p \<in> canary_set u roots canaries)
     \<and> acyclicP (reads roots))"
  by (rule Split_accepts)

text \<open>
  C32. A refusal for a cycle names one: the edges reported are reads the roots declare, each edge's
  producer is the next edge's reader, and the last producer is the first reader.
\<close>

theorem split_names_a_cycle:
  assumes "Split u roots canaries = Some (Inl (ReadCycle es))"
  shows "es \<noteq> [] \<and> (\<forall>e \<in> set es. declared_edge roots e)
    \<and> successively (\<lambda>e e'. ed_producer e = ed_reader e') es \<and> ed_producer (last es) = ed_reader (hd es)"
proof -
  have valid: "valid_roots roots" using Split_not_valid [of roots u canaries] assms by fastforce
  have other: "mark_canaries u (root_named roots) (estate_owner roots) cs canary \<noteq> Inl (ReadCycle es)" for cs canary
    by (simp add: mark_canaries_eq [OF valid] split: option.split)
  obtain c where c: "findCycle (split_names roots) (split_producers roots) = Some (Some c)"
      "es = cycle_edges (es_edge_for (split_edges roots)) c"
    using assms other unfolding Split_valid [OF valid] by (auto split: sum.splits option.splits)
  have "reads_cycle (split_producers roots) c"
    by (rule split_graph.findCycle_cases [of roots]) (use c(1) in auto)
  then show ?thesis
    using cycle_edges_declared [OF valid, of c] c(2) by (auto simp: reads_cycle_def)
qed


section \<open>Witnesses\<close>

definition demo_net :: wave_root where
  "demo_net = \<lparr>wr_root = S ''net'', wr_estate = S ''n'', wr_reads = []\<rparr>"

definition demo_app :: wave_root where
  "demo_app = \<lparr>wr_root = S ''app'', wr_estate = S ''a'', wr_reads = [\<lparr>rd_estate = S ''n'', rd_from = []\<rparr>]\<rparr>"

definition demo_loop :: wave_root where
  "demo_loop = \<lparr>wr_root = S ''net'', wr_estate = S ''n'', wr_reads = [\<lparr>rd_estate = S ''a'', rd_from = []\<rparr>]\<rparr>"

lemmas demo_set_defs = demo_net_def demo_app_def demo_loop_def Split_def add_edges.simps sorted_reads_def no_edges_def
  canary_read_def findCycle_def number_waves_def gather_waves_def wave_at_def Let_def S_def

definition demo_waves :: waves where
  "demo_waves = \<lparr>ws_waves =
     [\<lparr>wv_number = 1, wv_canary = True, wv_roots = [S ''net''], wv_edges = [], wv_digest = []\<rparr>,
      \<lparr>wv_number = 2, wv_canary = False, wv_roots = [S ''app''], wv_edges = [], wv_digest = []\<rparr>],
    ws_edges = [\<lparr>ed_reader = S ''app'', ed_producer = S ''net'', ed_estate = S ''n'', ed_from = []\<rparr>],
    ws_external = [], ws_wave_of = [S ''net'' \<mapsto> 1, S ''app'' \<mapsto> 2]\<rparr>"

lemma demo_split: "Split demo_unicode [demo_app, demo_net] [S ''net''] = Some (Inr demo_waves)"
  by (simp add: demo_set_defs demo_waves_def trim_space_def isSpace_def demo_unicode_def List.insert_def)
    (simp add: fun_eq_iff)

lemma demo_split_cycle: "\<exists>es. Split demo_unicode [demo_app, demo_loop] [] = Some (Inl (ReadCycle es))"
  by (simp add: demo_set_defs)

lemma demo_reads: "reads [demo_app, demo_net] (S ''app'') (S ''net'')"
  by (simp add: reads_def estate_owner_def demo_app_def demo_net_def S_def)

lemma demo_valid: "valid_roots [demo_app, demo_net]"
  by (simp add: valid_roots_def demo_app_def demo_net_def S_def)

theorem split_partitions_the_set_witness:
  "distinct (concat (map wv_roots (ws_waves demo_waves)))
    \<and> mset (concat (map wv_roots (ws_waves demo_waves))) = {# S ''app'', S ''net'' #}"
  using split_partitions_the_set [OF demo_split] by (simp add: demo_app_def demo_net_def)

theorem split_respects_reads_witness:
  "\<exists>w v. ws_wave_of demo_waves (S ''app'') = Some w \<and> ws_wave_of demo_waves (S ''net'') = Some v
    \<and> (v < w \<or> v = 1 \<and> w = 1 \<and> {S ''app'', S ''net''} \<subseteq> canary_set demo_unicode [demo_app, demo_net] [S ''net''])"
  by (rule split_respects_reads [OF demo_split demo_reads])

theorem split_earliest_witness:
  "ws_wave_of demo_waves (S ''net'') = Some (if S ''net'' \<in> canary_set demo_unicode [demo_app, demo_net] [S ''net''] then 1
    else Max (insert (if canary_set demo_unicode [demo_app, demo_net] [S ''net''] = {} then 1 else 2)
      {v + 1 | v p. reads [demo_app, demo_net] (S ''net'') p \<and> ws_wave_of demo_waves p = Some v}))"
  by (rule split_earliest [OF demo_split]) (simp add: demo_app_def demo_net_def)

theorem split_accepts_iff_witness: "acyclicP (reads [demo_app, demo_net]) \<and> \<not> acyclicP (reads [demo_app, demo_loop])"
proof
  show "acyclicP (reads [demo_app, demo_net])"
    using split_accepts_iff [of demo_unicode "[demo_app, demo_net]" "[S ''net'']"] demo_split by blast
  have "valid_roots [demo_app, demo_loop]"
    by (simp add: valid_roots_def demo_app_def demo_loop_def S_def)
  then show "\<not> acyclicP (reads [demo_app, demo_loop])"
    using split_accepts_iff [of demo_unicode "[demo_app, demo_loop]" "[]"] demo_split_cycle
    by (auto simp: canary_set_def)
qed

theorem split_names_a_cycle_witness:
  "\<exists>e es. declared_edge [demo_app, demo_loop] e \<and> ed_producer (last (e # es)) = ed_reader e"
proof -
  obtain es where es: "Split demo_unicode [demo_app, demo_loop] [] = Some (Inl (ReadCycle es))"
    using demo_split_cycle by blast
  note cyc = split_names_a_cycle [OF es]
  then obtain e es' where "es = e # es'" by (cases es) auto
  then show ?thesis using cyc by (intro exI [of _ e] exI [of _ es']) simp
qed

end
