(* ===== verification/WaveApply.thy ===== *)
theory WaveApply
  imports WaveFacts GoBytes
begin

text \<open>
  Wave apply, \<open>internal/live/waves/apply.go\<close>: one wave of an approved set is applied.  The resume
  file, the gates before anything is applied, the order within the wave and the outcomes.

  The world a run acts on is a type of its own, \<open>'w\<close>: planning (\<open>PlanRoots\<close>), applying
  (\<open>Apply\<close>) and writing the resume file (\<open>Save\<close>) are parameters that read and change it, SHA-256
  is a parameter too.  The tracing spans are left out.  The text of a refusal is its datatype.
\<close>

section \<open>The resume file\<close>

definition ExitApplied :: int where "ExitApplied = 0"
definition ExitError :: int where "ExitError = 1"
definition ExitSetMoved :: int where "ExitSetMoved = 3"
definition ExitRootFailed :: int where "ExitRootFailed = 4"

definition OutcomeLanded :: gostring where "OutcomeLanded = S ''landed''"
definition OutcomeFailed :: gostring where "OutcomeFailed = S ''failed''"
definition OutcomeSkipped :: gostring where "OutcomeSkipped = S ''skipped''"

definition ResumeFormatVersion :: gostring where "ResumeFormatVersion = S ''1''"

record resume_entry =
  re_root :: gostring
  re_wave :: int
  re_outcome :: gostring
  re_reason :: gostring

record resume =
  rs_format :: gostring
  rs_set_digest :: gostring
  rs_roots :: "resume_entry list"

datatype resume_error = NotAResumeFile | BadFormatVersion gostring

text \<open>
  \<open>ReadResume\<close> after the file is read: \<open>None\<close> is a file that does not exist, and \<open>decode\<close>, the
  decoding of its bytes, is the JSON library's.
\<close>

definition ReadResume :: "('b \<Rightarrow> resume option) \<Rightarrow> 'b option \<Rightarrow> resume_error + resume" where
  "ReadResume decode file = (case file of
     None \<Rightarrow> Inr \<lparr>rs_format = ResumeFormatVersion, rs_set_digest = [], rs_roots = []\<rparr>
   | Some data \<Rightarrow> (case decode data of None \<Rightarrow> Inl NotAResumeFile
     | Some r \<Rightarrow> if rs_format r \<noteq> ResumeFormatVersion then Inl (BadFormatVersion (rs_format r)) else Inr r))"

definition resume_outcome :: "resume \<Rightarrow> gostring \<Rightarrow> resume_entry option" where
  "resume_outcome r root = List.find (\<lambda>e. re_root e = root) (rs_roots r)"

fun replace_entry :: "resume_entry \<Rightarrow> resume_entry list \<Rightarrow> resume_entry list option" where
  "replace_entry e [] = None"
| "replace_entry e (x # xs) = (if re_root x = re_root e then Some (e # xs) else map_option (Cons x) (replace_entry e xs))"

text \<open>
  The first entry of the root is replaced; without one the entry is added and the file sorted.
  \<open>sort.Slice\<close> leaves the order of entries of one root open; here they keep it.
\<close>

definition resume_set :: "resume_entry \<Rightarrow> resume \<Rightarrow> resume" where
  "resume_set e r = r\<lparr>rs_roots := (case replace_entry e (rs_roots r) of Some es \<Rightarrow> es
     | None \<Rightarrow> sort_key re_root (rs_roots r @ [e]))\<rparr>"

section \<open>Inputs and results\<close>

record fresh_plan =
  fp_plan :: root_plan
  fp_file :: gostring

record 'w runner =
  ru_plan :: "gostring list \<Rightarrow> 'w \<Rightarrow> (gostring + (gostring \<rightharpoonup> fresh_plan)) \<times> 'w"
  ru_apply :: "gostring \<Rightarrow> gostring \<Rightarrow> 'w \<Rightarrow> gostring option \<times> 'w"
  ru_save :: "resume \<Rightarrow> 'w \<Rightarrow> gostring option \<times> 'w"

text \<open>The \<open>Document\<close> of a split: the fields an apply reads.\<close>

record wave_document =
  wd_waves :: "wave list"
  wd_edges :: "edge list"

record apply_options =
  ao_set :: set_document
  ao_approved :: gostring
  ao_waves :: wave_document
  ao_wave :: int

record moved =
  mv_root :: gostring
  mv_approved :: gostring
  mv_fresh :: gostring

datatype apply_refusal =
    NoSuchWave int nat
  | SetDigestErr digest_error
  | NotTheApprovedSet gostring gostring
  | ResumeOfAnotherSet gostring gostring
  | FreshPlanErr gostring
  | NoFreshPlan gostring
  | FreshDigestErr digest_error
  | PlansMoved "gostring list" int
  | WaveCycle int

record apply_result =
  ar_exit :: int
  ar_wave :: int
  ar_error :: "apply_refusal option"
  ar_moved :: "moved list"
  ar_outcomes :: "resume_entry list"
  ar_applied :: "gostring list"

text \<open>What changes while the outcomes are decided.\<close>

record 'w apply_state =
  st_resume :: resume
  st_decided :: "gostring \<rightharpoonup> resume_entry"
  st_applied :: "gostring list"
  st_world :: 'w

section \<open>The order within a wave\<close>

definition wave_num :: "(gostring \<rightharpoonup> nat) \<Rightarrow> gostring \<Rightarrow> int" where
  "wave_num waveOf r = (case waveOf r of None \<Rightarrow> 0 | Some w \<Rightarrow> int w)"

definition ready :: "gostring list \<Rightarrow> (gostring \<Rightarrow> gostring list) \<Rightarrow> (gostring \<rightharpoonup> nat) \<Rightarrow> int \<Rightarrow> gostring list \<Rightarrow> gostring \<Rightarrow> bool" where
  "ready roots producers waveOf wave out r \<longleftrightarrow>
     list_all (\<lambda>p. \<not> (wave_num waveOf p = wave \<and> p \<in> set roots \<and> p \<notin> set out)) (producers r)"

text \<open>
  One round over the sorted roots; the map \<open>done\<close> of the code holds exactly the roots that are
  out.
\<close>

fun order_round :: "gostring list \<Rightarrow> (gostring \<Rightarrow> gostring list) \<Rightarrow> (gostring \<rightharpoonup> nat) \<Rightarrow> int \<Rightarrow> gostring list
    \<Rightarrow> gostring list \<Rightarrow> gostring list" where
  "order_round roots producers waveOf wave [] out = out"
| "order_round roots producers waveOf wave (r # rs) out =
     (if r \<notin> set out \<and> ready roots producers waveOf wave out r
      then order_round roots producers waveOf wave rs (out @ [r])
      else order_round roots producers waveOf wave rs out)"

function order_rounds :: "gostring list \<Rightarrow> (gostring \<Rightarrow> gostring list) \<Rightarrow> (gostring \<rightharpoonup> nat) \<Rightarrow> int \<Rightarrow> gostring list
    \<Rightarrow> gostring list option" where
  "order_rounds roots producers waveOf wave out =
     (if length roots \<le> length out then Some out
      else (let out' = order_round roots producers waveOf wave (sort roots) out
            in if length out' \<le> length out then None else order_rounds roots producers waveOf wave out'))"
  by pat_completeness auto
termination by (relation "measure (\<lambda>(roots, _, _, _, out). length roots - length out)") auto

text \<open>\<open>None\<close> is the error that the roots read each other in a cycle.\<close>

definition waveOrder :: "gostring list \<Rightarrow> (gostring \<Rightarrow> gostring list) \<Rightarrow> (gostring \<rightharpoonup> nat) \<Rightarrow> int \<Rightarrow> gostring list option" where
  "waveOrder roots producers waveOf wave = order_rounds roots producers waveOf wave []"

declare order_rounds.simps [simp del]

section \<open>Deciding outcomes\<close>

definition firstLine :: "unicode \<Rightarrow> gostring \<Rightarrow> gostring" where
  "firstLine u s = takeWhile (\<lambda>r. r \<noteq> 10) (trim_space u s)"

definition decide :: "'w runner \<Rightarrow> int \<Rightarrow> resume_entry \<Rightarrow> 'w apply_state \<Rightarrow> gostring option \<times> 'w apply_state" where
  "decide run wave e st =
     (let e = e\<lparr>re_wave := wave\<rparr>;
          rs = resume_set e (st_resume st);
          (err, w) = ru_save run rs (st_world st)
      in (err, st\<lparr>st_decided := (st_decided st)(re_root e \<mapsto> e), st_resume := rs, st_world := w\<rparr>))"

text \<open>Why a producer has not landed; \<open>None\<close> when it has.\<close>

definition landedOrWhy :: "(gostring \<rightharpoonup> nat) \<Rightarrow> (gostring \<rightharpoonup> resume_entry) \<Rightarrow> resume \<Rightarrow> gostring \<Rightarrow> gostring option" where
  "landedOrWhy waveOf decided rs p =
     (let why = (\<lambda>o'. p @ S '' (wave '' @ itoa (wave_num waveOf p) @ S '') '' @ o') in
      case decided p of
        Some e \<Rightarrow> if re_outcome e = OutcomeLanded then None else Some (why (re_outcome e))
      | None \<Rightarrow> (case resume_outcome rs p of
          Some e \<Rightarrow> if re_outcome e = OutcomeLanded then None else Some (why (re_outcome e))
        | None \<Rightarrow> Some (why (S ''has not been applied''))))"

definition not_landed :: "(gostring \<rightharpoonup> nat) \<Rightarrow> (gostring \<rightharpoonup> resume_entry) \<Rightarrow> resume \<Rightarrow> gostring list \<Rightarrow> gostring list" where
  "not_landed waveOf decided rs ps = List.map_filter (landedOrWhy waveOf decided rs) ps"

definition entry :: "gostring \<Rightarrow> gostring \<Rightarrow> gostring \<Rightarrow> resume_entry" where
  "entry root outcome reason = \<lparr>re_root = root, re_wave = 0, re_outcome = outcome, re_reason = reason\<rparr>"

definition skipped :: "gostring \<Rightarrow> gostring list \<Rightarrow> resume_entry" where
  "skipped r why = entry r OutcomeSkipped (S ''it reads '' @ join_str (S '', '') why)"

fun decide_all :: "'w runner \<Rightarrow> int \<Rightarrow> resume_entry list \<Rightarrow> 'w apply_state \<Rightarrow> gostring option \<times> 'w apply_state" where
  "decide_all run wave [] st = (None, st)"
| "decide_all run wave (e # es) st =
     (case decide run wave e st of (Some err, st) \<Rightarrow> (Some err, st) | (None, st) \<Rightarrow> decide_all run wave es st)"

section \<open>What is left of a wave\<close>

record remaining =
  rm_landed :: "resume_entry list"
  rm_decided :: "resume_entry list"
  rm_left :: "gostring list"

definition landed_entry :: "resume \<Rightarrow> gostring \<Rightarrow> resume_entry option" where
  "landed_entry rs r = (case resume_outcome rs r of None \<Rightarrow> None
     | Some e \<Rightarrow> if re_outcome e = OutcomeLanded then Some e else None)"

definition plan_of :: "(gostring \<rightharpoonup> root_plan) \<Rightarrow> gostring \<Rightarrow> root_plan" where
  "plan_of byRoot r = (case byRoot r of Some p \<Rightarrow> p
     | None \<Rightarrow> \<lparr>rp_root = [], rp_estate = [], rp_status = [], rp_error = [], rp_plan = None\<rparr>)"

fun whats_left :: "unicode \<Rightarrow> (gostring \<rightharpoonup> root_plan) \<Rightarrow> (gostring \<Rightarrow> gostring list) \<Rightarrow> (gostring \<rightharpoonup> nat) \<Rightarrow> int \<Rightarrow> resume
    \<Rightarrow> gostring list \<Rightarrow> remaining" where
  "whats_left u byRoot producers waveOf wave rs [] = \<lparr>rm_landed = [], rm_decided = [], rm_left = []\<rparr>"
| "whats_left u byRoot producers waveOf wave rs (r # roots) =
     (let rest = whats_left u byRoot producers waveOf wave rs roots;
          ap = plan_of byRoot r;
          why = not_landed waveOf Map.empty rs (filter (\<lambda>p. wave_num waveOf p < wave) (producers r))
      in case landed_entry rs r of
           Some e \<Rightarrow> rest\<lparr>rm_landed := e # rm_landed rest\<rparr>
         | None \<Rightarrow>
             if rp_status ap \<noteq> StatusPlanned
             then rest\<lparr>rm_decided := entry r OutcomeFailed
                    (S ''the approved set plan has no plan for this root: '' @ firstLine u (rp_error ap)) # rm_decided rest\<rparr>
             else if why \<noteq> [] then rest\<lparr>rm_decided := skipped r why # rm_decided rest\<rparr>
             else rest\<lparr>rm_left := r # rm_left rest\<rparr>)"

section \<open>The fresh plans\<close>

text \<open>
  The loop over what is left, with the roots whose fresh plan failed and those whose plan moved so
  far; an error comes with the roots that had moved before it.
\<close>

fun check_fresh :: "(gostring \<Rightarrow> gostring) \<Rightarrow> unicode \<Rightarrow> (gostring \<rightharpoonup> root_plan) \<Rightarrow> (gostring \<rightharpoonup> gostring)
    \<Rightarrow> (gostring \<rightharpoonup> fresh_plan) \<Rightarrow> gostring list \<Rightarrow> resume_entry list \<Rightarrow> moved list
    \<Rightarrow> apply_refusal \<times> moved list + resume_entry list \<times> moved list" where
  "check_fresh sha256 u byRoot approved fresh [] failed mvs = Inr (failed, mvs)"
| "check_fresh sha256 u byRoot approved fresh (r # rs) failed mvs =
     (case fresh r of None \<Rightarrow> Inl (NoFreshPlan r, mvs)
      | Some f \<Rightarrow>
        if rp_status (fp_plan f) \<noteq> StatusPlanned
        then check_fresh sha256 u byRoot approved fresh rs
               (failed @ [entry r OutcomeFailed (S ''its fresh plan failed: '' @ firstLine u (rp_error (fp_plan f)))]) mvs
        else
          (case RootDigest sha256 ((fp_plan f)\<lparr>rp_root := r, rp_estate := rp_estate (plan_of byRoot r)\<rparr>) of
             Inl e \<Rightarrow> Inl (FreshDigestErr e, mvs)
           | Inr d \<Rightarrow>
             (let want = (case approved r of None \<Rightarrow> [] | Some a \<Rightarrow> a)
              in check_fresh sha256 u byRoot approved fresh rs failed
                   (if d \<noteq> want then mvs @ [\<lparr>mv_root = r, mv_approved = want, mv_fresh = d\<rparr>] else mvs))))"

section \<open>Applying the roots\<close>

definition apply_root :: "'w runner \<Rightarrow> unicode \<Rightarrow> int \<Rightarrow> (gostring \<Rightarrow> gostring list) \<Rightarrow> (gostring \<rightharpoonup> nat) \<Rightarrow> (gostring \<rightharpoonup> fresh_plan)
    \<Rightarrow> gostring \<Rightarrow> 'w apply_state \<Rightarrow> gostring option \<times> 'w apply_state" where
  "apply_root run u wave producers waveOf fresh r st =
     (let why = not_landed waveOf (st_decided st) (st_resume st) (filter (\<lambda>p. wave_num waveOf p = wave) (producers r));
          file = (case fresh r of None \<Rightarrow> [] | Some f \<Rightarrow> fp_file f)
      in if why \<noteq> [] then decide run wave (skipped r why) st
         else
           (case ru_apply run r file (st_world st) of
              (Some e, w) \<Rightarrow> decide run wave (entry r OutcomeFailed (S ''its apply failed: '' @ firstLine u e))
                (st\<lparr>st_applied := st_applied st @ [r], st_world := w\<rparr>)
            | (None, w) \<Rightarrow> decide run wave (entry r OutcomeLanded [])
                (st\<lparr>st_applied := st_applied st @ [r], st_world := w\<rparr>)))"

fun apply_roots :: "'w runner \<Rightarrow> unicode \<Rightarrow> int \<Rightarrow> (gostring \<Rightarrow> gostring list) \<Rightarrow> (gostring \<rightharpoonup> nat) \<Rightarrow> (gostring \<rightharpoonup> fresh_plan)
    \<Rightarrow> gostring list \<Rightarrow> 'w apply_state \<Rightarrow> gostring option \<times> 'w apply_state" where
  "apply_roots run u wave producers waveOf fresh [] st = (None, st)"
| "apply_roots run u wave producers waveOf fresh (r # rs) st =
     (if st_decided st r \<noteq> None then apply_roots run u wave producers waveOf fresh rs st
      else
        (case apply_root run u wave producers waveOf fresh r st of
           (Some e, st) \<Rightarrow> (Some e, st)
         | (None, st) \<Rightarrow> apply_roots run u wave producers waveOf fresh rs st))"

section \<open>The apply of a wave\<close>

definition by_root :: "root_plan list \<Rightarrow> gostring \<rightharpoonup> root_plan" where
  "by_root roots = map_of (rev (map (\<lambda>r. (rp_root r, r)) roots))"

definition wave_of :: "wave list \<Rightarrow> gostring \<rightharpoonup> nat" where
  "wave_of wvs = map_of (rev (concat (map (\<lambda>w. map (\<lambda>r. (r, wv_number w)) (wv_roots w)) wvs)))"

definition edge_producers :: "edge list \<Rightarrow> gostring \<Rightarrow> gostring list" where
  "edge_producers es r = map ed_producer (filter (\<lambda>e. ed_reader e = r) es)"

text \<open>
  A refusal: the exit code, the reason and the roots that moved; nothing of the wave has been
  applied, and \<open>landed\<close> are the outcomes of the roots that had landed before.
\<close>

definition refuse :: "int \<Rightarrow> resume_entry list \<Rightarrow> moved list \<Rightarrow> int \<Rightarrow> apply_refusal \<Rightarrow> apply_result" where
  "refuse wave landed mvs code reason = \<lparr>ar_exit = code, ar_wave = wave, ar_error = Some reason, ar_moved = mvs,
     ar_outcomes = landed, ar_applied = []\<rparr>"

definition finished :: "int \<Rightarrow> resume_entry list \<Rightarrow> gostring list \<Rightarrow> 'w apply_state \<Rightarrow> apply_result" where
  "finished wave landed roots st =
     (let outcomes = sort_key re_root (landed @ List.map_filter (st_decided st) roots)
      in \<lparr>ar_exit = (if list_all (\<lambda>e. re_outcome e = OutcomeLanded) outcomes then ExitApplied else ExitRootFailed),
          ar_wave = wave, ar_error = None, ar_moved = [], ar_outcomes = outcomes, ar_applied = st_applied st\<rparr>)"

text \<open>The part after the gates: the outcomes are decided and the roots applied.\<close>

definition apply_wave :: "'w runner \<Rightarrow> unicode \<Rightarrow> int \<Rightarrow> (gostring \<Rightarrow> gostring list) \<Rightarrow> (gostring \<rightharpoonup> nat) \<Rightarrow> (gostring \<rightharpoonup> fresh_plan)
    \<Rightarrow> remaining \<Rightarrow> resume_entry list \<Rightarrow> gostring list \<Rightarrow> 'w apply_state \<Rightarrow> (gostring + apply_result) \<times> 'w apply_state" where
  "apply_wave run u wave producers waveOf fresh rem failed roots st =
     (case decide_all run wave (rm_decided rem @ failed) st of
        (Some e, st) \<Rightarrow> (Inl e, st)
      | (None, st) \<Rightarrow>
        (case waveOrder (rm_left rem) producers waveOf wave of
           None \<Rightarrow> (Inr (refuse wave (rm_landed rem) [] ExitError (WaveCycle wave)), st)
         | Some order \<Rightarrow>
           (case apply_roots run u wave producers waveOf fresh order st of
              (Some e, st) \<Rightarrow> (Inl e, st)
            | (None, st) \<Rightarrow> (Inr (finished wave (rm_landed rem) roots st), st))))"

definition Apply :: "(gostring \<Rightarrow> gostring) \<Rightarrow> unicode \<Rightarrow> 'w runner \<Rightarrow> apply_options \<Rightarrow> resume \<Rightarrow> 'w
    \<Rightarrow> (gostring + apply_result) \<times> 'w apply_state" where
  "Apply sha256 u run opts rs w =
     (let wave = ao_wave opts;
          wvs = wd_waves (ao_waves opts);
          st = \<lparr>st_resume = rs, st_decided = Map.empty, st_applied = [], st_world = w\<rparr>
      in if wave < 1 \<or> wave > int (length wvs) then (Inr (refuse wave [] [] ExitError (NoSuchWave wave (length wvs))), st)
         else
           (case DocumentDigests sha256 (ao_set opts) of
              Inl e \<Rightarrow> (Inr (refuse wave [] [] ExitError (SetDigestErr e)), st)
            | Inr (approvedRoots, setDigest) \<Rightarrow>
              if setDigest \<noteq> ao_approved opts
              then (Inr (refuse wave [] [] ExitSetMoved (NotTheApprovedSet setDigest (ao_approved opts))), st)
              else if rs_set_digest rs \<noteq> [] \<and> rs_set_digest rs \<noteq> ao_approved opts
              then (Inr (refuse wave [] [] ExitError (ResumeOfAnotherSet (rs_set_digest rs) (ao_approved opts))), st)
              else
                (let rs = rs\<lparr>rs_set_digest := ao_approved opts, rs_format := ResumeFormatVersion\<rparr>;
                     byRoot = by_root (sd_roots (ao_set opts));
                     waveOf = wave_of wvs;
                     producers = edge_producers (wd_edges (ao_waves opts));
                     roots = wv_roots (wvs ! (nat wave - 1));
                     rem = whats_left u byRoot producers waveOf wave rs roots;
                     (planned, w) = (if rm_left rem = [] then (Inr Map.empty, w) else ru_plan run (rm_left rem) w);
                     st = st\<lparr>st_resume := rs, st_world := w\<rparr>;
                     refused = refuse wave (rm_landed rem)
                 in case planned of
                      Inl e \<Rightarrow> (Inr (refused [] ExitError (FreshPlanErr e)), st)
                    | Inr fresh \<Rightarrow>
                      (case check_fresh sha256 u byRoot approvedRoots fresh (rm_left rem) [] [] of
                         Inl (reason, mvs) \<Rightarrow> (Inr (refused mvs ExitError reason), st)
                       | Inr (failed, mvs) \<Rightarrow>
                         if mvs \<noteq> []
                         then (Inr (refused mvs ExitSetMoved (PlansMoved (map mv_root mvs) wave)), st)
                         else apply_wave run u wave producers waveOf fresh rem failed roots st))))"

end
