(* ===== verification/WaveApplyFacts.thy ===== *)
theory WaveApplyFacts
  imports WaveApply
begin

text \<open>
  What a wave apply guarantees.  The resume file is an interface, \<open>outcome_file\<close>: a store whose
  lookup after a store finds what was stored and nothing else changed.  The order within the wave
  puts producers first, the gates let nothing through that is not the approved set, and the file
  accounts for every root.
\<close>

section \<open>The interface of the resume file\<close>

locale outcome_file =
  fixes lookup :: "'f \<Rightarrow> 'k \<Rightarrow> 'e option" and store :: "'e \<Rightarrow> 'f \<Rightarrow> 'f" and key :: "'e \<Rightarrow> 'k"
  assumes lookup_store: "lookup (store e f) k = (if k = key e then Some e else lookup f k)"
begin

text \<open>A file together with what a run has decided: the decisions lie over what was in the file.\<close>

lemma overlay_store:
  assumes "\<And>k. lookup f k = (case d k of Some e \<Rightarrow> Some e | None \<Rightarrow> lookup f0 k)"
  shows "lookup (store e f) k = (case (d(key e \<mapsto> e)) k of Some e \<Rightarrow> Some e | None \<Rightarrow> lookup f0 k)"
  using assms by (simp add: lookup_store)

lemma store_frame: "k \<noteq> key e \<Longrightarrow> lookup (store e f) k = lookup f k"
  by (simp add: lookup_store)

end

lemma find_filter: "List.find P xs = (case filter P xs of [] \<Rightarrow> None | x # _ \<Rightarrow> Some x)"
  by (induction xs) auto

lemma find_sort_key: "List.find (\<lambda>x. f x = k) (sort_key f xs) = List.find (\<lambda>x. f x = k) xs"
  unfolding find_filter using sort_key_stable [of f k xs] by (simp only:)

lemma replace_entry_None: "replace_entry e xs = None \<longleftrightarrow> re_root e \<notin> re_root ` set xs"
  by (induction xs) auto

lemma replace_entry_Some: "replace_entry e xs = Some ys \<Longrightarrow>
    List.find (\<lambda>x. re_root x = k) ys = (if k = re_root e then Some e else List.find (\<lambda>x. re_root x = k) xs)"
  by (induction xs arbitrary: ys) (auto split: if_splits)

lemma find_append: "List.find P (xs @ ys) = (case List.find P xs of None \<Rightarrow> List.find P ys | Some x \<Rightarrow> Some x)"
  by (induction xs) auto

lemma resume_outcome_set: "resume_outcome (resume_set e rs) k = (if k = re_root e then Some e else resume_outcome rs k)"
proof (cases "replace_entry e (rs_roots rs)")
  case None
  then have "List.find (\<lambda>x. re_root x = re_root e) (rs_roots rs) = None"
    unfolding find_None_list_all list_all_iff replace_entry_None by (metis imageI)
  then show ?thesis using None
    by (auto simp: resume_outcome_def resume_set_def find_sort_key find_append split: option.split)
qed (simp add: resume_outcome_def resume_set_def replace_entry_Some)

interpretation outcomes: outcome_file resume_outcome resume_set re_root
  by unfold_locales (rule resume_outcome_set)

section \<open>The order within the wave\<close>

text \<open>\<open>p\<close> has to land before \<open>r\<close> within the wave.\<close>

definition wave_edge :: "gostring list \<Rightarrow> (gostring \<Rightarrow> gostring list) \<Rightarrow> (gostring \<rightharpoonup> nat) \<Rightarrow> int \<Rightarrow> gostring \<Rightarrow> gostring \<Rightarrow> bool" where
  "wave_edge roots producers waveOf wave p r \<longleftrightarrow> {p, r} \<subseteq> set roots \<and> p \<in> set (producers r) \<and> wave_num waveOf p = wave"

definition edges_first :: "gostring list \<Rightarrow> (gostring \<Rightarrow> gostring list) \<Rightarrow> (gostring \<rightharpoonup> nat) \<Rightarrow> int \<Rightarrow> gostring list \<Rightarrow> bool" where
  "edges_first roots producers waveOf wave out \<longleftrightarrow>
     (\<forall>xs r ys. out = xs @ r # ys \<longrightarrow> (\<forall>p. wave_edge roots producers waveOf wave p r \<longrightarrow> p \<in> set xs))"

lemma edges_first_Nil [simp]: "edges_first roots producers waveOf wave []"
  by (simp add: edges_first_def)

lemma edges_first_snoc: "edges_first roots producers waveOf wave (out @ [r]) \<longleftrightarrow>
    edges_first roots producers waveOf wave out \<and> (\<forall>p. wave_edge roots producers waveOf wave p r \<longrightarrow> p \<in> set out)"
proof -
  have "out @ [r] = xs @ x # ys \<longleftrightarrow> (ys = [] \<and> xs = out \<and> x = r) \<or> (\<exists>zs. ys = zs @ [r] \<and> out = xs @ x # zs)" for xs x ys
    by (cases ys rule: rev_cases) auto
  then show ?thesis unfolding edges_first_def by (auto 4 3)
qed

lemma ready_iff: "r \<in> set roots \<Longrightarrow> ready roots producers waveOf wave out r \<longleftrightarrow>
    (\<forall>p. wave_edge roots producers waveOf wave p r \<longrightarrow> p \<in> set out)"
  by (auto simp: ready_def wave_edge_def list_all_iff)

lemma order_round_grows:
  "set rs \<subseteq> set roots \<Longrightarrow> distinct out \<Longrightarrow> edges_first roots producers waveOf wave out \<Longrightarrow> set out \<subseteq> set roots \<Longrightarrow>
     \<exists>new. order_round roots producers waveOf wave rs out = out @ new \<and> distinct (out @ new)
        \<and> edges_first roots producers waveOf wave (out @ new) \<and> set new \<subseteq> set roots
        \<and> (new = [] \<longrightarrow> (\<forall>r \<in> set rs. r \<in> set out \<or> \<not> ready roots producers waveOf wave out r))"
proof (induction rs arbitrary: out)
  case (Cons r rs)
  show ?case
  proof (cases "r \<notin> set out \<and> ready roots producers waveOf wave out r")
    case True
    then obtain new where "order_round roots producers waveOf wave rs (out @ [r]) = (out @ [r]) @ new"
        "distinct ((out @ [r]) @ new)" "edges_first roots producers waveOf wave ((out @ [r]) @ new)" "set new \<subseteq> set roots"
      using Cons.IH [of "out @ [r]"] Cons.prems ready_iff [of r roots producers waveOf wave out]
      by (auto simp: edges_first_snoc)
    then show ?thesis using True Cons.prems(1) by (intro exI [of _ "r # new"]) auto
  next
    case False
    then show ?thesis using Cons.IH [of out] Cons.prems by auto
  qed
qed simp

lemma order_rounds_cases:
  assumes "distinct roots" "distinct out" "edges_first roots producers waveOf wave out" "set out \<subseteq> set roots"
  shows "(\<exists>L. order_rounds roots producers waveOf wave out = Some L \<and> distinct L \<and> set L = set roots
        \<and> edges_first roots producers waveOf wave L)
    \<or> order_rounds roots producers waveOf wave out = None
      \<and> (\<exists>X \<subseteq> set roots. X \<noteq> {} \<and> (\<forall>r \<in> X. \<exists>p \<in> X. wave_edge roots producers waveOf wave p r))"
  using assms(2-)
proof (induction "length roots - length out" arbitrary: out rule: less_induct)
  case less
  have sizes: "length roots = card (set roots)" "length out = card (set out)"
    using assms(1) less.prems(1) by (simp_all add: distinct_card)
  show ?case
  proof (cases "length roots \<le> length out")
    case True
    then have "set out = set roots" using less.prems(3) sizes by (intro card_seteq) auto
    then show ?thesis using True less.prems by (subst order_rounds.simps) auto
  next
    case False
    obtain new where new: "order_round roots producers waveOf wave (sort roots) out = out @ new" "distinct (out @ new)"
        "edges_first roots producers waveOf wave (out @ new)" "set new \<subseteq> set roots"
        "new = [] \<longrightarrow> (\<forall>r \<in> set roots. r \<in> set out \<or> \<not> ready roots producers waveOf wave out r)"
      using order_round_grows [of "sort roots" roots out producers waveOf wave] less.prems by auto
    show ?thesis
    proof (cases "new = []")
      case True
      let ?X = "set roots - set out"
      have "set roots \<noteq> set out" using False sizes by auto
      then have "?X \<noteq> {}" using less.prems(3) by blast
      moreover have "\<exists>p \<in> ?X. wave_edge roots producers waveOf wave p r" if "r \<in> ?X" for r
        using that new(5) True ready_iff [of r roots producers waveOf wave out] by (auto simp: wave_edge_def)
      moreover have "order_rounds roots producers waveOf wave out = None"
        using False new(1) True by (subst order_rounds.simps) simp
      ultimately show ?thesis by blast
    next
      case grown: False
      then have "order_rounds roots producers waveOf wave out = order_rounds roots producers waveOf wave (out @ new)"
        using False new(1) by (subst order_rounds.simps) (simp add: Let_def)
      moreover have "length roots - length (out @ new) < length roots - length out" using False grown by (cases new) auto
      ultimately show ?thesis using less.hyps [of "out @ new"] new less.prems(3) by simp
    qed
  qed
qed

lemma edges_first_acyclic:
  assumes "edges_first roots producers waveOf wave L" "set L = set roots"
  shows "acyclicP (wave_edge roots producers waveOf wave)"
proof -
  let ?P = "\<lambda>r. filter (\<lambda>p. wave_edge roots producers waveOf wave p r) (producers r)"
  have first: "producers_first ?P L" using assms(1) by (auto simp: producers_first_def edges_first_def)
  have "position L p < position L r" if "wave_edge roots producers waveOf wave p r" for p r
    using position_producer [OF first, of r p] that assms(2) by (auto simp: wave_edge_def)
  then have "{(p, r). wave_edge roots producers waveOf wave p r} \<subseteq> measure (position L)" by auto
  then show ?thesis using wf_subset [OF wf_measure] wf_acyclic by blast
qed

lemma stuck_cycle:
  assumes "X \<subseteq> set roots" "X \<noteq> {}" "\<And>r. r \<in> X \<Longrightarrow> \<exists>p \<in> X. wave_edge roots producers waveOf wave p r"
  shows "\<not> acyclicP (wave_edge roots producers waveOf wave)"
proof
  let ?E = "{(p, r). wave_edge roots producers waveOf wave p r}"
  assume "acyclicP (wave_edge roots producers waveOf wave)"
  moreover have "finite ?E" by (rule finite_subset [of _ "set roots \<times> set roots"]) (auto simp: wave_edge_def)
  ultimately have "wf ?E" using finite_acyclic_wf by blast
  moreover obtain x where "x \<in> X" using assms(2) by blast
  ultimately obtain z where "z \<in> X" "\<And>y. (y, z) \<in> ?E \<Longrightarrow> y \<notin> X" by (rule wfE_min) auto
  then show False using assms(3) by blast
qed

lemma waveOrder_cases:
  assumes "distinct roots"
  obtains L where "waveOrder roots producers waveOf wave = Some L" "distinct L" "set L = set roots"
      "edges_first roots producers waveOf wave L" "acyclicP (wave_edge roots producers waveOf wave)"
    | "waveOrder roots producers waveOf wave = None" "\<not> acyclicP (wave_edge roots producers waveOf wave)"
proof -
  from order_rounds_cases [OF assms, of "[]" producers waveOf wave]
  consider L where "waveOrder roots producers waveOf wave = Some L" "distinct L" "set L = set roots"
      "edges_first roots producers waveOf wave L"
    | X where "waveOrder roots producers waveOf wave = None" "X \<subseteq> set roots" "X \<noteq> {}"
      "\<forall>r \<in> X. \<exists>p \<in> X. wave_edge roots producers waveOf wave p r"
    unfolding waveOrder_def by auto
  then show thesis
  proof cases
    case 1
    then show thesis using that(1) edges_first_acyclic by blast
  next
    case 2
    then show thesis using that(2) stuck_cycle [of X roots] by blast
  qed
qed

section \<open>The decisions of a run\<close>

text \<open>
  What holds at every moment of a run over a resume file \<open>rs\<close>: the file is \<open>rs\<close> with the decisions
  over it; a root decided to have landed was applied; applied roots are decided, once each; and every
  producer in the wave of an applied root had landed before it and still has.
\<close>

definition file_ok :: "resume \<Rightarrow> 'w apply_state \<Rightarrow> bool" where
  "file_ok rs st \<longleftrightarrow> (\<forall>k. resume_outcome (st_resume st) k =
     (case st_decided st k of Some e \<Rightarrow> Some e | None \<Rightarrow> resume_outcome rs k))"

definition landed_in :: "resume \<Rightarrow> gostring \<Rightarrow> bool" where
  "landed_in rs r \<longleftrightarrow> landed_entry rs r \<noteq> None"

definition run_ok :: "resume \<Rightarrow> int \<Rightarrow> (gostring \<Rightarrow> gostring list) \<Rightarrow> (gostring \<rightharpoonup> nat) \<Rightarrow> 'w apply_state \<Rightarrow> bool" where
  "run_ok rs wave producers waveOf st \<longleftrightarrow> file_ok rs st \<and> rs_set_digest (st_resume st) = rs_set_digest rs
     \<and> (\<forall>k e. st_decided st k = Some e \<longrightarrow> re_root e = k \<and> re_wave e = wave)
     \<and> (\<forall>k e. st_decided st k = Some e \<and> re_outcome e = OutcomeLanded \<longrightarrow> k \<in> set (st_applied st))
     \<and> set (st_applied st) \<subseteq> dom (st_decided st) \<and> distinct (st_applied st)
     \<and> (\<forall>r \<in> set (st_applied st). \<not> landed_in rs r)
     \<and> (\<forall>xs r ys. st_applied st = xs @ r # ys \<longrightarrow> (\<forall>p \<in> set (producers r). wave_num waveOf p = wave \<longrightarrow>
          landed_in (st_resume st) p \<and> (p \<in> set xs \<or> landed_in rs p)))"

lemma outcomes_distinct [simp]: "OutcomeFailed \<noteq> OutcomeLanded" "OutcomeSkipped \<noteq> OutcomeLanded"
  by (simp_all add: OutcomeFailed_def OutcomeLanded_def OutcomeSkipped_def)

lemma landed_in_iff: "landed_in rs r \<longleftrightarrow> (\<exists>e. resume_outcome rs r = Some e \<and> re_outcome e = OutcomeLanded)"
  by (simp add: landed_in_def landed_entry_def split: option.split)

lemma landed_in_set: "landed_in (resume_set e rs) k \<longleftrightarrow> (if k = re_root e then re_outcome e = OutcomeLanded else landed_in rs k)"
  by (simp add: landed_in_iff outcomes.lookup_store)

lemma file_ok_landed:
  "file_ok rs st \<Longrightarrow> landedOrWhy waveOf (st_decided st) (st_resume st) p = None \<longleftrightarrow> landed_in (st_resume st) p"
  by (auto simp: file_ok_def landedOrWhy_def landed_in_iff Let_def split: option.split)

lemma not_landed_Nil: "not_landed waveOf d rs ps = [] \<longleftrightarrow> list_all (\<lambda>p. landedOrWhy waveOf d rs p = None) ps"
  unfolding not_landed_def by (induction ps) (simp_all add: List.map_filter_simps split: option.split)

lemma landedOrWhy_empty: "landedOrWhy waveOf Map.empty rs p = None \<longleftrightarrow> landed_in rs p"
  by (auto simp: landedOrWhy_def landed_in_iff Let_def split: option.split)

lemma resume_set_digest [simp]: "rs_set_digest (resume_set e rs) = rs_set_digest rs"
  by (simp add: resume_set_def)

lemma decide_state: "decide run wave e st = (err, st') \<Longrightarrow>
    st_decided st' = (st_decided st)(re_root e \<mapsto> e\<lparr>re_wave := wave\<rparr>) \<and> st_applied st' = st_applied st
    \<and> st_resume st' = resume_set (e\<lparr>re_wave := wave\<rparr>) (st_resume st)"
  by (auto simp: decide_def Let_def split: prod.splits)

lemma decide_file_ok:
  assumes "file_ok rs st" "decide run wave e st = (err, st')"
  shows "file_ok rs st'"
proof -
  have st': "st_decided st' = (st_decided st)(re_root (e\<lparr>re_wave := wave\<rparr>) \<mapsto> e\<lparr>re_wave := wave\<rparr>)"
    "st_resume st' = resume_set (e\<lparr>re_wave := wave\<rparr>) (st_resume st)"
    using decide_state [OF assms(2)] by simp_all
  show ?thesis unfolding file_ok_def st'
    by (intro allI outcomes.overlay_store) (use assms(1) in \<open>simp add: file_ok_def\<close>)
qed

text \<open>A decision that no root has landed keeps everything.\<close>

lemma decide_not_landed:
  assumes "run_ok rs wave producers waveOf st" "decide run wave e st = (err, st')"
    and "re_outcome e \<noteq> OutcomeLanded" "st_decided st (re_root e) = None" "\<not> landed_in rs (re_root e)"
  shows "run_ok rs wave producers waveOf st'"
proof -
  note st' = decide_state [OF assms(2)]
  have filed: "file_ok rs st" "file_ok rs st'"
    using assms(1) decide_file_ok [OF _ assms(2)] by (auto simp: run_ok_def)
  have same: "landed_in (st_resume st') p \<longleftrightarrow> landed_in (st_resume st) p" for p
  proof (cases "p = re_root e")
    case True
    have "resume_outcome (st_resume st) p = resume_outcome rs p" using filed(1) assms(4) True by (simp add: file_ok_def)
    then show ?thesis using st' True assms(3,5) by (simp add: landed_in_set) (simp add: landed_in_iff)
  qed (use st' in \<open>simp add: landed_in_set\<close>)
  show ?thesis
    using assms(1,3) st' filed(2) unfolding run_ok_def same by (auto split: if_splits)
qed

lemma decide_all_ok:
  assumes "decide_all run wave es st = (err, st')" "run_ok rs wave producers waveOf st"
    and "list_all (\<lambda>e. re_outcome e \<noteq> OutcomeLanded \<and> \<not> landed_in rs (re_root e)) es"
    and "distinct (map re_root es)" "list_all (\<lambda>e. st_decided st (re_root e) = None) es"
  shows "run_ok rs wave producers waveOf st' \<and> st_applied st' = st_applied st
    \<and> dom (st_decided st') \<subseteq> dom (st_decided st) \<union> re_root ` set es
    \<and> (err = None \<longrightarrow> st_decided st' = st_decided st ++ map_of (map (\<lambda>e. (re_root e, e\<lparr>re_wave := wave\<rparr>)) es))"
  using assms
proof (induction es arbitrary: st)
  case (Cons e es)
  obtain err1 st1 where d: "decide run wave e st = (err1, st1)" by fastforce
  note st1 = decide_state [OF d]
  have ok: "run_ok rs wave producers waveOf st1" using Cons.prems d by (intro decide_not_landed [OF _ d]) auto
  show ?case
  proof (cases err1)
    case None
    then have rec: "decide_all run wave es st1 = (err, st')" using Cons.prems(1) d by simp
    have "list_all (\<lambda>e. st_decided st1 (re_root e) = None) es"
      using Cons.prems(4,5) st1 by (auto simp: list_all_iff image_iff)
    then have IH: "run_ok rs wave producers waveOf st'" "st_applied st' = st_applied st1"
      "dom (st_decided st') \<subseteq> dom (st_decided st1) \<union> re_root ` set es"
      "err = None \<longrightarrow> st_decided st' = st_decided st1 ++ map_of (map (\<lambda>e. (re_root e, e\<lparr>re_wave := wave\<rparr>)) es)"
      using Cons.IH [OF rec ok] Cons.prems(3,4) by auto
    have "re_root e \<notin> fst ` set (map (\<lambda>e. (re_root e, e\<lparr>re_wave := wave\<rparr>)) es)"
      using Cons.prems(4) by (simp add: image_image)
    from map_upd_map_add [OF this]
    have "err = None \<longrightarrow> st_decided st' = st_decided st ++ map_of (map (\<lambda>e. (re_root e, e\<lparr>re_wave := wave\<rparr>)) (e # es))"
      using IH st1 unfolding list.map by (simp only: simp_thms)
    moreover have "dom (st_decided st') \<subseteq> dom (st_decided st) \<union> re_root ` set (e # es)" using IH(3) st1 by auto
    moreover have "st_applied st' = st_applied st" using IH(2) st1 by simp
    ultimately show ?thesis using IH(1) by blast
  next
    case (Some x)
    then have "err = Some x" "st' = st1" using Cons.prems(1) d by simp_all
    then show ?thesis using ok st1 by (auto split: if_splits)
  qed
qed simp


text \<open>One root: it is skipped, or it is applied after its producers and its outcome decided.\<close>

lemma not_landed_iff:
  assumes "file_ok rs st"
  shows "not_landed waveOf (st_decided st) (st_resume st) (filter (\<lambda>p. wave_num waveOf p = wave) ps) = []
    \<longleftrightarrow> (\<forall>p \<in> set ps. wave_num waveOf p = wave \<longrightarrow> landed_in (st_resume st) p)"
  by (auto simp: not_landed_Nil list_all_iff file_ok_landed [OF assms])

lemma run_ok_landed:
  "run_ok rs wave producers waveOf st \<Longrightarrow> landed_in (st_resume st) p \<Longrightarrow> p \<in> set (st_applied st) \<or> landed_in rs p"
  by (force simp: run_ok_def file_ok_def landed_in_iff split: option.splits)

lemma run_ok_undecided:
  "run_ok rs wave producers waveOf st \<Longrightarrow> st_decided st p = None \<Longrightarrow> landed_in (st_resume st) p \<longleftrightarrow> landed_in rs p"
  by (simp add: run_ok_def file_ok_def landed_in_iff)

lemma applied_decided:
  assumes "run_ok rs wave producers waveOf st" "st_decided st r = None" "\<not> landed_in rs r"
    and "\<forall>p \<in> set (producers r). wave_num waveOf p = wave \<longrightarrow> landed_in (st_resume st) p"
    and "decide run wave e (st\<lparr>st_applied := st_applied st @ [r], st_world := w\<rparr>) = (err, st')" "re_root e = r"
  shows "run_ok rs wave producers waveOf st'"
proof -
  let ?st = "st\<lparr>st_applied := st_applied st @ [r], st_world := w\<rparr>"
  note st' = decide_state [OF assms(5)]
  have "file_ok rs ?st" using assms(1) by (simp add: run_ok_def file_ok_def)
  then have filed: "file_ok rs st'" using assms(5) by (rule decide_file_ok)
  have keep: "landed_in (st_resume st') p" if "landed_in (st_resume st) p" for p
  proof (cases "p = r")
    case True
    then show ?thesis using that run_ok_undecided [OF assms(1,2)] assms(3) by simp
  next
    case False
    then show ?thesis using that st' assms(6) by (simp add: landed_in_set)
  qed
  have new: "r \<notin> set (st_applied st)" using assms(1,2) by (auto simp: run_ok_def)
  have order: "landed_in (st_resume st') p \<and> (p \<in> set xs \<or> landed_in rs p)"
    if split: "st_applied st @ [r] = xs @ x # ys" and p: "p \<in> set (producers x)" "wave_num waveOf p = wave" for xs x ys p
  proof (cases ys rule: rev_cases)
    case Nil
    then have "x = r" "xs = st_applied st" using split by simp_all
    then have "landed_in (st_resume st) p" using assms(4) p by blast
    then show ?thesis using keep run_ok_landed [OF assms(1)] \<open>xs = st_applied st\<close> by blast
  next
    case (snoc zs z)
    then have "st_applied st = xs @ x # zs" using split by simp
    then show ?thesis using assms(1) p keep unfolding run_ok_def by blast
  qed
  show ?thesis
    using assms(1,3,6) st' filed new order unfolding run_ok_def
    by (auto split: if_splits)
qed

lemma apply_root_ok:
  assumes "apply_root run u wave producers waveOf fresh r st = (err, st')"
    and "run_ok rs wave producers waveOf st" "st_decided st r = None" "\<not> landed_in rs r"
  shows "run_ok rs wave producers waveOf st' \<and> (\<exists>e. st_decided st' = (st_decided st)(r \<mapsto> e))
    \<and> (st_applied st' = st_applied st \<or> st_applied st' = st_applied st @ [r])"
proof -
  let ?ps = "filter (\<lambda>p. wave_num waveOf p = wave) (producers r)"
  let ?why = "not_landed waveOf (st_decided st) (st_resume st) ?ps"
  have filed: "file_ok rs st" using assms(2) by (simp add: run_ok_def)
  show ?thesis
  proof (cases "?why = []")
    case True
    then have before: "\<forall>p \<in> set (producers r). wave_num waveOf p = wave \<longrightarrow> landed_in (st_resume st) p"
      using not_landed_iff [OF filed] by blast
    obtain w e where d: "decide run wave e (st\<lparr>st_applied := st_applied st @ [r], st_world := w\<rparr>) = (err, st')" "re_root e = r"
      using assms(1) True by (auto simp: apply_root_def entry_def Let_def split: prod.splits option.splits)
    show ?thesis
      using applied_decided [OF assms(2-4) before d] decide_state [OF d(1)] d(2) by auto
  next
    case False
    then have d: "decide run wave (skipped r ?why) st = (err, st')" using assms(1) by (simp add: apply_root_def Let_def)
    have "re_root (skipped r ?why) = r" "re_outcome (skipped r ?why) \<noteq> OutcomeLanded"
      by (simp_all add: skipped_def entry_def)
    then show ?thesis
      using decide_not_landed [OF assms(2) d] decide_state [OF d] assms(3,4) by auto
  qed
qed

lemma apply_roots_ok:
  assumes "apply_roots run u wave producers waveOf fresh order st = (err, st')"
    and "run_ok rs wave producers waveOf st" "list_all (\<lambda>r. \<not> landed_in rs r) order"
  shows "run_ok rs wave producers waveOf st' \<and> st_decided st \<subseteq>\<^sub>m st_decided st'
    \<and> set (st_applied st') \<subseteq> set (st_applied st) \<union> {r \<in> set order. st_decided st r = None}
    \<and> dom (st_decided st') \<subseteq> dom (st_decided st) \<union> set order
    \<and> (err = None \<longrightarrow> set order \<subseteq> dom (st_decided st'))"
  using assms
proof (induction order arbitrary: st)
  case (Cons r order)
  show ?case
  proof (cases "st_decided st r")
    case (Some e)
    then have "apply_roots run u wave producers waveOf fresh order st = (err, st')" using Cons.prems(1) by simp
    from Cons.IH [OF this Cons.prems(2)] Cons.prems(3) show ?thesis using Some by (auto dest: map_le_implies_dom_le)
  next
    case None
    obtain err1 st1 where step: "apply_root run u wave producers waveOf fresh r st = (err1, st1)" by fastforce
    have "\<not> landed_in rs r" using Cons.prems(3) by simp
    from apply_root_ok [OF step Cons.prems(2) None this]
    obtain e where st1: "run_ok rs wave producers waveOf st1" "st_decided st1 = (st_decided st)(r \<mapsto> e)"
        "st_applied st1 = st_applied st \<or> st_applied st1 = st_applied st @ [r]"
      by blast
    have le: "st_decided st \<subseteq>\<^sub>m st_decided st1" using None st1(2) by (auto simp: map_le_def)
    show ?thesis
    proof (cases err1)
      case None': None
      then have rec: "apply_roots run u wave producers waveOf fresh order st1 = (err, st')"
        using Cons.prems(1) None step by simp
      from Cons.IH [OF rec st1(1)] Cons.prems(3)
      have IH: "run_ok rs wave producers waveOf st'" "st_decided st1 \<subseteq>\<^sub>m st_decided st'"
          "set (st_applied st') \<subseteq> set (st_applied st1) \<union> {r \<in> set order. st_decided st1 r = None}"
          "dom (st_decided st') \<subseteq> dom (st_decided st1) \<union> set order"
          "err = None \<longrightarrow> set order \<subseteq> dom (st_decided st')"
        by auto
      have "r \<in> dom (st_decided st')" using IH(2) st1(2) map_le_implies_dom_le by fastforce
      then show ?thesis using IH st1 None map_le_trans [OF le IH(2)] by (auto split: if_splits)
    next
      case (Some x)
      then have "err = Some x" "st' = st1" using Cons.prems(1) None step by simp_all
      then show ?thesis using st1 None le by (auto simp: map_le_def)
    qed
  qed
qed auto


section \<open>The gates\<close>

definition planned_in :: "(gostring \<rightharpoonup> root_plan) \<Rightarrow> gostring \<Rightarrow> bool" where
  "planned_in byRoot r \<longleftrightarrow> rp_status (plan_of byRoot r) = StatusPlanned"

definition earlier_landed :: "(gostring \<Rightarrow> gostring list) \<Rightarrow> (gostring \<rightharpoonup> nat) \<Rightarrow> int \<Rightarrow> resume \<Rightarrow> gostring \<Rightarrow> bool" where
  "earlier_landed producers waveOf wave rs r \<longleftrightarrow> (\<forall>p \<in> set (producers r). wave_num waveOf p < wave \<longrightarrow> landed_in rs p)"

lemma why_Nil: "not_landed waveOf Map.empty rs (filter (\<lambda>p. wave_num waveOf p < wave) (producers r)) = []
    \<longleftrightarrow> earlier_landed producers waveOf wave rs r"
  by (auto simp: not_landed_Nil list_all_iff landedOrWhy_empty earlier_landed_def)

lemma landed_entry_iff: "landed_entry rs r = None \<longleftrightarrow> \<not> landed_in rs r"
  by (simp add: landed_in_def)

lemma whats_left_ok:
  fixes u byRoot producers waveOf wave rs
  defines "left \<equiv> whats_left u byRoot producers waveOf wave rs"
  shows "rm_landed (left roots) = List.map_filter (landed_entry rs) roots
    \<and> rm_left (left roots) = filter (\<lambda>r. \<not> landed_in rs r \<and> planned_in byRoot r \<and> earlier_landed producers waveOf wave rs r) roots
    \<and> map re_root (rm_decided (left roots)) =
        filter (\<lambda>r. \<not> landed_in rs r \<and> \<not> (planned_in byRoot r \<and> earlier_landed producers waveOf wave rs r)) roots
    \<and> list_all (\<lambda>e. re_outcome e \<noteq> OutcomeLanded) (rm_decided (left roots))"
  unfolding left_def
proof (induction roots)
  case (Cons r roots)
  let ?why = "not_landed waveOf Map.empty rs (filter (\<lambda>p. wave_num waveOf p < wave) (producers r))"
  show ?case
  proof (cases "landed_entry rs r")
    case None
    then have "\<not> landed_in rs r" by (simp add: landed_entry_iff)
    then show ?thesis
      using Cons.IH None why_Nil [of waveOf rs wave producers r]
      by (cases "planned_in byRoot r"; cases "?why = []")
         (simp_all add: Let_def planned_in_def entry_def skipped_def List.map_filter_simps)
  next
    case (Some e)
    then have "landed_in rs r" by (simp add: landed_in_def)
    then show ?thesis using Cons.IH Some by (simp add: Let_def List.map_filter_simps)
  qed
qed (simp add: List.map_filter_simps)

text \<open>A fresh plan as its digest is computed: under the name and estate of the approved plan.\<close>

definition as_approved :: "(gostring \<rightharpoonup> root_plan) \<Rightarrow> gostring \<Rightarrow> root_plan \<Rightarrow> root_plan" where
  "as_approved byRoot r p = p\<lparr>rp_root := r, rp_estate := rp_estate (plan_of byRoot r)\<rparr>"

definition fresh_failed :: "(gostring \<rightharpoonup> fresh_plan) \<Rightarrow> gostring \<Rightarrow> bool" where
  "fresh_failed fresh r \<longleftrightarrow> (case fresh r of None \<Rightarrow> False | Some f \<Rightarrow> rp_status (fp_plan f) \<noteq> StatusPlanned)"

lemma check_fresh_ok:
  assumes "check_fresh sha u byRoot approved fresh rs failed mvs = Inr (failed', [])"
  shows "mvs = [] \<and> map re_root failed' = map re_root failed @ filter (fresh_failed fresh) rs
    \<and> (\<forall>e \<in> set failed'. e \<in> set failed \<or> re_outcome e \<noteq> OutcomeLanded)
    \<and> (\<forall>r \<in> set rs. \<exists>f. fresh r = Some f \<and> (rp_status (fp_plan f) = StatusPlanned \<longrightarrow>
          RootDigest sha (as_approved byRoot r (fp_plan f)) = Inr (case approved r of None \<Rightarrow> [] | Some a \<Rightarrow> a)))"
  using assms
proof (induction rs arbitrary: failed mvs)
  case (Cons r rs)
  then obtain f where f: "fresh r = Some f" by (cases "fresh r") auto
  show ?case
  proof (cases "rp_status (fp_plan f) = StatusPlanned")
    case False
    then have "check_fresh sha u byRoot approved fresh rs
        (failed @ [entry r OutcomeFailed (S ''its fresh plan failed: '' @ firstLine u (rp_error (fp_plan f)))]) mvs = Inr (failed', [])"
      using Cons.prems f by simp
    from Cons.IH [OF this] show ?thesis using f False by (auto simp: fresh_failed_def entry_def)
  next
    case True
    then obtain d where d: "RootDigest sha (as_approved byRoot r (fp_plan f)) = Inr d"
      using Cons.prems f by (auto simp: as_approved_def split: sum.splits)
    have rec: "check_fresh sha u byRoot approved fresh rs failed
        (if d \<noteq> (case approved r of None \<Rightarrow> [] | Some a \<Rightarrow> a)
         then mvs @ [\<lparr>mv_root = r, mv_approved = (case approved r of None \<Rightarrow> [] | Some a \<Rightarrow> a), mv_fresh = d\<rparr>] else mvs)
        = Inr (failed', [])"
      using Cons.prems f True d by (simp add: as_approved_def Let_def)
    note IH = Cons.IH [OF rec]
    then have "d = (case approved r of None \<Rightarrow> [] | Some a \<Rightarrow> a)" by (auto split: if_splits)
    then show ?thesis using IH f True d by (auto simp: fresh_failed_def)
  qed
qed simp


section \<open>The whole apply\<close>

definition opts_roots :: "apply_options \<Rightarrow> gostring list" where
  "opts_roots opts = wv_roots (wd_waves (ao_waves opts) ! (nat (ao_wave opts) - 1))"

definition opts_producers :: "apply_options \<Rightarrow> gostring \<Rightarrow> gostring list" where
  "opts_producers opts = edge_producers (wd_edges (ao_waves opts))"

definition opts_wave_of :: "apply_options \<Rightarrow> gostring \<rightharpoonup> nat" where
  "opts_wave_of opts = wave_of (wd_waves (ao_waves opts))"

definition opts_plans :: "apply_options \<Rightarrow> gostring \<rightharpoonup> root_plan" where
  "opts_plans opts = by_root (sd_roots (ao_set opts))"

definition opts_left :: "unicode \<Rightarrow> apply_options \<Rightarrow> resume \<Rightarrow> remaining" where
  "opts_left u opts rs = whats_left u (opts_plans opts) (opts_producers opts) (opts_wave_of opts) (ao_wave opts) rs (opts_roots opts)"

definition bound_to :: "apply_options \<Rightarrow> resume \<Rightarrow> resume" where
  "bound_to opts rs = rs\<lparr>rs_set_digest := ao_approved opts, rs_format := ResumeFormatVersion\<rparr>"

lemma bound_to_outcome [simp]: "resume_outcome (bound_to opts rs) = resume_outcome rs"
  by (simp add: fun_eq_iff resume_outcome_def bound_to_def)

lemma bound_to_landed [simp]: "landed_in (bound_to opts rs) = landed_in rs" "landed_entry (bound_to opts rs) = landed_entry rs"
  by (simp_all add: fun_eq_iff landed_in_iff landed_entry_def)

definition plan_left :: "'w runner \<Rightarrow> gostring list \<Rightarrow> 'w \<Rightarrow> (gostring + (gostring \<rightharpoonup> fresh_plan)) \<times> 'w" where
  "plan_left run left w = (if left = [] then (Inr Map.empty, w) else ru_plan run left w)"

text \<open>\<open>Apply\<close> over these names.\<close>

lemma Apply_eq: "Apply sha u run opts rs w =
    (let st = \<lparr>st_resume = rs, st_decided = Map.empty, st_applied = [], st_world = w\<rparr>
      in if ao_wave opts < 1 \<or> ao_wave opts > int (length (wd_waves (ao_waves opts)))
         then (Inr (refuse (ao_wave opts) [] [] ExitError (NoSuchWave (ao_wave opts) (length (wd_waves (ao_waves opts))))), st)
         else
           (case DocumentDigests sha (ao_set opts) of
              Inl e \<Rightarrow> (Inr (refuse (ao_wave opts) [] [] ExitError (SetDigestErr e)), st)
            | Inr (approvedRoots, setDigest) \<Rightarrow>
              if setDigest \<noteq> ao_approved opts
              then (Inr (refuse (ao_wave opts) [] [] ExitSetMoved (NotTheApprovedSet setDigest (ao_approved opts))), st)
              else if rs_set_digest rs \<noteq> [] \<and> rs_set_digest rs \<noteq> ao_approved opts
              then (Inr (refuse (ao_wave opts) [] [] ExitError (ResumeOfAnotherSet (rs_set_digest rs) (ao_approved opts))), st)
              else
                (let (planned, w) = plan_left run (rm_left (opts_left u opts (bound_to opts rs))) w; st = st\<lparr>st_resume := bound_to opts rs, st_world := w\<rparr>
                 in case planned of
                      Inl e \<Rightarrow> (Inr (refuse (ao_wave opts) (rm_landed (opts_left u opts (bound_to opts rs))) [] ExitError (FreshPlanErr e)), st)
                    | Inr fresh \<Rightarrow>
                      (case check_fresh sha u (opts_plans opts) approvedRoots fresh (rm_left (opts_left u opts (bound_to opts rs))) [] [] of
                         Inl (reason, mvs) \<Rightarrow> (Inr (refuse (ao_wave opts) (rm_landed (opts_left u opts (bound_to opts rs))) mvs ExitError reason), st)
                       | Inr (failed, mvs) \<Rightarrow>
                         if mvs \<noteq> []
                         then (Inr (refuse (ao_wave opts) (rm_landed (opts_left u opts (bound_to opts rs))) mvs ExitSetMoved (PlansMoved (map mv_root mvs) (ao_wave opts))), st)
                         else apply_wave run u (ao_wave opts) (opts_producers opts) (opts_wave_of opts) fresh (opts_left u opts (bound_to opts rs)) failed (opts_roots opts) st))))"
  unfolding Apply_def opts_left_def opts_plans_def opts_producers_def opts_wave_of_def opts_roots_def bound_to_def plan_left_def
    Let_def ..

text \<open>A run is stopped at a gate with nothing applied and decided, or gets through to the roots.\<close>

lemma Apply_cases:
  assumes "Apply sha u run opts rs w = (res, st)"
  obtains (refused) code reason mvs landed w' rs' where "res = Inr (refuse (ao_wave opts) landed mvs code reason)"
      "code = ExitError \<or> code = ExitSetMoved"
      "st = \<lparr>st_resume = rs', st_decided = Map.empty, st_applied = [], st_world = w'\<rparr>" "rs_roots rs' = rs_roots rs"
  | (through) approved fresh failed w' where "1 \<le> ao_wave opts" "ao_wave opts \<le> int (length (wd_waves (ao_waves opts)))"
      "DocumentDigests sha (ao_set opts) = Inr (approved, ao_approved opts)"
      "rs_set_digest rs = [] \<or> rs_set_digest rs = ao_approved opts"
      "plan_left run (rm_left (opts_left u opts (bound_to opts rs))) w = (Inr fresh, w')"
      "check_fresh sha u (opts_plans opts) approved fresh (rm_left (opts_left u opts (bound_to opts rs))) [] [] = Inr (failed, [])"
      "apply_wave run u (ao_wave opts) (opts_producers opts) (opts_wave_of opts) fresh (opts_left u opts (bound_to opts rs)) failed
         (opts_roots opts) \<lparr>st_resume = bound_to opts rs, st_decided = Map.empty, st_applied = [], st_world = w'\<rparr> = (res, st)"
proof -
  let ?rs = "bound_to opts rs"
  let ?left = "opts_left u opts ?rs"
  have [simp]: "rs_roots ?rs = rs_roots rs" by (simp add: bound_to_def)
  show thesis
  proof (cases "ao_wave opts < 1 \<or> ao_wave opts > int (length (wd_waves (ao_waves opts)))")
    case True
    then show thesis using assms that(1) unfolding Apply_eq by (auto simp: Let_def)
  next
    case wave: False
    show thesis
    proof (cases "DocumentDigests sha (ao_set opts)")
      case (Inl e)
      then show thesis using assms wave that(1) unfolding Apply_eq by (auto simp: Let_def)
    next
      case (Inr ad)
      obtain approved digest where ad: "ad = (approved, digest)" by fastforce
      show thesis
      proof (cases "digest \<noteq> ao_approved opts \<or> rs_set_digest rs \<noteq> [] \<and> rs_set_digest rs \<noteq> ao_approved opts")
        case True
        then show thesis using assms wave that(1) Inr ad unfolding Apply_eq by (auto simp: Let_def split: if_splits)
      next
        case ours: False
        obtain planned w' where p: "plan_left run (rm_left ?left) w = (planned, w')" by fastforce
        let ?st = "\<lparr>st_resume = ?rs, st_decided = Map.empty, st_applied = [], st_world = w'\<rparr>"
        have res: "(res, st) = (case planned of
              Inl e \<Rightarrow> (Inr (refuse (ao_wave opts) (rm_landed ?left) [] ExitError (FreshPlanErr e)), ?st)
            | Inr fresh \<Rightarrow>
              (case check_fresh sha u (opts_plans opts) approved fresh (rm_left ?left) [] [] of
                 Inl (reason, mvs) \<Rightarrow> (Inr (refuse (ao_wave opts) (rm_landed ?left) mvs ExitError reason), ?st)
               | Inr (failed, mvs) \<Rightarrow>
                 if mvs \<noteq> []
                 then (Inr (refuse (ao_wave opts) (rm_landed ?left) mvs ExitSetMoved (PlansMoved (map mv_root mvs) (ao_wave opts))), ?st)
                 else apply_wave run u (ao_wave opts) (opts_producers opts) (opts_wave_of opts) fresh ?left failed (opts_roots opts) ?st))"
        proof -
          have c: "(rs_set_digest rs \<noteq> [] \<and> rs_set_digest rs \<noteq> ao_approved opts) = False"
            "(ao_wave opts < 1 \<or> ao_wave opts > int (length (wd_waves (ao_waves opts)))) = False"
            "(ao_approved opts \<noteq> ao_approved opts) = False" "digest = ao_approved opts"
            using ours wave by blast+
          show ?thesis
            using assms [symmetric]
            unfolding Apply_eq Inr ad Let_def sum.case prod.case c if_False p apply_state.simps .
        qed
        show thesis
          using res that(1) that(2) [of approved] p wave Inr ad ours
          by (auto split: sum.splits if_splits)
      qed
    qed
  qed
qed


lemma run_ok_start: "run_ok rs wave producers waveOf \<lparr>st_resume = rs, st_decided = Map.empty, st_applied = [], st_world = w\<rparr>"
  by (simp add: run_ok_def file_ok_def)

text \<open>
  Past the gates: the run keeps \<open>run_ok\<close>, applies only roots that were left and freshly planned, and
  when it finishes every root of the wave that had not landed is decided.
\<close>

lemma apply_wave_ok:
  fixes u byRoot producers waveOf wave rs roots
  defines "left \<equiv> whats_left u byRoot producers waveOf wave rs roots"
  assumes "apply_wave run u wave producers waveOf fresh left failed roots
      \<lparr>st_resume = rs, st_decided = Map.empty, st_applied = [], st_world = w\<rparr> = (res, st)"
    and "distinct roots" "map re_root failed = filter (fresh_failed fresh) (rm_left left)"
    and "\<forall>e \<in> set failed. re_outcome e \<noteq> OutcomeLanded"
  shows "run_ok rs wave producers waveOf st
    \<and> set (st_applied st) \<subseteq> {r \<in> set (rm_left left). \<not> fresh_failed fresh r}
    \<and> dom (st_decided st) \<subseteq> {r \<in> set roots. \<not> landed_in rs r}
    \<and> (\<forall>out. res = Inr out \<longrightarrow>
        (out = refuse wave (rm_landed left) [] ExitError (WaveCycle wave) \<and> st_applied st = []
          \<and> \<not> acyclicP (wave_edge (rm_left left) producers waveOf wave))
        \<or> (out = finished wave (rm_landed left) roots st \<and> dom (st_decided st) = {r \<in> set roots. \<not> landed_in rs r}))"
proof -
  let ?st = "\<lparr>st_resume = rs, st_decided = Map.empty, st_applied = [], st_world = w\<rparr>"
  let ?es = "rm_decided left @ failed"
  note L = whats_left_ok [of u byRoot producers waveOf wave rs roots, folded left_def]
  have not_landed: "list_all (\<lambda>r. \<not> landed_in rs r) (rm_left left)" using L by (simp add: list_all_iff)
  have keys: "map re_root ?es = map re_root (rm_decided left) @ filter (fresh_failed fresh) (rm_left left)"
    using assms(4) by simp
  have dist: "distinct (map re_root ?es)" unfolding keys using L assms(3) by auto
  have keyset: "re_root ` set ?es = set (map re_root ?es)" by (simp only: set_map)
  have "\<not> landed_in rs k" if "k \<in> re_root ` set ?es" for k
    using that L unfolding keyset keys by auto
  then have es: "list_all (\<lambda>e. re_outcome e \<noteq> OutcomeLanded \<and> \<not> landed_in rs (re_root e)) ?es"
    using L assms(5) by (auto simp: list_all_iff)
  obtain err1 st1 where d: "decide_all run wave ?es ?st = (err1, st1)" by fastforce
  have "list_all (\<lambda>e. st_decided ?st (re_root e) = None) ?es" by (simp add: list_all_iff)
  note D = decide_all_ok [OF d run_ok_start [of rs wave producers waveOf w] es dist this]
  have within: "re_root ` set ?es \<subseteq> {r \<in> set roots. \<not> landed_in rs r}" unfolding keyset keys using L by auto
  have dom0: "dom (st_decided st1) \<subseteq> {r \<in> set roots. \<not> landed_in rs r}"
    using D within by (simp only: apply_state.simps dom_empty Un_empty_left) (blast dest: subset_trans)
  show ?thesis
  proof (cases err1)
    case (Some e)
    then have "res = Inl e" "st = st1" using assms(2) d by (simp_all add: apply_wave_def)
    then show ?thesis using D dom0 by simp
  next
    case None
    then have dec: "st_decided st1 = map_of (map (\<lambda>e. (re_root e, e\<lparr>re_wave := wave\<rparr>)) ?es)" using D by simp
    have dom1: "dom (st_decided st1) = set (map re_root ?es)"
      unfolding dec dom_map_of_conv_image_fst by (simp add: image_image image_Un)
    have left: "distinct (rm_left left)" using L assms(3) by simp
    show ?thesis
    proof (cases rule: waveOrder_cases [OF left, of producers waveOf wave])
      case (1 order)
      obtain err2 st2 where a: "apply_roots run u wave producers waveOf fresh order st1 = (err2, st2)" by fastforce
      have "list_all (\<lambda>r. \<not> landed_in rs r) order" using not_landed 1(3) by (simp add: list_all_iff)
      from apply_roots_ok [OF a _ this] D
      have A: "run_ok rs wave producers waveOf st2" "st_decided st1 \<subseteq>\<^sub>m st_decided st2"
          "set (st_applied st2) \<subseteq> {r \<in> set order. st_decided st1 r = None}"
          "dom (st_decided st2) \<subseteq> dom (st_decided st1) \<union> set order"
          "err2 = None \<longrightarrow> set order \<subseteq> dom (st_decided st2)"
        by auto
      have "r \<in> set (rm_left left) \<and> \<not> fresh_failed fresh r" if "r \<in> set (st_applied st2)" for r
      proof -
        have "r \<in> set order" "r \<notin> dom (st_decided st1)" using A(3) that by auto
        then show ?thesis using 1(3) unfolding dom1 keys by auto
      qed
      moreover have "dom (st_decided st2) \<subseteq> {r \<in> set roots. \<not> landed_in rs r}"
        using A(4) dom0 1(3) L by auto
      moreover have "dom (st_decided st2) = {r \<in> set roots. \<not> landed_in rs r}" if "err2 = None"
      proof -
        have "dom (st_decided st2) = dom (st_decided st1) \<union> set order"
          using A(4,5) map_le_implies_dom_le [OF A(2)] that by blast
        also have "\<dots> = {r \<in> set roots. \<not> landed_in rs r}"
          unfolding dom1 keys 1(3) using L by auto
        finally show ?thesis .
      qed
      moreover have "st = st2 \<and> res = (case err2 of Some e \<Rightarrow> Inl e | None \<Rightarrow> Inr (finished wave (rm_landed left) roots st2))"
        using assms(2) d None 1(1) a by (auto simp: apply_wave_def split: option.splits)
      ultimately show ?thesis using A(1) by (auto split: option.splits)
    next
      case 2
      then have "res = Inr (refuse wave (rm_landed left) [] ExitError (WaveCycle wave))" "st = st1"
        using assms(2) d None by (simp_all add: apply_wave_def)
      then show ?thesis using D 2(2) dom0 by simp
    qed
  qed
qed


lemma finished_ok:
  assumes "run_ok rs wave producers waveOf st" "dom (st_decided st) = {r \<in> set roots. \<not> landed_in rs r}" "distinct roots"
  shows "mset (map re_root (ar_outcomes (finished wave (List.map_filter (landed_entry rs) roots) roots st))) = mset roots
    \<and> (\<forall>e \<in> set (ar_outcomes (finished wave (List.map_filter (landed_entry rs) roots) roots st)).
         resume_outcome (st_resume st) (re_root e) = Some e)"
proof -
  let ?out = "List.map_filter (landed_entry rs) roots @ List.map_filter (st_decided st) roots"
  have entry: "re_root e = r" if "landed_entry rs r = Some e" for r e
    using that by (auto simp: landed_entry_def resume_outcome_def dest!: find_SomeD split: option.splits if_splits)
  have decided: "re_root e = r" if "st_decided st r = Some e" for r e using that assms(1) by (auto simp: run_ok_def)
  have undecided: "st_decided st r = None" if "landed_in rs r" for r using that assms(2) by blast
  have "mset (map re_root (List.map_filter (landed_entry rs) rs') @ map re_root (List.map_filter (st_decided st) rs')) = mset rs'"
    if "set rs' \<subseteq> set roots" for rs'
    using that
  proof (induction rs')
    case (Cons r rs')
    show ?case
    proof (cases "landed_entry rs r")
      case None
      then have "r \<in> dom (st_decided st)" using assms(2) Cons.prems by (auto simp: landed_entry_iff)
      then show ?thesis using Cons None decided by (auto simp: List.map_filter_simps)
    next
      case (Some e)
      then have "st_decided st r = None" using undecided by (simp add: landed_in_def)
      then show ?thesis using Cons Some entry by (auto simp: List.map_filter_simps)
    qed
  qed (simp add: List.map_filter_simps)
  from this [OF subset_refl] have roots: "mset (map re_root ?out) = mset roots" by simp
  have recorded: "resume_outcome (st_resume st) (re_root e) = Some e" if "e \<in> set ?out" for e
  proof -
    from that consider r where "landed_entry rs r = Some e" | r where "st_decided st r = Some e"
      by (auto simp: List.map_filter_def)
    then show ?thesis
    proof cases
      case 1
      then have "landed_in rs r" by (simp add: landed_in_def)
      then have "st_decided st r = None" by (rule undecided)
      moreover have "re_root e = r" using 1 by (rule entry)
      moreover have "resume_outcome rs r = Some e" using 1 by (simp add: landed_entry_def split: option.splits if_splits)
      ultimately show ?thesis using assms(1) by (simp add: run_ok_def file_ok_def)
    next
      case 2
      moreover from this have "re_root e = r" by (rule decided)
      ultimately show ?thesis using assms(1) by (simp add: run_ok_def file_ok_def)
    qed
  qed
  have "ar_outcomes (finished wave (List.map_filter (landed_entry rs) roots) roots st) = sort_key re_root ?out"
    by (simp add: finished_def Let_def)
  moreover have "mset (map re_root (sort_key re_root ?out)) = mset roots"
    unfolding roots [symmetric] by (simp only: mset_map mset_sort)
  moreover have "\<forall>e \<in> set (sort_key re_root ?out). resume_outcome (st_resume st) (re_root e) = Some e"
    using recorded by (simp only: set_sort) blast
  ultimately show ?thesis by (simp only: simp_thms)
qed

text \<open>What a run comes to, for the properties: a refusal, or a run through to the roots.\<close>

lemma Apply_through:
  assumes "Apply sha u run opts rs w = (res, st)" "distinct (opts_roots opts)"
  obtains (refused) code reason mvs landed where "res = Inr (refuse (ao_wave opts) landed mvs code reason)"
      "code = ExitError \<or> code = ExitSetMoved" "st_applied st = []"
      "code = ExitSetMoved \<longrightarrow> rs_roots (st_resume st) = rs_roots rs"
  | (through) approved fresh w' where
      "DocumentDigests sha (ao_set opts) = Inr (approved, ao_approved opts)"
      "rs_set_digest rs = [] \<or> rs_set_digest rs = ao_approved opts"
      "1 \<le> ao_wave opts" "ao_wave opts \<le> int (length (wd_waves (ao_waves opts)))"
      "plan_left run (rm_left (opts_left u opts (bound_to opts rs))) w = (Inr fresh, w')"
      "\<forall>r \<in> set (rm_left (opts_left u opts (bound_to opts rs))). \<exists>f. fresh r = Some f \<and> (rp_status (fp_plan f) = StatusPlanned \<longrightarrow>
          RootDigest sha (as_approved (opts_plans opts) r (fp_plan f)) = Inr (case approved r of None \<Rightarrow> [] | Some a \<Rightarrow> a))"
      "run_ok (bound_to opts rs) (ao_wave opts) (opts_producers opts) (opts_wave_of opts) st"
      "set (st_applied st) \<subseteq> {r \<in> set (rm_left (opts_left u opts (bound_to opts rs))). \<not> fresh_failed fresh r}"
      "dom (st_decided st) \<subseteq> {r \<in> set (opts_roots opts). \<not> landed_in rs r}"
      "\<And>out. res = Inr out \<Longrightarrow> out = finished (ao_wave opts) (List.map_filter (landed_entry rs) (opts_roots opts)) (opts_roots opts) st
          \<and> dom (st_decided st) = {r \<in> set (opts_roots opts). \<not> landed_in rs r}"
  using assms(1)
proof (cases rule: Apply_cases)
  case refused
  then show thesis using that(1) by auto
next
  case (through approved fresh failed w')
  let ?left = "opts_left u opts (bound_to opts rs)"
  have C: "map re_root failed = filter (fresh_failed fresh) (rm_left ?left)" "\<forall>e \<in> set failed. re_outcome e \<noteq> OutcomeLanded"
    "\<forall>r \<in> set (rm_left ?left). \<exists>f. fresh r = Some f \<and> (rp_status (fp_plan f) = StatusPlanned \<longrightarrow>
        RootDigest sha (as_approved (opts_plans opts) r (fp_plan f)) = Inr (case approved r of None \<Rightarrow> [] | Some a \<Rightarrow> a))"
    using check_fresh_ok [OF through(6)] by simp_all
  note W = apply_wave_ok [where roots = "opts_roots opts" and rs = "bound_to opts rs" and wave = "ao_wave opts" and u = u
      and byRoot = "opts_plans opts" and producers = "opts_producers opts" and waveOf = "opts_wave_of opts",
      folded opts_left_def, OF through(7) assms(2) C(1,2), unfolded bound_to_landed]
  have landed: "rm_landed ?left = List.map_filter (landed_entry rs) (opts_roots opts)"
    using whats_left_ok [of u "opts_plans opts" "opts_producers opts" "opts_wave_of opts" "ao_wave opts" "bound_to opts rs" "opts_roots opts"]
    by (simp add: opts_left_def)
  show thesis
  proof (cases "\<exists>out. res = Inr out \<and> out = refuse (ao_wave opts) (rm_landed ?left) [] ExitError (WaveCycle (ao_wave opts))
      \<and> st_applied st = []")
    case True
    then obtain out where out: "res = Inr (refuse (ao_wave opts) (rm_landed ?left) [] ExitError (WaveCycle (ao_wave opts)))"
        "st_applied st = []"
      by blast
    have "ExitError \<noteq> ExitSetMoved" by (simp add: ExitError_def ExitSetMoved_def)
    then show thesis using that(1) [OF out(1) _ out(2)] by blast
  next
    case False
    have run: "run_ok (bound_to opts rs) (ao_wave opts) (opts_producers opts) (opts_wave_of opts) st"
      "set (st_applied st) \<subseteq> {r \<in> set (rm_left ?left). \<not> fresh_failed fresh r}"
      "dom (st_decided st) \<subseteq> {r \<in> set (opts_roots opts). \<not> landed_in rs r}"
      using W by blast+
    have fin: "out = finished (ao_wave opts) (List.map_filter (landed_entry rs) (opts_roots opts)) (opts_roots opts) st
        \<and> dom (st_decided st) = {r \<in> set (opts_roots opts). \<not> landed_in rs r}" if "res = Inr out" for out
      using W that False unfolding landed by blast
    show thesis by (rule that(2) [OF through(3,4,1,2,5) C(3) run fin])
  qed
qed

end
