(* ===== verification/WaveLanding.thy ===== *)
theory WaveLanding
  imports WaveApplyFacts
begin

text \<open>
  The properties of a wave apply: what may be applied, in which order, what the exit code says and
  that a run can be repeated; with a concrete run of two roots that shows they apply.
\<close>

section \<open>Properties\<close>

text \<open>
  C31. The order of a wave always comes out, or the refusal is right: \<open>waveOrder\<close> returns the roots,
  each once and every root after the roots of the wave it reads, unless those reads have a cycle, and
  then it reports one.
\<close>

theorem wave_order_topological:
  assumes "distinct roots"
  shows "(waveOrder roots producers waveOf wave = None \<longleftrightarrow> \<not> acyclicP (wave_edge roots producers waveOf wave))
    \<and> (\<forall>L. waveOrder roots producers waveOf wave = Some L \<longrightarrow>
         mset L = mset roots \<and> edges_first roots producers waveOf wave L)"
  using waveOrder_cases [OF assms, of producers waveOf wave]
proof cases
  case (1 L)
  then have "mset L = mset roots" using assms by (simp add: set_eq_iff_mset_eq_distinct [symmetric])
  then show ?thesis using 1 by simp
qed simp


lemma left_iff: "r \<in> set (rm_left (opts_left u opts (bound_to opts rs))) \<longleftrightarrow> r \<in> set (opts_roots opts) \<and> \<not> landed_in rs r
    \<and> planned_in (opts_plans opts) r \<and> earlier_landed (opts_producers opts) (opts_wave_of opts) (ao_wave opts) rs r"
  using whats_left_ok [of u "opts_plans opts" "opts_producers opts" "opts_wave_of opts" "ao_wave opts" "bound_to opts rs" "opts_roots opts"]
  by (auto simp: opts_left_def earlier_landed_def)

lemma approved_digest:
  assumes "DocumentDigests sha (ao_set opts) = Inr (approved, d)" "planned_in (opts_plans opts) r"
  shows "\<exists>a. approved r = Some a \<and> RootDigest sha (plan_of (opts_plans opts) r) = Inr a"
proof -
  let ?ps = "sd_roots (ao_set opts)"
  note D = DocumentDigests_Inr [OF assms(1)]
  obtain p where p: "opts_plans opts r = Some p"
    using assms(2) by (cases "opts_plans opts r") (auto simp: planned_in_def plan_of_def StatusPlanned_def S_def)
  then have in_doc: "p \<in> set ?ps" "rp_root p = r"
    by (auto simp: opts_plans_def by_root_def dest!: map_of_SomeD)
  have "approved r = Some (projr (RootDigest sha p))"
    using D in_doc by (auto simp: map_of_eq_Some_iff comp_def)
  moreover have "\<not> isl (RootDigest sha p)" using D in_doc by (simp add: list_all_iff)
  ultimately show ?thesis using p by (auto simp: plan_of_def)
qed

lemma applied_gates:
  assumes "Apply sha u run opts rs w = (res, st)" "distinct (opts_roots opts)" "r \<in> set (st_applied st)"
  shows "(\<exists>approved. DocumentDigests sha (ao_set opts) = Inr (approved, ao_approved opts))
    \<and> (rs_set_digest rs = [] \<or> rs_set_digest rs = ao_approved opts)
    \<and> r \<in> set (opts_roots opts) \<and> \<not> landed_in rs r
    \<and> (\<exists>left fresh w'. ru_plan run left w = (Inr fresh, w') \<and> r \<in> set left
        \<and> (\<forall>q \<in> set left. \<exists>f d. fresh q = Some f \<and> RootDigest sha (plan_of (opts_plans opts) q) = Inr d
             \<and> (rp_status (fp_plan f) = StatusPlanned \<longrightarrow> RootDigest sha (as_approved (opts_plans opts) q (fp_plan f)) = Inr d))
        \<and> (\<exists>f. fresh r = Some f \<and> rp_status (fp_plan f) = StatusPlanned))"
  using assms(1,2)
proof (cases rule: Apply_through)
  case refused
  then show ?thesis using assms(3) by simp
next
  case (through approved fresh w')
  let ?left = "rm_left (opts_left u opts (bound_to opts rs))"
  have r: "r \<in> set ?left" "\<not> fresh_failed fresh r" using through(8) assms(3) by auto
  then have "?left \<noteq> []" by auto
  then have plan: "ru_plan run ?left w = (Inr fresh, w')" using through(5) by (simp add: plan_left_def)
  have each: "\<exists>f d. fresh q = Some f \<and> RootDigest sha (plan_of (opts_plans opts) q) = Inr d
      \<and> (rp_status (fp_plan f) = StatusPlanned \<longrightarrow> RootDigest sha (as_approved (opts_plans opts) q (fp_plan f)) = Inr d)"
    if q: "q \<in> set ?left" for q
  proof -
    obtain f where f: "fresh q = Some f" "rp_status (fp_plan f) = StatusPlanned \<longrightarrow>
        RootDigest sha (as_approved (opts_plans opts) q (fp_plan f)) = Inr (case approved q of None \<Rightarrow> [] | Some a \<Rightarrow> a)"
      using through(6) q by blast
    have "planned_in (opts_plans opts) q" using q by (simp add: left_iff)
    from approved_digest [OF through(1) this] show ?thesis using f by auto
  qed
  moreover have "\<exists>f. fresh r = Some f \<and> rp_status (fp_plan f) = StatusPlanned"
    using each [OF r(1)] r(2) by (auto simp: fresh_failed_def)
  ultimately show ?thesis using through(1,2) plan r(1) left_iff [of r u opts rs] by blast
qed

text \<open>
  C3. Nothing is applied that was not approved.  If a run applies a root then the set plan document
  hashes to the approved digest, the resume file is new or belongs to that approval, and the root is
  one of the wave that had not landed; every root left to apply was planned afresh, and each fresh plan
  that planned, the applied root's among them, has the root digest of the approved plan.
\<close>

theorem applied_only_if_approved:
  assumes "Apply sha u run opts rs w = (res, st)" "distinct (opts_roots opts)" "r \<in> set (st_applied st)"
  shows "(\<exists>approved. DocumentDigests sha (ao_set opts) = Inr (approved, ao_approved opts))
    \<and> (rs_set_digest rs = [] \<or> rs_set_digest rs = ao_approved opts)
    \<and> r \<in> set (opts_roots opts) \<and> \<not> landed_in rs r
    \<and> (\<exists>left fresh w'. ru_plan run left w = (Inr fresh, w') \<and> r \<in> set left
        \<and> (\<forall>q \<in> set left. \<exists>f d. fresh q = Some f \<and> RootDigest sha (plan_of (opts_plans opts) q) = Inr d
             \<and> (rp_status (fp_plan f) = StatusPlanned \<longrightarrow> RootDigest sha (as_approved (opts_plans opts) q (fp_plan f)) = Inr d))
        \<and> (\<exists>f. fresh r = Some f \<and> rp_status (fp_plan f) = StatusPlanned))"
  using assms by (rule applied_gates)

lemma applied_after_producers:
  assumes "Apply sha u run opts rs w = (res, st)" "distinct (opts_roots opts)" "st_applied st = xs @ r # ys"
    and "p \<in> set (opts_producers opts r)" "wave_num (opts_wave_of opts) p \<le> ao_wave opts"
  shows "(landed_in rs p \<or> wave_num (opts_wave_of opts) p = ao_wave opts \<and> p \<in> set xs) \<and> landed_in (st_resume st) p"
  using assms(1,2)
proof (cases rule: Apply_through)
  case refused
  then show ?thesis using assms(3) by simp
next
  case (through approved fresh w')
  show ?thesis
  proof (cases "wave_num (opts_wave_of opts) p = ao_wave opts")
    case True
    then have "landed_in (st_resume st) p \<and> (p \<in> set xs \<or> landed_in (bound_to opts rs) p)"
      using through(7) assms(3,4) unfolding run_ok_def by blast
    then show ?thesis using True by auto
  next
    case False
    have "r \<in> set (rm_left (opts_left u opts (bound_to opts rs)))" using through(8) assms(3) by auto
    then have p: "landed_in rs p" using False assms(4,5) by (auto simp: left_iff earlier_landed_def)
    then have "st_decided st p = None" using through(9) by blast
    then have "landed_in (st_resume st) p" using run_ok_undecided [OF through(7)] p by simp
    then show ?thesis using p by blast
  qed
qed

text \<open>
  C9. No root is applied before what it reads: a root's producers in earlier waves had landed before
  the run, and those in its own wave had landed before the run or were applied before it in this run;
  and each of them is recorded as landed when the run ends, however it ends.
\<close>

theorem producers_land_first:
  assumes "Apply sha u run opts rs w = (res, st)" "distinct (opts_roots opts)" "st_applied st = xs @ r # ys"
    and "p \<in> set (opts_producers opts r)" "wave_num (opts_wave_of opts) p \<le> ao_wave opts"
  shows "(landed_in rs p \<or> wave_num (opts_wave_of opts) p = ao_wave opts \<and> p \<in> set xs) \<and> landed_in (st_resume st) p"
  using assms by (rule applied_after_producers)

text \<open>
  C28. What the exit code says.  A run that returns exits with 0, 1, 3 or 4.  With 1 or 3 it names a
  refusal and nothing was applied, with 3 nothing was recorded either.  With 0 or 4 every root of the
  wave has exactly one outcome, the one the resume file has for it, and the code is 0 exactly when all
  of them have landed.
\<close>

theorem apply_exit_code:
  assumes "Apply sha u run opts rs w = (Inr out, st)" "distinct (opts_roots opts)"
  shows "(ar_error out \<noteq> None \<and> (ar_exit out = ExitError \<or> ar_exit out = ExitSetMoved) \<and> st_applied st = [] \<and> ar_applied out = []
        \<and> (ar_exit out = ExitSetMoved \<longrightarrow> rs_roots (st_resume st) = rs_roots rs))
    \<or> (ar_error out = None \<and> ar_applied out = st_applied st
        \<and> ar_exit out = (if list_all (landed_in (st_resume st)) (opts_roots opts) then ExitApplied else ExitRootFailed)
        \<and> mset (map re_root (ar_outcomes out)) = mset (opts_roots opts)
        \<and> list_all (\<lambda>e. resume_outcome (st_resume st) (re_root e) = Some e) (ar_outcomes out))"
  using assms
proof (cases rule: Apply_through)
  case refused
  then show ?thesis by (auto simp: refuse_def)
next
  case (through approved fresh w')
  note fin = through(10) [OF refl]
  have "run_ok (bound_to opts rs) (ao_wave opts) (opts_producers opts) (opts_wave_of opts) st" by (rule through(7))
  from finished_ok [OF this _ assms(2)] fin
  have F: "mset (map re_root (ar_outcomes out)) = mset (opts_roots opts)"
      "\<forall>e \<in> set (ar_outcomes out). resume_outcome (st_resume st) (re_root e) = Some e"
    by simp_all
  have "set (opts_roots opts) = re_root ` set (ar_outcomes out)" using mset_eq_setD [OF F(1)] by simp
  moreover have "landed_in (st_resume st) (re_root e) \<longleftrightarrow> re_outcome e = OutcomeLanded" if "e \<in> set (ar_outcomes out)" for e
    using F(2) that by (simp add: landed_in_iff)
  ultimately have "list_all (landed_in (st_resume st)) (opts_roots opts)
      \<longleftrightarrow> list_all (\<lambda>e. re_outcome e = OutcomeLanded) (ar_outcomes out)"
    by (auto simp: list_all_iff)
  moreover have "ar_exit out = (if list_all (\<lambda>e. re_outcome e = OutcomeLanded) (ar_outcomes out) then ExitApplied else ExitRootFailed)"
      "ar_error out = None" "ar_applied out = st_applied st"
    using fin by (simp_all add: finished_def Let_def)
  ultimately show ?thesis using F by (simp add: list_all_iff)
qed


lemma run_ok_digest: "run_ok rs wave producers waveOf st \<Longrightarrow> rs_set_digest (st_resume st) = rs_set_digest rs"
  by (simp add: run_ok_def)

lemma all_landed_left:
  assumes "\<forall>r \<in> set (opts_roots opts). landed_in rs r"
  shows "rm_left (opts_left u opts (bound_to opts rs)) = [] \<and> rm_decided (opts_left u opts (bound_to opts rs)) = []
    \<and> rm_landed (opts_left u opts (bound_to opts rs)) = List.map_filter (landed_entry rs) (opts_roots opts)"
proof -
  have "map re_root (rm_decided (opts_left u opts (bound_to opts rs))) = []"
    using whats_left_ok [of u "opts_plans opts" "opts_producers opts" "opts_wave_of opts" "ao_wave opts" "bound_to opts rs" "opts_roots opts"]
      assms by (simp add: opts_left_def)
  then show ?thesis
    using whats_left_ok [of u "opts_plans opts" "opts_producers opts" "opts_wave_of opts" "ao_wave opts" "bound_to opts rs" "opts_roots opts"]
      assms by (simp add: opts_left_def)
qed

lemma Apply_all_landed:
  assumes "DocumentDigests sha (ao_set opts) = Inr (approved, ao_approved opts)" "rs_set_digest rs = ao_approved opts"
    and "1 \<le> ao_wave opts" "ao_wave opts \<le> int (length (wd_waves (ao_waves opts)))"
    and "\<forall>r \<in> set (opts_roots opts). landed_in rs r"
  shows "Apply sha u run opts rs w =
    (Inr (finished (ao_wave opts) (List.map_filter (landed_entry rs) (opts_roots opts)) (opts_roots opts)
        \<lparr>st_resume = bound_to opts rs, st_decided = Map.empty, st_applied = [], st_world = w\<rparr>),
     \<lparr>st_resume = bound_to opts rs, st_decided = Map.empty, st_applied = [], st_world = w\<rparr>)"
proof -
  note L = all_landed_left [OF assms(5), of u, unfolded opts_left_def opts_plans_def opts_producers_def opts_wave_of_def
      opts_roots_def bound_to_def]
  have order: "waveOrder [] producers waveOf wave = Some []" for producers waveOf wave
    by (simp add: waveOrder_def order_rounds.simps)
  have range: "\<not> ao_wave opts < 1" "\<not> int (length (wd_waves (ao_waves opts))) < ao_wave opts" using assms(3,4) by simp_all
  show ?thesis
    unfolding Apply_def Let_def
    by (simp add: range assms(1,2) L order apply_wave_def bound_to_def opts_roots_def del: One_nat_def)
qed

text \<open>
  C30. Applying a wave again is safe: after a run that exits with 0 another run of the same wave on the
  resume file it left, with whatever runner, exits with 0 and the same outcomes, and it plans, applies
  and saves nothing, so the world is as it was.
\<close>

theorem rerun_changes_nothing:
  assumes "Apply sha u run opts rs w = (Inr out, st)" "distinct (opts_roots opts)" "ar_exit out = ExitApplied"
  shows "\<exists>out' st'. Apply sha u run' opts (st_resume st) w' = (Inr out', st') \<and> ar_exit out' = ExitApplied
    \<and> ar_applied out' = [] \<and> ar_outcomes out' = ar_outcomes out \<and> st_world st' = w'"
  using assms(1,2)
proof (cases rule: Apply_through)
  case refused
  then show ?thesis using assms(3) by (auto simp: refuse_def ExitApplied_def ExitError_def ExitSetMoved_def)
next
  case (through approved fresh w1)
  note fin = through(10) [OF refl]
  let ?roots = "opts_roots opts"
  have out: "ar_outcomes out = sort_key re_root (List.map_filter (landed_entry rs) ?roots @ List.map_filter (st_decided st) ?roots)"
    using fin by (simp add: finished_def Let_def)
  have "list_all (\<lambda>e. re_outcome e = OutcomeLanded) (ar_outcomes out)"
    using assms(3) fin by (simp add: finished_def Let_def ExitApplied_def ExitRootFailed_def split: if_splits)
  then have landed: "re_outcome e = OutcomeLanded" if "e \<in> set (ar_outcomes out)" for e using that by (simp add: list_all_iff)
  have dom: "dom (st_decided st) = {r \<in> set ?roots. \<not> landed_in (bound_to opts rs) r}" using fin by simp
  have F: "mset (map re_root (ar_outcomes out)) = mset ?roots"
      "\<forall>e \<in> set (ar_outcomes out). resume_outcome (st_resume st) (re_root e) = Some e"
    using finished_ok [OF through(7) dom assms(2)] fin by simp_all
  have roots: "re_root ` set (ar_outcomes out) = set ?roots" using mset_eq_setD [OF F(1)] by simp
  have entries: "landed_entry (st_resume st) (re_root e) = Some e" if "e \<in> set (ar_outcomes out)" for e
    using F(2) landed that by (simp add: landed_entry_def)
  have all: "\<forall>r \<in> set ?roots. landed_in (st_resume st) r"
    unfolding roots [symmetric] using entries by (simp add: landed_in_def)
  have digest: "rs_set_digest (st_resume st) = ao_approved opts"
    using run_ok_digest [OF through(7)] by (simp add: bound_to_def)
  note again = Apply_all_landed [OF through(1) digest through(3,4) all, of u run' w']
  let ?landed = "List.map_filter (landed_entry (st_resume st)) ?roots"
  have set_landed: "set ?landed = set (ar_outcomes out)"
    unfolding List.map_filter_def using entries roots by (force simp: image_iff)
  have "map re_root (List.map_filter (landed_entry (st_resume st)) rs') = rs'" if "set rs' \<subseteq> set ?roots" for rs'
    using that
  proof (induction rs')
    case (Cons r rs')
    then have "r \<in> re_root ` set (ar_outcomes out)" unfolding roots by simp
    then obtain e where "landed_entry (st_resume st) r = Some e" "re_root e = r" using entries by auto
    then show ?case using Cons by (simp add: List.map_filter_simps)
  qed (simp add: List.map_filter_simps)
  then have "map re_root ?landed = ?roots" by blast
  then have "sort_key re_root ?landed = ar_outcomes out"
  proof (intro sort_key_unique)
    show "distinct (map re_root ?landed)" if "map re_root ?landed = ?roots" using that assms(2) by simp
    show "sorted (map re_root (ar_outcomes out))" unfolding out by simp
    show "set (ar_outcomes out) = set ?landed" using set_landed by simp
    show "distinct (map re_root (ar_outcomes out))" using F(1) assms(2) mset_eq_imp_distinct_iff by blast
  qed
  moreover have "list_all (\<lambda>e. re_outcome e = OutcomeLanded) (sort_key re_root ?landed)"
    using set_landed landed by (simp add: list_all_iff)
  ultimately show ?thesis
    unfolding again by (simp add: finished_def Let_def List.map_filter_def)
qed

section \<open>A concrete run\<close>

text \<open>Two canaries of one wave, \<open>app\<close> reading \<open>net\<close>, whose plans change nothing.\<close>

definition quiet_plan :: "string \<Rightarrow> root_plan" where
  "quiet_plan n = \<lparr>rp_root = S n, rp_estate = S n, rp_status = StatusPlanned, rp_error = [], rp_plan = None\<rparr>"

definition quiet_set :: set_document where
  "quiet_set = \<lparr>sd_roots = [quiet_plan ''app'', quiet_plan ''net'']\<rparr>"

definition quiet_waves :: wave_document where
  "quiet_waves = \<lparr>wd_waves = [\<lparr>wv_number = 1, wv_canary = True, wv_roots = [S ''app'', S ''net''], wv_edges = [], wv_digest = []\<rparr>],
     wd_edges = [\<lparr>ed_reader = S ''app'', ed_producer = S ''net'', ed_estate = S ''net'', ed_from = []\<rparr>]\<rparr>"

definition quiet_opts :: "gostring \<Rightarrow> apply_options" where
  "quiet_opts d = \<lparr>ao_set = quiet_set, ao_approved = d, ao_waves = quiet_waves, ao_wave = 1\<rparr>"

definition quiet_runner :: "nat runner" where
  "quiet_runner = \<lparr>ru_plan = (\<lambda>_ n. (Inr [S ''app'' \<mapsto> \<lparr>fp_plan = quiet_plan ''app'', fp_file = []\<rparr>,
       S ''net'' \<mapsto> \<lparr>fp_plan = quiet_plan ''net'', fp_file = []\<rparr>], n)),
     ru_apply = (\<lambda>_ _ n. (None, Suc n)), ru_save = (\<lambda>_ n. (None, n))\<rparr>"

definition new_resume :: resume where
  "new_resume = \<lparr>rs_format = ResumeFormatVersion, rs_set_digest = [], rs_roots = []\<rparr>"

definition quiet_digest :: "string \<Rightarrow> gostring" where
  "quiet_digest n = DigestPrefix @ marshal (canon_json (empty_canon (quiet_plan n)))"

lemma quiet_root_digest: "RootDigest (\<lambda>s. s) (quiet_plan n) = Inr (quiet_digest n)"
  by (simp add: RootDigest_def root_canon_of_def quiet_digest_def Let_def del: marshal.simps) (simp add: quiet_plan_def)

lemma quiet_set_digest: "\<exists>d. DocumentDigests (\<lambda>s. s) quiet_set =
    Inr ([S ''app'' \<mapsto> quiet_digest ''app'', S ''net'' \<mapsto> quiet_digest ''net''], d)"
proof -
  have names: "rp_root (quiet_plan n) = S n" for n by (simp add: quiet_plan_def)
  show ?thesis
    by (simp add: DocumentDigests_def quiet_set_def quiet_root_digest names try_bind_Inr_iff SetDigest_Inr)
qed

lemma quiet_left: "opts_left demo_unicode (quiet_opts d) (bound_to (quiet_opts d) new_resume)
    = \<lparr>rm_landed = [], rm_decided = [], rm_left = [S ''app'', S ''net'']\<rparr>"
  by (simp add: opts_left_def opts_plans_def opts_producers_def opts_wave_of_def opts_roots_def quiet_opts_def quiet_waves_def
      quiet_set_def new_resume_def bound_to_def landed_entry_def resume_outcome_def by_root_def quiet_plan_def plan_of_def
      wave_of_def edge_producers_def wave_num_def not_landed_def List.map_filter_def)

lemma quiet_fresh: "check_fresh (\<lambda>s. s) demo_unicode (opts_plans (quiet_opts d))
    [S ''app'' \<mapsto> quiet_digest ''app'', S ''net'' \<mapsto> quiet_digest ''net'']
    [S ''app'' \<mapsto> \<lparr>fp_plan = quiet_plan ''app'', fp_file = []\<rparr>, S ''net'' \<mapsto> \<lparr>fp_plan = quiet_plan ''net'', fp_file = []\<rparr>]
    [S ''app'', S ''net''] [] [] = Inr ([], [])"
proof -
  have "(quiet_plan n)\<lparr>rp_root := S n, rp_estate := rp_estate (quiet_plan n)\<rparr> = quiet_plan n" for n by (simp add: quiet_plan_def)
  moreover have "plan_of (opts_plans (quiet_opts d)) (S n) = quiet_plan n" if "n \<in> {''app'', ''net''}" for n
    using that by (auto simp: opts_plans_def quiet_opts_def quiet_set_def by_root_def plan_of_def quiet_plan_def)
  moreover have "rp_status (quiet_plan n) = StatusPlanned" for n by (simp add: quiet_plan_def)
  moreover have "S ''app'' \<noteq> S ''net''" by simp
  ultimately show ?thesis by (simp add: quiet_root_digest del: S_simps)
qed

lemma quiet_order: "waveOrder [S ''app'', S ''net''] (opts_producers (quiet_opts d)) (opts_wave_of (quiet_opts d)) 1
    = Some [S ''net'', S ''app'']"
  by (simp add: waveOrder_def order_rounds.simps ready_def opts_producers_def opts_wave_of_def quiet_opts_def quiet_waves_def
      edge_producers_def wave_of_def wave_num_def)

definition quiet_fresh_plans :: "gostring \<rightharpoonup> fresh_plan" where
  "quiet_fresh_plans = [S ''app'' \<mapsto> \<lparr>fp_plan = quiet_plan ''app'', fp_file = []\<rparr>,
     S ''net'' \<mapsto> \<lparr>fp_plan = quiet_plan ''net'', fp_file = []\<rparr>]"

lemma quiet_roots: "\<exists>st. apply_roots quiet_runner demo_unicode 1 (opts_producers (quiet_opts d)) (opts_wave_of (quiet_opts d))
      quiet_fresh_plans [S ''net'', S ''app'']
      \<lparr>st_resume = bound_to (quiet_opts d) new_resume, st_decided = Map.empty, st_applied = [], st_world = 0\<rparr> = (None, st)
    \<and> st_applied st = [S ''net'', S ''app'']
    \<and> st_decided st = [S ''net'' \<mapsto> (entry (S ''net'') OutcomeLanded [])\<lparr>re_wave := 1\<rparr>,
                       S ''app'' \<mapsto> (entry (S ''app'') OutcomeLanded [])\<lparr>re_wave := 1\<rparr>]"
  by (simp add: apply_root_def decide_def opts_producers_def opts_wave_of_def quiet_waves_def quiet_opts_def quiet_runner_def
      edge_producers_def wave_of_def wave_num_def not_landed_def List.map_filter_def bound_to_def new_resume_def resume_set_def
      resume_outcome_def entry_def landedOrWhy_def Let_def)

lemma quiet_apply:
  assumes "DocumentDigests (\<lambda>s. s) quiet_set = Inr ([S ''app'' \<mapsto> quiet_digest ''app'', S ''net'' \<mapsto> quiet_digest ''net''], d)"
  shows "\<exists>out st. Apply (\<lambda>s. s) demo_unicode quiet_runner (quiet_opts d) new_resume 0 = (Inr out, st)
    \<and> ar_exit out = ExitApplied \<and> st_applied st = [S ''net'', S ''app'']"
proof -
  have opts: "ao_set (quiet_opts d) = quiet_set" "ao_wave (quiet_opts d) = 1" "ao_approved (quiet_opts d) = d"
    "length (wd_waves (ao_waves (quiet_opts d))) = 1" "rs_set_digest new_resume = []"
    "opts_roots (quiet_opts d) = [S ''app'', S ''net'']"
    by (simp_all add: quiet_opts_def new_resume_def quiet_waves_def opts_roots_def)
  have plan: "plan_left quiet_runner [S ''app'', S ''net''] 0 = (Inr quiet_fresh_plans, 0)"
    by (simp add: plan_left_def quiet_runner_def quiet_fresh_plans_def)
  obtain st where st: "apply_roots quiet_runner demo_unicode 1 (opts_producers (quiet_opts d)) (opts_wave_of (quiet_opts d))
      quiet_fresh_plans [S ''net'', S ''app'']
      \<lparr>st_resume = bound_to (quiet_opts d) new_resume, st_decided = Map.empty, st_applied = [], st_world = 0\<rparr> = (None, st)"
    "st_applied st = [S ''net'', S ''app'']"
    "st_decided st = [S ''net'' \<mapsto> (entry (S ''net'') OutcomeLanded [])\<lparr>re_wave := 1\<rparr>,
                      S ''app'' \<mapsto> (entry (S ''app'') OutcomeLanded [])\<lparr>re_wave := 1\<rparr>]"
    using quiet_roots by blast
  have "Apply (\<lambda>s. s) demo_unicode quiet_runner (quiet_opts d) new_resume 0
      = (Inr (finished 1 [] [S ''app'', S ''net''] st), st)"
    unfolding Apply_eq
    by (simp add: assms opts quiet_left plan quiet_fresh [folded quiet_fresh_plans_def] apply_wave_def quiet_order st(1)
        del: S_simps apply_roots.simps check_fresh.simps One_nat_def)
  moreover have "ar_exit (finished 1 [] [S ''app'', S ''net''] st) = ExitApplied"
    by (simp add: finished_def Let_def st(3) List.map_filter_def entry_def)
  ultimately show ?thesis using st(2) by blast
qed

lemma quiet_distinct: "distinct (opts_roots (quiet_opts d))"
  by (simp add: opts_roots_def quiet_opts_def quiet_waves_def)

theorem applied_only_if_approved_witness:
  "\<exists>d out st. Apply (\<lambda>s. s) demo_unicode quiet_runner (quiet_opts d) new_resume 0 = (Inr out, st)
     \<and> S ''app'' \<in> set (opts_roots (quiet_opts d)) \<and> \<not> landed_in new_resume (S ''app'')"
proof -
  obtain d where d: "DocumentDigests (\<lambda>s. s) quiet_set = Inr ([S ''app'' \<mapsto> quiet_digest ''app'', S ''net'' \<mapsto> quiet_digest ''net''], d)"
    using quiet_set_digest by blast
  obtain out st where run: "Apply (\<lambda>s. s) demo_unicode quiet_runner (quiet_opts d) new_resume 0 = (Inr out, st)"
      and applied: "st_applied st = [S ''net'', S ''app'']"
    using quiet_apply [OF d] by blast
  have "S ''app'' \<in> set (st_applied st)" by (simp add: applied)
  from applied_only_if_approved [OF run quiet_distinct this] run show ?thesis by blast
qed

theorem producers_land_first_witness:
  "\<exists>d out st. Apply (\<lambda>s. s) demo_unicode quiet_runner (quiet_opts d) new_resume 0 = (Inr out, st)
     \<and> landed_in (st_resume st) (S ''net'')"
proof -
  obtain d where d: "DocumentDigests (\<lambda>s. s) quiet_set = Inr ([S ''app'' \<mapsto> quiet_digest ''app'', S ''net'' \<mapsto> quiet_digest ''net''], d)"
    using quiet_set_digest by blast
  obtain out st where run: "Apply (\<lambda>s. s) demo_unicode quiet_runner (quiet_opts d) new_resume 0 = (Inr out, st)"
      and applied: "st_applied st = [S ''net''] @ S ''app'' # []"
    using quiet_apply [OF d] by auto
  have "S ''net'' \<in> set (opts_producers (quiet_opts d) (S ''app''))"
    "wave_num (opts_wave_of (quiet_opts d)) (S ''net'') \<le> ao_wave (quiet_opts d)"
    by (simp_all add: opts_producers_def opts_wave_of_def quiet_opts_def quiet_waves_def edge_producers_def wave_of_def wave_num_def)
  from producers_land_first [OF run quiet_distinct applied this] run show ?thesis by blast
qed

theorem apply_exit_code_witness:
  "\<exists>d out st. Apply (\<lambda>s. s) demo_unicode quiet_runner (quiet_opts d) new_resume 0 = (Inr out, st) \<and> ar_error out = None
     \<and> mset (map re_root (ar_outcomes out)) = {# S ''app'', S ''net'' #}"
proof -
  obtain d where d: "DocumentDigests (\<lambda>s. s) quiet_set = Inr ([S ''app'' \<mapsto> quiet_digest ''app'', S ''net'' \<mapsto> quiet_digest ''net''], d)"
    using quiet_set_digest by blast
  obtain out st where run: "Apply (\<lambda>s. s) demo_unicode quiet_runner (quiet_opts d) new_resume 0 = (Inr out, st)"
      and applied: "st_applied st \<noteq> []"
    using quiet_apply [OF d] by auto
  have "opts_roots (quiet_opts d) = [S ''app'', S ''net'']" by (simp add: opts_roots_def quiet_opts_def quiet_waves_def)
  then show ?thesis using apply_exit_code [OF run quiet_distinct] applied run
    by (intro exI [of _ d] exI [of _ out] exI [of _ st]) (simp del: S_simps)
qed

theorem rerun_changes_nothing_witness:
  "\<exists>d rs out' st'. Apply (\<lambda>s. s) demo_unicode quiet_runner (quiet_opts d) rs 7 = (Inr out', st')
     \<and> ar_exit out' = ExitApplied \<and> st_world st' = 7"
proof -
  obtain d where d: "DocumentDigests (\<lambda>s. s) quiet_set = Inr ([S ''app'' \<mapsto> quiet_digest ''app'', S ''net'' \<mapsto> quiet_digest ''net''], d)"
    using quiet_set_digest by blast
  obtain out st where run: "Apply (\<lambda>s. s) demo_unicode quiet_runner (quiet_opts d) new_resume 0 = (Inr out, st)"
      and exit: "ar_exit out = ExitApplied"
    using quiet_apply [OF d] by blast
  from rerun_changes_nothing [OF run quiet_distinct exit, of quiet_runner 7] show ?thesis by blast
qed

theorem wave_order_topological_witness:
  "mset [S ''net'', S ''app''] = mset [S ''app'', S ''net'']
    \<and> edges_first [S ''app'', S ''net''] (opts_producers (quiet_opts [])) (opts_wave_of (quiet_opts [])) 1 [S ''net'', S ''app'']"
  using wave_order_topological [of "[S ''app'', S ''net'']" "opts_producers (quiet_opts [])" "opts_wave_of (quiet_opts [])" 1]
    quiet_order [of "[]"] by (simp del: S_simps) simp

end
