(* ===== verification/GoPath.thy ===== *)
theory GoPath
  imports GoText
begin

text \<open>
  Go's \<open>path/filepath\<close> on Unix, as far as the program uses it: \<open>Clean\<close>, \<open>Join\<close>, \<open>IsAbs\<close>, \<open>Rel\<close>
  between absolute paths, and \<open>Dir\<close>-free joins.  \<open>ToSlash\<close> and \<open>FromSlash\<close> are the identity there.
  A path is cleaned element by element, the elements kept so far in order.
\<close>

definition r_slash :: rune where "r_slash = 47"

definition dot :: gostring where "dot = S ''.''"
definition dotdot :: gostring where "dotdot = S ''..''"

section \<open>Clean, Join, Rel\<close>

definition IsAbs :: "gostring \<Rightarrow> bool" where
  "IsAbs p \<longleftrightarrow> (case p of [] \<Rightarrow> False | c # _ \<Rightarrow> c = r_slash)"

definition clean_step :: "bool \<Rightarrow> gostring list \<Rightarrow> gostring \<Rightarrow> gostring list" where
  "clean_step rooted out e =
     (if e = [] \<or> e = dot then out
      else if e = dotdot then
        (if out \<noteq> [] \<and> last out \<noteq> dotdot then butlast out else if rooted then out else out @ [dotdot])
      else out @ [e])"

definition clean_elems :: "gostring \<Rightarrow> gostring list" where
  "clean_elems p = foldl (clean_step (IsAbs p)) [] (split_on r_slash p)"

definition from_elems :: "bool \<Rightarrow> gostring list \<Rightarrow> gostring" where
  "from_elems rooted es = (if rooted then r_slash # join_with r_slash es else if es = [] then dot else join_with r_slash es)"

definition Clean :: "gostring \<Rightarrow> gostring" where
  "Clean p = from_elems (IsAbs p) (clean_elems p)"

definition Join :: "gostring \<Rightarrow> gostring \<Rightarrow> gostring" where
  "Join a b = (if a \<noteq> [] then Clean (a @ r_slash # b) else if b \<noteq> [] then Clean b else [])"

fun strip_common :: "gostring list \<Rightarrow> gostring list \<Rightarrow> gostring list \<times> gostring list" where
  "strip_common (x # xs) (y # ys) = (if x = y then strip_common xs ys else (x # xs, y # ys))"
| "strip_common xs ys = (xs, ys)"

text \<open>\<open>Rel\<close> of two absolute paths, where it cannot fail.\<close>

definition Rel :: "gostring \<Rightarrow> gostring \<Rightarrow> gostring" where
  "Rel base targ = (let (b, t) = strip_common (clean_elems base) (clean_elems targ)
     in from_elems False (replicate (length b) dotdot @ t))"

section \<open>Cleaned paths\<close>

text \<open>The elements a cleaned path is made of: names, after leading \<open>..\<close> when it is not rooted.\<close>

definition name_elem :: "gostring \<Rightarrow> bool" where
  "name_elem e \<longleftrightarrow> e \<noteq> [] \<and> e \<noteq> dot \<and> e \<noteq> dotdot \<and> r_slash \<notin> set e"

definition clean_list :: "bool \<Rightarrow> gostring list \<Rightarrow> bool" where
  "clean_list rooted es \<longleftrightarrow> (\<exists>k ns. es = replicate k dotdot @ ns \<and> list_all name_elem ns \<and> (rooted \<longrightarrow> k = 0))"

lemma dots [simp]: "dot \<noteq> []" "dotdot \<noteq> []" "dotdot \<noteq> dot" "dot \<noteq> dotdot" "r_slash \<notin> set dot" "r_slash \<notin> set dotdot"
  by (simp_all add: dot_def dotdot_def r_slash_def)

lemma clean_listI: "list_all name_elem ns \<Longrightarrow> (rooted \<Longrightarrow> k = 0) \<Longrightarrow> clean_list rooted (replicate k dotdot @ ns)"
  unfolding clean_list_def by blast

lemma step_dotdots: "clean_step rooted (replicate k dotdot) dotdot
    = (if rooted then replicate k dotdot else replicate (Suc k) dotdot)"
  by (cases k) (simp_all add: clean_step_def last_replicate replicate_append_same)

lemma clean_list_step:
  assumes "clean_list rooted es" "r_slash \<notin> set e"
  shows "clean_list rooted (clean_step rooted es e)"
proof -
  obtain k ns where es: "es = replicate k dotdot @ ns" "list_all name_elem ns" "rooted \<longrightarrow> k = 0"
    using assms(1) by (auto simp: clean_list_def)
  consider "e = [] \<or> e = dot" | "e = dotdot" | "name_elem e" using assms(2) by (auto simp: name_elem_def)
  then show ?thesis
  proof cases
    case 2
    show ?thesis
    proof (cases ns rule: rev_cases)
      case Nil
      then have "clean_step rooted es e = replicate (if rooted then k else Suc k) dotdot @ []"
        using es(1) 2 by (simp only: append_Nil2 step_dotdots split: if_split) simp
      then show ?thesis using es(3) clean_listI [of "[]" rooted "if rooted then k else Suc k"] by simp
    next
      case (snoc ns' n)
      then have "n \<noteq> dotdot" using es(2) by (simp add: name_elem_def)
      then have "clean_step rooted es e = replicate k dotdot @ ns'"
        using es(1) 2 snoc by (simp add: clean_step_def butlast_append)
      then show ?thesis using es snoc by (simp add: clean_listI)
    qed
  next
    case 3
    then have "clean_step rooted es e = replicate k dotdot @ (ns @ [e])"
      using es(1) by (simp add: clean_step_def name_elem_def)
    moreover have "list_all name_elem (ns @ [e])" using es(2) 3 by simp
    ultimately show ?thesis using es(3) by (simp only: clean_listI)
  qed (use assms(1) in \<open>simp add: clean_step_def\<close>)
qed

lemma clean_list_fold:
  "clean_list rooted es \<Longrightarrow> \<forall>e \<in> set ps. r_slash \<notin> set e \<Longrightarrow> clean_list rooted (foldl (clean_step rooted) es ps)"
  by (induction ps arbitrary: es) (auto intro: clean_list_step)

lemma clean_elems_clean: "clean_list (IsAbs p) (clean_elems p)"
  unfolding clean_elems_def
  by (rule clean_list_fold) (auto simp: clean_list_def dest: split_on_parts_notin)

lemma fold_dotdots:
  "foldl (clean_step False) (replicate j dotdot) (replicate k dotdot) = replicate (j + k) dotdot"
proof (induction k arbitrary: j)
  case (Suc k)
  show ?case using Suc.IH [of "Suc j"] by (simp add: step_dotdots)
qed simp

lemma fold_names: "list_all name_elem ns \<Longrightarrow> foldl (clean_step rooted) out ns = out @ ns"
  by (induction ns arbitrary: out) (auto simp: clean_step_def name_elem_def)

lemma fold_clean_list:
  assumes "clean_list rooted es"
  shows "foldl (clean_step rooted) [] es = es"
proof -
  obtain k ns where es: "es = replicate k dotdot @ ns" "list_all name_elem ns" "rooted \<longrightarrow> k = 0"
    using assms by (auto simp: clean_list_def)
  then show ?thesis
    using fold_dotdots [of 0 k] fold_names [of ns rooted] by (cases rooted) (auto simp: fold_names)
qed

lemma clean_list_parts: "clean_list rooted es \<Longrightarrow> e \<in> set es \<Longrightarrow> e \<noteq> [] \<and> e \<noteq> dot \<and> r_slash \<notin> set e"
proof -
  assume "clean_list rooted es" "e \<in> set es"
  then obtain k ns where "es = replicate k dotdot @ ns" "list_all name_elem ns" "e \<in> set es"
    unfolding clean_list_def by blast
  then have "e = dotdot \<or> name_elem e" by (auto simp: list_all_iff)
  then show "e \<noteq> [] \<and> e \<noteq> dot \<and> r_slash \<notin> set e" using dots by (auto simp only: name_elem_def)
qed

lemma join_not_abs: "clean_list rooted es \<Longrightarrow> es \<noteq> [] \<Longrightarrow> \<not> IsAbs (join_with r_slash es)"
proof -
  assume *: "clean_list rooted es" "es \<noteq> []"
  then obtain e es' where es: "es = e # es'" by (cases es) auto
  then have e: "e \<noteq> []" "r_slash \<notin> set e" using clean_list_parts [OF *(1), of e] by auto
  then show ?thesis by (cases e; cases es') (auto simp: es IsAbs_def)
qed

lemma from_elems_back:
  assumes "clean_list rooted es"
  shows "IsAbs (from_elems rooted es) = rooted \<and> clean_elems (from_elems rooted es) = es"
proof (cases "es = []")
  case True
  then show ?thesis
    by (cases rooted) (simp_all add: from_elems_def IsAbs_def clean_elems_def clean_step_def dot_def split_on_notin r_slash_def)
next
  case False
  have parts: "\<forall>e \<in> set es. r_slash \<notin> set e" using clean_list_parts [OF assms] by blast
  show ?thesis
  proof (cases rooted)
    case True
    then have "from_elems rooted es = r_slash # join_with r_slash es" by (simp add: from_elems_def)
    moreover have "split_on r_slash (r_slash # join_with r_slash es) = [] # es" using split_join [OF False parts] by simp
    ultimately show ?thesis using True fold_clean_list [OF assms] by (simp add: clean_elems_def IsAbs_def clean_step_def)
  next
    case rel: False
    then have "from_elems rooted es = join_with r_slash es" using False by (simp add: from_elems_def)
    then show ?thesis
      using rel join_not_abs [OF assms False] split_join [OF False parts] fold_clean_list [OF assms] by (simp add: clean_elems_def)
  qed
qed

lemma Clean_elems [simp]: "clean_elems (Clean p) = clean_elems p" "IsAbs (Clean p) = IsAbs p"
  using from_elems_back [OF clean_elems_clean, of p] by (simp_all add: Clean_def)

lemma Clean_idem [simp]: "Clean (Clean p) = Clean p"
  by (subst (1 3) Clean_def) (simp only: Clean_elems)


section \<open>Joined and relative paths\<close>

lemma split_on_app: "split_on c (p @ c # s) = split_on c p @ split_on c s"
  by (induction p) (auto split: list.splits)

lemma Join_abs:
  assumes "IsAbs a"
  shows "IsAbs (Join a b)" "clean_elems (Join a b) = foldl (clean_step True) (clean_elems a) (split_on r_slash b)"
proof -
  have a: "a \<noteq> []" "IsAbs (a @ r_slash # b)" using assms by (cases a; simp add: IsAbs_def)+
  then have "Join a b = Clean (a @ r_slash # b)" by (simp add: Join_def)
  then show "IsAbs (Join a b)" "clean_elems (Join a b) = foldl (clean_step True) (clean_elems a) (split_on r_slash b)"
    using a assms by (simp_all add: clean_elems_def [of "a @ r_slash # b"] clean_elems_def [of a] split_on_app)
qed

lemma abs_names: "IsAbs p \<Longrightarrow> list_all name_elem (clean_elems p)"
  using clean_elems_clean [of p] by (auto simp: clean_list_def)

lemma Join_names:
  assumes "IsAbs a" "list_all name_elem ns" "ns \<noteq> []"
  shows "clean_elems (Join a (join_with r_slash ns)) = clean_elems a @ ns"
proof -
  have "\<forall>e \<in> set ns. r_slash \<notin> set e" using assms(2) by (auto simp: list_all_iff name_elem_def)
  then show ?thesis using assms by (simp add: Join_abs(2) split_join fold_names)
qed

lemma strip_common_split: "strip_common xs ys = (b, t) \<Longrightarrow> \<exists>cs. xs = cs @ b \<and> ys = cs @ t"
proof (induction xs ys rule: strip_common.induct)
  case (1 x xs y ys)
  then show ?case by (cases "x = y") (auto intro: exI [of _ "_ # _"])
qed auto

lemma from_elems_inject:
  assumes "clean_list rooted es" "clean_list rooted es'"
  shows "from_elems rooted es = from_elems rooted es' \<longleftrightarrow> es = es'"
  using from_elems_back assms by metis

text \<open>Whether a relative path leads out of the base: its first element is \<open>..\<close>.\<close>

lemma rel_outside:
  assumes "clean_list False es"
  shows "(from_elems False es = dotdot \<or> take 3 (from_elems False es) = dotdot @ [r_slash]) \<longleftrightarrow> es \<noteq> [] \<and> hd es = dotdot"
proof (cases es)
  case Nil
  then show ?thesis by (simp add: from_elems_def dot_def dotdot_def)
next
  case (Cons e es')
  have e: "e \<noteq> []" "r_slash \<notin> set e" using clean_list_parts [OF assms, of e] Cons by auto
  have f: "from_elems False es = (if es' = [] then e else e @ r_slash # join_with r_slash es')"
    using Cons by (simp add: from_elems_def join_with_Cons)
  show ?thesis
  proof
    assume "from_elems False es = dotdot \<or> take 3 (from_elems False es) = dotdot @ [r_slash]"
    then consider "from_elems False es = dotdot" | rest where "from_elems False es = dotdot @ r_slash # rest"
      by (metis append.assoc append_Cons append_Nil append_take_drop_id)
    then have "e = dotdot"
    proof cases
      case 1
      then have "r_slash \<notin> set (from_elems False es)" by simp
      then have "from_elems False es = e" using f by (simp split: if_splits)
      then show ?thesis using 1 by simp
    next
      case 2
      then have "takeWhile (\<lambda>x. x \<noteq> r_slash) (from_elems False es) = dotdot" by simp
      moreover have "takeWhile (\<lambda>x. x \<noteq> r_slash) (from_elems False es) = e" using f e by simp
      ultimately show ?thesis by simp
    qed
    then show "es \<noteq> [] \<and> hd es = dotdot" using Cons by simp
  next
    assume "es \<noteq> [] \<and> hd es = dotdot"
    then have "e = dotdot" using Cons by simp
    then show "from_elems False es = dotdot \<or> take 3 (from_elems False es) = dotdot @ [r_slash]"
      using f by (auto simp: dotdot_def)
  qed
qed

text \<open>A target under the base is the base with the elements of the relative path.\<close>

lemma Rel_inside:
  assumes "IsAbs base" "IsAbs targ" "\<not> (Rel base targ = dotdot \<or> take 3 (Rel base targ) = dotdot @ [r_slash])"
  shows "\<exists>ns. list_all name_elem ns \<and> clean_elems targ = clean_elems base @ ns \<and> Rel base targ = from_elems False ns"
proof -
  obtain b t where bt: "strip_common (clean_elems base) (clean_elems targ) = (b, t)" by fastforce
  then obtain cs where cs: "clean_elems base = cs @ b" "clean_elems targ = cs @ t" using strip_common_split by blast
  have t: "list_all name_elem t" using abs_names [OF assms(2)] cs(2) by simp
  then have clean: "clean_list False (replicate (length b) dotdot @ t)" by (simp add: clean_listI)
  have "Rel base targ = from_elems False (replicate (length b) dotdot @ t)" by (simp add: Rel_def bt)
  moreover have "b = []"
    using assms(3) rel_outside [OF clean] unfolding calculation by (cases b) auto
  ultimately show ?thesis using t cs by auto
qed

end
