(* ===== verification/WaveBuild.thy ===== *)
theory WaveBuild
  imports WaveLanding GoPath
begin

text \<open>
  Building the wave document, \<open>internal/live/waves/build.go\<close>: the roots are named, checked against
  the set plan document and read, the set is split and, with a document, the set and each wave get a
  digest.  \<open>LoadRoot\<close> and \<open>EstateOf\<close> (\<open>reads.go\<close>) are over a \<open>config_reader\<close>: loading the module tree,
  the estate of its live block, the estates its configuration stamps and the reads it declares are
  parameters, over a type \<open>'c\<close> of configurations.
\<close>

section \<open>Definitions\<close>

record build_options =
  bo_roots :: "gostring list"
  bo_base :: gostring
  bo_canaries :: "gostring list"
  bo_set :: "set_document option"

record built_document = wave_document +
  bd_roots :: "wave_root list"
  bd_external :: "external_read list"
  bd_digest :: gostring
  bd_root_digests :: "gostring \<rightharpoonup> gostring"

definition RootName :: "gostring \<Rightarrow> gostring" where
  "RootName dir = Clean dir"

text \<open>The keys of the document's estates are a list here, each once.\<close>

definition setDifference :: "gostring list \<Rightarrow> gostring list \<Rightarrow> gostring list \<times> gostring list" where
  "setDifference names doc =
     (sort (filter (\<lambda>n. n \<notin> set doc) names), sort (filter (\<lambda>n. n \<notin> set names) (remdups doc)))"

record 'c config_reader =
  cr_load :: "gostring \<Rightarrow> gostring + 'c"
  cr_live_estate :: "'c \<Rightarrow> gostring option"
  cr_declared :: "'c \<Rightarrow> gostring list"
  cr_reads :: "'c \<Rightarrow> gostring + wave_read list"

definition EstateOf :: "'c config_reader \<Rightarrow> 'c \<Rightarrow> gostring + gostring" where
  "EstateOf reader cfg =
     (let live = (case cr_live_estate reader cfg of None \<Rightarrow> [] | Some e \<Rightarrow> e); declared = cr_declared reader cfg in
      if live \<noteq> [] then Inr live
      else (case declared of
          [e] \<Rightarrow> Inr e
        | [] \<Rightarrow> Inl (S ''names no estate: declare one in a live block or an estate.chdf.hcl sidecar'')
        | _ \<Rightarrow> Inl (S ''stamps '' @ itoa_nat (length declared) @ S '' estates ('' @ join_str (S '', '') declared
            @ S ''): declare the one it owns in a live block or an estate.chdf.hcl sidecar'')))"

definition LoadRoot :: "'c config_reader \<Rightarrow> gostring \<Rightarrow> gostring \<Rightarrow> gostring + wave_root" where
  "LoadRoot reader name dir =
     (case cr_load reader dir of Inl e \<Rightarrow> Inl (S ''root '' @ name @ S '': '' @ e)
      | Inr cfg \<Rightarrow>
        (case EstateOf reader cfg of Inl e \<Rightarrow> Inl (S ''root '' @ name @ S '' '' @ e)
         | Inr estate \<Rightarrow>
           (case cr_reads reader cfg of Inl e \<Rightarrow> Inl (S ''root '' @ name @ S '': '' @ e)
            | Inr rds \<Rightarrow> Inr \<lparr>wr_root = name, wr_estate = estate, wr_reads = rds\<rparr>)))"

fun load_roots :: "'c config_reader \<Rightarrow> gostring \<Rightarrow> (gostring \<rightharpoonup> gostring) \<Rightarrow> gostring list
    \<Rightarrow> wave_error + wave_root list" where
  "load_roots reader base docEstate [] = Inr []"
| "load_roots reader base docEstate (n # ns) =
     (let dir = (if IsAbs n then n else Join base n)
      in case LoadRoot reader n dir of Inl e \<Rightarrow> Inl (LoadFailed e)
         | Inr r \<Rightarrow>
           (let e = (case docEstate n of None \<Rightarrow> [] | Some e \<Rightarrow> e)
            in if e \<noteq> [] \<and> e \<noteq> wr_estate r then Inl (EstateDiffers n (wr_estate r) e)
               else try_bind (load_roots reader base docEstate ns) (\<lambda>rs. Inr (r # rs))))"

definition build_names :: "build_options \<Rightarrow> gostring list" where
  "build_names opts = (let names = map RootName (bo_roots opts) in
     if names = [] then (case bo_set opts of None \<Rightarrow> [] | Some doc \<Rightarrow> map rp_root (sd_roots doc)) else names)"

text \<open>The document once the set is split; with a set plan document the digests are attached.\<close>

definition build_document :: "(gostring \<Rightarrow> gostring) \<Rightarrow> build_options \<Rightarrow> wave_root list \<Rightarrow> waves \<Rightarrow> wave_error + built_document" where
  "build_document sha256 opts roots w =
     (let doc = \<lparr>wd_waves = ws_waves w, wd_edges = ws_edges w, bd_roots = sort_key wr_root roots,
                 bd_external = ws_external w, bd_digest = [], bd_root_digests = Map.empty\<rparr>
      in case bo_set opts of None \<Rightarrow> Inr doc
         | Some sd \<Rightarrow>
           (case DocumentDigests sha256 sd of Inl e \<Rightarrow> Inl (DigestErr e)
            | Inr (byRoot, digest) \<Rightarrow>
              try_bind (AttachDigests sha256 byRoot w) (\<lambda>w.
                Inr (doc\<lparr>wd_waves := ws_waves w, bd_digest := digest, bd_root_digests := byRoot\<rparr>))))"

text \<open>\<open>None\<close> would be a split that does not return; \<open>build_returns\<close> shows there is none.\<close>

definition waves_Build :: "(gostring \<Rightarrow> gostring) \<Rightarrow> unicode \<Rightarrow> 'c config_reader \<Rightarrow> build_options
    \<Rightarrow> (wave_error + built_document) option" where
  "waves_Build sha256 u reader opts =
     (let names = build_names opts;
          docEstate = (case bo_set opts of None \<Rightarrow> Map.empty
            | Some sd \<Rightarrow> map_of (rev (map (\<lambda>r. (rp_root r, rp_estate r)) (sd_roots sd))));
          (missing, extra) = (case bo_set opts of None \<Rightarrow> ([], []) | Some sd \<Rightarrow> setDifference names (map rp_root (sd_roots sd)))
      in if names = [] then Some (Inl NoRootsToSplit)
         else if missing @ extra \<noteq> [] then Some (Inl (RootsDiffer missing extra))
         else
           (case load_roots reader (bo_base opts) docEstate names of Inl e \<Rightarrow> Some (Inl e)
            | Inr roots \<Rightarrow>
              (case Split u roots (bo_canaries opts) of None \<Rightarrow> None
               | Some (Inl e) \<Rightarrow> Some (Inl (SplitErr e))
               | Some (Inr w) \<Rightarrow> Some (build_document sha256 opts roots w))))"

section \<open>The digests of the waves\<close>

lemma wave_entries_Inr: "wave_entries byRoot w rs = Inr es \<longleftrightarrow>
    list_all (\<lambda>r. byRoot r \<noteq> None) rs \<and> es = map (\<lambda>r. \<lparr>de_root = r, de_digest = the (byRoot r)\<rparr>) rs"
  by (induction rs arbitrary: es) (auto simp: try_bind_Inr_iff split: option.splits)

definition wave_digest :: "(gostring \<Rightarrow> gostring) \<Rightarrow> (gostring \<rightharpoonup> gostring) \<Rightarrow> wave \<Rightarrow> digest_error + gostring" where
  "wave_digest sha256 byRoot wv = SetDigest sha256 (map (\<lambda>r. \<lparr>de_root = r, de_digest = the (byRoot r)\<rparr>) (wv_roots wv))"

lemma attach_digests_Inr: "attach_digests sha byRoot wvs = Inr wvs' \<Longrightarrow>
    map (\<lambda>wv. wv\<lparr>wv_digest := []\<rparr>) wvs' = map (\<lambda>wv. wv\<lparr>wv_digest := []\<rparr>) wvs
    \<and> list_all (\<lambda>wv. list_all (\<lambda>r. byRoot r \<noteq> None) (wv_roots wv) \<and> wave_digest sha byRoot wv = Inr (wv_digest wv)) wvs'"
proof (induction wvs arbitrary: wvs')
  case (Cons wv wvs)
  obtain es where es: "wave_entries byRoot (wv_number wv) (wv_roots wv) = Inr es"
      and rest: "(case SetDigest sha es of Inl e \<Rightarrow> Inl (DigestErr e)
        | Inr d \<Rightarrow> try_bind (attach_digests sha byRoot wvs) (\<lambda>wvs. Inr (wv\<lparr>wv_digest := d\<rparr> # wvs))) = Inr wvs'"
    using Cons.prems by (auto simp: try_bind_Inr_iff)
  from rest obtain d ws where "SetDigest sha es = Inr d" "attach_digests sha byRoot wvs = Inr ws" "wvs' = wv\<lparr>wv_digest := d\<rparr> # ws"
    by (cases "SetDigest sha es") (auto simp: try_bind_Inr_iff)
  then show ?case using es Cons.IH [of ws] by (simp add: wave_entries_Inr wave_digest_def)
qed simp

lemma same_wave: "wv\<lparr>wv_digest := []\<rparr> = wv'\<lparr>wv_digest := []\<rparr> \<Longrightarrow> wv_roots wv = wv_roots wv' \<and> wv_number wv = wv_number wv'"
  by (cases wv; cases wv') simp

lemma same_waves: "map (\<lambda>wv. wv\<lparr>wv_digest := []\<rparr>) wvs' = map (\<lambda>wv. wv\<lparr>wv_digest := []\<rparr>) wvs \<Longrightarrow>
    map wv_roots wvs' = map wv_roots wvs \<and> map wv_number wvs' = map wv_number wvs"
proof (induction wvs arbitrary: wvs')
  case (Cons wv wvs)
  then obtain wv' ws where eq: "wvs' = wv' # ws" by (cases wvs') simp_all
  then have "wv'\<lparr>wv_digest := []\<rparr> = wv\<lparr>wv_digest := []\<rparr>"
    "map (\<lambda>wv. wv\<lparr>wv_digest := []\<rparr>) ws = map (\<lambda>wv. wv\<lparr>wv_digest := []\<rparr>) wvs"
    using Cons.prems by simp_all
  from Cons.IH [OF this(2)] same_wave [OF this(1)] show ?case using eq by simp
qed simp

lemma LoadRoot_root: "LoadRoot reader n dir = Inr r \<Longrightarrow> wr_root r = n"
  by (auto simp: LoadRoot_def split: sum.splits)

lemma load_roots_names: "load_roots reader base est ns = Inr rs \<Longrightarrow> map wr_root rs = ns"
proof (induction ns arbitrary: rs)
  case (Cons n ns)
  let ?dir = "if IsAbs n then n else Join base n"
  obtain r where r: "LoadRoot reader n ?dir = Inr r"
    using Cons.prems by (cases "LoadRoot reader n ?dir") (simp_all add: Let_def)
  then obtain rs' where "load_roots reader base est ns = Inr rs'" "rs = r # rs'"
    using Cons.prems by (auto simp: Let_def try_bind_Inr_iff split: if_splits)
  then show ?case using Cons.IH LoadRoot_root [OF r] by simp
qed simp

text \<open>What a built document is made of.\<close>

lemma Build_Inr:
  assumes "waves_Build sha u reader opts = Some (Inr doc)"
  obtains roots ws where "map wr_root roots = build_names opts" "Split u roots (bo_canaries opts) = Some (Inr ws)" "bd_roots doc = sort_key wr_root roots"
      "wd_edges doc = ws_edges ws" "map wv_roots (wd_waves doc) = map wv_roots (ws_waves ws)"
      "map wv_number (wd_waves doc) = map wv_number (ws_waves ws)"
      "bo_set opts = Some sd \<longrightarrow> DocumentDigests sha sd = Inr (bd_root_digests doc, bd_digest doc)
         \<and> list_all (\<lambda>wv. list_all (\<lambda>r. bd_root_digests doc r \<noteq> None) (wv_roots wv)
              \<and> wave_digest sha (bd_root_digests doc) wv = Inr (wv_digest wv)) (wd_waves doc)
         \<and> set (build_names opts) = rp_root ` set (sd_roots sd)"
proof -
  obtain roots ws est where loaded: "load_roots reader (bo_base opts) est (build_names opts) = Inr roots"
      and split: "Split u roots (bo_canaries opts) = Some (Inr ws)" and doc: "build_document sha opts roots ws = Inr doc"
      and diff: "\<forall>sd. bo_set opts = Some sd \<longrightarrow> setDifference (build_names opts) (map rp_root (sd_roots sd)) = ([], [])"
    using assms by (auto simp: waves_Build_def Let_def split: if_splits sum.splits option.splits prod.splits)
  show thesis
  proof (cases "bo_set opts")
    case None
    then show thesis using that [OF load_roots_names [OF loaded] split] doc by (auto simp: build_document_def Let_def)
  next
    case (Some sd')
    obtain byRoot digest w' where D: "DocumentDigests sha sd' = Inr (byRoot, digest)" "AttachDigests sha byRoot ws = Inr w'"
        "doc = \<lparr>wd_waves = ws_waves w', wd_edges = ws_edges ws, bd_roots = sort_key wr_root roots,
           bd_external = ws_external ws, bd_digest = digest, bd_root_digests = byRoot\<rparr>"
      using doc Some by (auto simp: build_document_def Let_def try_bind_Inr_iff split: sum.splits)
    have att: "attach_digests sha byRoot (ws_waves ws) = Inr (ws_waves w')"
      using D(2) by (auto simp: AttachDigests_def try_bind_Inr_iff)
    note A = attach_digests_Inr [OF att]
    have names: "set (build_names opts) = rp_root ` set (sd_roots sd')"
    proof -
      have "filter (\<lambda>n. n \<notin> set (map rp_root (sd_roots sd'))) (build_names opts) = []"
        "filter (\<lambda>n. n \<notin> set (build_names opts)) (remdups (map rp_root (sd_roots sd'))) = []"
        using diff Some by (auto simp: setDifference_def) (metis set_empty set_sort)+
      then show ?thesis by (auto simp: filter_empty_conv)
    qed
    show thesis
      by (rule that [OF load_roots_names [OF loaded] split]) (use D(1,3) A same_waves [of "ws_waves w'" "ws_waves ws"] names Some in auto)
  qed
qed

lemma load_roots_estates: "load_roots reader base est ns = Inr rs \<Longrightarrow> r \<in> set rs \<Longrightarrow> est (wr_root r) = Some e \<Longrightarrow> e \<noteq> []
    \<Longrightarrow> wr_estate r = e"
proof (induction ns arbitrary: rs)
  case (Cons n ns)
  let ?dir = "if IsAbs n then n else Join base n"
  obtain r' where r': "LoadRoot reader n ?dir = Inr r'"
    using Cons.prems(1) by (cases "LoadRoot reader n ?dir") (simp_all add: Let_def)
  obtain rs' where rs': "load_roots reader base est ns = Inr rs'" "rs = r' # rs'"
      and "\<forall>e. est n = Some e \<longrightarrow> e \<noteq> [] \<longrightarrow> wr_estate r' = e"
    using Cons.prems(1) r' by (cases "est n") (auto simp: Let_def try_bind_Inr_iff split: if_splits)
  then show ?case using Cons.IH [OF rs'(1)] Cons.prems(2-) LoadRoot_root [OF r'] by auto
qed simp

section \<open>Properties\<close>

lemma build_returns: "waves_Build sha u reader opts \<noteq> None"
proof -
  have total: "Split u roots canaries = None \<longleftrightarrow> False" for roots canaries
    using Split_total [of u roots canaries] by simp
  show ?thesis by (simp add: waves_Build_def Let_def total split: sum.split option.split prod.split)
qed

text \<open>
  C20. A set plan document and the waves built over it cover the same roots: the waves hold each root of
  the document exactly once, the digest of the set is the document's, and each wave's digest is the set
  digest of exactly its own roots' digests.
\<close>

theorem build_covers_the_document:
  assumes "waves_Build sha u reader opts = Some (Inr doc)" "bo_set opts = Some sd"
  shows "mset (concat (map wv_roots (wd_waves doc))) = mset (map rp_root (sd_roots sd))
    \<and> DocumentDigests sha sd = Inr (bd_root_digests doc, bd_digest doc)
    \<and> list_all (\<lambda>wv. wave_digest sha (bd_root_digests doc) wv = Inr (wv_digest wv)) (wd_waves doc)"
  using assms(1)
proof (cases rule: Build_Inr [where sd = sd])
  case (1 roots ws)
  have valid: "valid_roots roots" "waves_shape roots (canary_set u roots (bo_canaries opts)) ws"
    using Split_Inr_cases [OF 1(2)] by blast+
  have "mset (concat (map wv_roots (wd_waves doc))) = mset (build_names opts)"
    using shape_waves(4) [OF valid] 1(1,5) by simp
  moreover have "distinct (build_names opts)" using valid(1) 1(1) by (simp add: valid_roots_def)
  moreover have "distinct (map rp_root (sd_roots sd))" using 1(7) assms(2) DocumentDigests_Inr by blast
  moreover have "set (build_names opts) = set (map rp_root (sd_roots sd))" using 1(7) assms(2) by simp
  ultimately have "mset (concat (map wv_roots (wd_waves doc))) = mset (map rp_root (sd_roots sd))"
    by (metis set_eq_iff_mset_eq_distinct)
  then show ?thesis using 1(7) assms(2) by (auto simp: list_all_iff)
qed

text \<open>
  The name of a root is canonical: naming a name again changes nothing, and two spellings of a
  directory get one name exactly when they clean to the same elements from the same place.
\<close>

theorem root_name_canonical:
  "RootName (RootName d) = RootName d \<and> (RootName d = RootName d' \<longleftrightarrow> IsAbs d = IsAbs d' \<and> clean_elems d = clean_elems d')"
proof -
  have "IsAbs d = IsAbs d' \<and> clean_elems d = clean_elems d'" if "Clean d = Clean d'"
    using Clean_elems [of d] Clean_elems [of d'] that by simp
  moreover have "Clean d = Clean d'" if "IsAbs d = IsAbs d' \<and> clean_elems d = clean_elems d'"
    using that by (simp add: Clean_def)
  ultimately show ?thesis unfolding RootName_def using Clean_idem by blast
qed

section \<open>A concrete set\<close>

definition quiet_base :: gostring where "quiet_base = S ''/w''"

definition quiet_reader :: "gostring config_reader" where
  "quiet_reader = \<lparr>cr_load = (\<lambda>dir. Inr (if dir = Join quiet_base (S ''app'') then S ''app'' else S ''net'')),
     cr_live_estate = Some, cr_declared = (\<lambda>_. []),
     cr_reads = (\<lambda>c. Inr (if c = S ''app'' then [\<lparr>rd_estate = S ''net'', rd_from = []\<rparr>] else []))\<rparr>"

definition quiet_build :: build_options where
  "quiet_build = \<lparr>bo_roots = [], bo_base = quiet_base, bo_canaries = [], bo_set = Some quiet_set\<rparr>"

definition quiet_app :: wave_root where
  "quiet_app = \<lparr>wr_root = S ''app'', wr_estate = S ''app'', wr_reads = [\<lparr>rd_estate = S ''net'', rd_from = []\<rparr>]\<rparr>"

definition quiet_net :: wave_root where
  "quiet_net = \<lparr>wr_root = S ''net'', wr_estate = S ''net'', wr_reads = []\<rparr>"

lemma quiet_dirs: "Join quiet_base (S ''net'') \<noteq> Join quiet_base (S ''app'')"
  by (simp add: Join_def Clean_def clean_elems_def from_elems_def quiet_base_def r_slash_def IsAbs_def clean_step_def dot_def dotdot_def ascii_defs)

lemma quiet_load: "load_roots quiet_reader quiet_base
    (map_of (rev (map (\<lambda>r. (rp_root r, rp_estate r)) (sd_roots quiet_set)))) [S ''app'', S ''net''] = Inr [quiet_app, quiet_net]"
proof -
  have "\<not> IsAbs (S ''app'')" "\<not> IsAbs (S ''net'')" "S ''app'' \<noteq> S ''net''" "S ''app'' \<noteq> []" "S ''net'' \<noteq> []"
    by (simp_all add: IsAbs_def r_slash_def)
  then show ?thesis
    using quiet_dirs
    by (simp add: LoadRoot_def EstateOf_def quiet_reader_def quiet_set_def quiet_plan_def quiet_app_def quiet_net_def Let_def
        del: S_simps)
qed

lemma quiet_split: "\<exists>ws. Split demo_unicode [quiet_app, quiet_net] [] = Some (Inr ws)
    \<and> map wv_roots (ws_waves ws) = [[S ''net''], [S ''app'']]"
  by (simp add: demo_set_defs quiet_app_def quiet_net_def)

lemma quiet_attach:
  "map wv_roots wvs = [[S ''net''], [S ''app'']] \<Longrightarrow>
     \<exists>wvs'. attach_digests (\<lambda>s. s) [S ''app'' \<mapsto> a, S ''net'' \<mapsto> b] wvs = Inr wvs'"
proof -
  assume "map wv_roots wvs = [[S ''net''], [S ''app'']]"
  then obtain w1 w2 where w: "wvs = [w1, w2]" "wv_roots w1 = [S ''net'']" "wv_roots w2 = [S ''app'']"
    by (auto simp: map_eq_Cons_conv simp del: S_simps)
  let ?m = "[S ''app'' \<mapsto> a, S ''net'' \<mapsto> b]"
  have one: "\<exists>x. SetDigest (\<lambda>s. s) [e] = Inr x" for e :: root_digest_entry
    unfolding SetDigest_Inr by simp
  obtain x y where d: "SetDigest (\<lambda>s. s) [\<lparr>de_root = S ''net'', de_digest = b\<rparr>] = Inr x"
    "SetDigest (\<lambda>s. s) [\<lparr>de_root = S ''app'', de_digest = a\<rparr>] = Inr y"
    using one by blast
  have m: "?m (S ''app'') = Some a" "?m (S ''net'') = Some b" by simp_all
  show ?thesis
    by (simp only: w attach_digests.simps wave_entries.simps m d option.case try_bind.simps sum.case sum.inject) blast
qed

lemma quiet_built: "\<exists>doc. waves_Build (\<lambda>s. s) demo_unicode quiet_reader quiet_build = Some (Inr doc)"
proof -
  obtain d where d: "DocumentDigests (\<lambda>s. s) quiet_set = Inr ([S ''app'' \<mapsto> quiet_digest ''app'', S ''net'' \<mapsto> quiet_digest ''net''], d)"
    using quiet_set_digest by blast
  obtain ws where ws: "Split demo_unicode [quiet_app, quiet_net] [] = Some (Inr ws)" "map wv_roots (ws_waves ws) = [[S ''net''], [S ''app'']]"
    using quiet_split by (elim exE conjE) (rule that)
  obtain wvs where wvs: "attach_digests (\<lambda>s. s) [S ''app'' \<mapsto> quiet_digest ''app'', S ''net'' \<mapsto> quiet_digest ''net''] (ws_waves ws) = Inr wvs"
    using quiet_attach [OF ws(2)] by blast
  have names: "build_names quiet_build = [S ''app'', S ''net'']" "map rp_root (sd_roots quiet_set) = [S ''app'', S ''net'']"
    "setDifference [S ''app'', S ''net''] [S ''app'', S ''net''] = ([], [])"
    by (simp_all add: build_names_def quiet_build_def quiet_set_def quiet_plan_def setDifference_def)
  have opts: "bo_set quiet_build = Some quiet_set" "bo_base quiet_build = quiet_base" "bo_canaries quiet_build = []"
    by (simp_all add: quiet_build_def)
  show ?thesis
    by (simp add: waves_Build_def names opts quiet_load ws(1) build_document_def d AttachDigests_def wvs Let_def del: S_simps load_roots.simps)
qed

theorem build_covers_the_document_witness:
  "\<exists>doc. waves_Build (\<lambda>s. s) demo_unicode quiet_reader quiet_build = Some (Inr doc)
     \<and> mset (concat (map wv_roots (wd_waves doc))) = {# S ''app'', S ''net'' #}"
proof -
  obtain doc where doc: "waves_Build (\<lambda>s. s) demo_unicode quiet_reader quiet_build = Some (Inr doc)" using quiet_built by blast
  have "bo_set quiet_build = Some quiet_set" "map rp_root (sd_roots quiet_set) = [S ''app'', S ''net'']"
    by (simp_all add: quiet_build_def quiet_set_def quiet_plan_def)
  then show ?thesis using build_covers_the_document [OF doc] doc by (simp del: S_simps)
qed

end
