(* ===== verification/SetPlan.thy ===== *)
theory SetPlan
  imports WaveBuild
begin

text \<open>
  Planning a set of roots in one invocation, \<open>internal/live/setplan\<close>: the roots are resolved to
  paths, each runs its stages concurrently with the others, a root that reads another's outputs waits
  for it, and the document, its summary and its exit code report every root.

  This theory holds the sequential parts: \<open>resolve\<close>, \<open>order\<close> with Kahn's algorithm, what a root waits
  for, the document.  The goroutines are the step relation of \<open>SetPlanRun\<close>.
\<close>

section \<open>Paths\<close>

record plan_options =
  po_roots :: "gostring list"
  po_base :: gostring
  po_out :: gostring
  po_parallel :: int

record root_paths =
  pa_rel :: gostring
  pa_abs :: gostring
  pa_plan :: gostring
  pa_log :: gostring

datatype resolve_error =
    NoRootsGiven
  | OutsideBase gostring gostring
  | GivenTwice gostring gostring
  | BadParallel int

definition PlanName :: "gostring \<Rightarrow> gostring" where
  "PlanName rel = (if rel = dot \<or> rel = [] then S ''_root'' else rel)"

text \<open>\<open>filepath.Abs\<close>: \<open>wd\<close> is the process's working directory, an absolute path.\<close>

definition Abs :: "gostring \<Rightarrow> gostring \<Rightarrow> gostring" where
  "Abs wd p = (if IsAbs p then Clean p else Join wd p)"

definition root_paths_of :: "gostring \<Rightarrow> gostring \<Rightarrow> gostring \<Rightarrow> gostring \<Rightarrow> root_paths" where
  "root_paths_of base outDir dir rel = \<lparr>pa_rel = rel, pa_abs = dir,
     pa_plan = Join outDir (PlanName rel @ S ''.tfplan''), pa_log = Join outDir (PlanName rel @ S ''.log'')\<rparr>"

fun resolve_roots :: "gostring \<Rightarrow> gostring \<Rightarrow> gostring list \<Rightarrow> (gostring \<rightharpoonup> gostring) \<Rightarrow> resolve_error + root_paths list" where
  "resolve_roots base outDir [] seen = Inr []"
| "resolve_roots base outDir (given # rest) seen =
     (let dir = Clean (if IsAbs given then given else Join base given);
          rel = Rel base dir
      in if rel = dotdot \<or> take 3 rel = dotdot @ [r_slash] then Inl (OutsideBase given base)
         else (case seen rel of Some prev \<Rightarrow> Inl (GivenTwice given prev)
           | None \<Rightarrow> try_bind (resolve_roots base outDir rest (seen(rel \<mapsto> given)))
               (\<lambda>ps. Inr (root_paths_of base outDir dir rel # ps))))"

definition resolve :: "gostring \<Rightarrow> plan_options \<Rightarrow> resolve_error + root_paths list" where
  "resolve wd opts =
     (if po_roots opts = [] then Inl NoRootsGiven
      else (let base = Abs wd (po_base opts);
                outDir = (if IsAbs (po_out opts) then po_out opts else Join base (po_out opts))
            in resolve_roots base outDir (po_roots opts) Map.empty))"

section \<open>The document\<close>

definition StatusFailed :: gostring where "StatusFailed = S ''failed''"

datatype stage = StageNone | StageEstate | StageInit | StagePlan | StageShow

record planned_from =
  pf_root :: gostring
  pf_estate :: gostring
  pf_json :: gostring

record set_root =
  sr_root :: gostring
  sr_estate :: gostring
  sr_status :: gostring
  sr_error :: gostring
  sr_stage :: stage
  sr_changes :: bool
  sr_plan_file :: gostring
  sr_log_file :: gostring
  sr_plan :: "json option"
  sr_digest :: gostring
  sr_reads :: gostring
  sr_from :: "planned_from list"

record plan_summary =
  su_roots :: nat
  su_planned :: nat
  su_changed :: nat
  su_failed :: nat

record plan_document =
  dc_roots :: "set_root list"
  dc_summary :: plan_summary
  dc_digest :: gostring
  dc_exit :: int

definition ExitClean :: int where "ExitClean = 0"
definition ExitChanges :: int where "ExitChanges = 2"

fun count_roots :: "set_root list \<Rightarrow> plan_summary \<Rightarrow> plan_summary" where
  "count_roots [] su = su"
| "count_roots (r # rs) su =
     (let su = su\<lparr>su_roots := su_roots su + 1\<rparr> in
      count_roots rs
        (if sr_status r = StatusPlanned
         then (let su = su\<lparr>su_planned := su_planned su + 1\<rparr> in if sr_changes r then su\<lparr>su_changed := su_changed su + 1\<rparr> else su)
         else su\<lparr>su_failed := su_failed su + 1\<rparr>))"

fun exit_code :: "bool \<Rightarrow> set_root list \<Rightarrow> int" where
  "exit_code changed [] = (if changed then ExitChanges else ExitClean)"
| "exit_code changed (r # rs) =
     (if sr_status r \<noteq> StatusPlanned then ExitRootFailed else exit_code (changed \<or> sr_changes r) rs)"

definition ExitCode :: "set_root list \<Rightarrow> int" where
  "ExitCode roots = exit_code False roots"

definition root_plan_of :: "set_root \<Rightarrow> root_plan" where
  "root_plan_of r = \<lparr>rp_root = sr_root r, rp_estate = sr_estate r, rp_status = sr_status r, rp_error = sr_error r,
     rp_plan = sr_plan r\<rparr>"

fun digest_roots :: "(gostring \<Rightarrow> gostring) \<Rightarrow> set_root list \<Rightarrow> digest_error + set_root list" where
  "digest_roots sha256 [] = Inr []"
| "digest_roots sha256 (r # rs) = try_bind (RootDigest sha256 (root_plan_of r)) (\<lambda>d.
     try_bind (digest_roots sha256 rs) (\<lambda>rs. Inr (r\<lparr>sr_digest := d\<rparr> # rs)))"

definition digestDocument :: "(gostring \<Rightarrow> gostring) \<Rightarrow> set_root list \<Rightarrow> digest_error + set_root list \<times> gostring" where
  "digestDocument sha256 roots = try_bind (digest_roots sha256 roots) (\<lambda>rs.
     try_bind (SetDigest sha256 (map (\<lambda>r. \<lparr>de_root = sr_root r, de_digest = sr_digest r\<rparr>) rs)) (\<lambda>d. Inr (rs, d)))"

text \<open>The end of \<open>Run\<close>, once every root's goroutine has returned.\<close>

definition plan_document_of :: "(gostring \<Rightarrow> gostring) \<Rightarrow> set_root list \<Rightarrow> digest_error + plan_document" where
  "plan_document_of sha256 roots =
     (let summary = count_roots roots \<lparr>su_roots = 0, su_planned = 0, su_changed = 0, su_failed = 0\<rparr>
      in try_bind (digestDocument sha256 roots) (\<lambda>(roots, digest).
           Inr \<lparr>dc_roots = roots, dc_summary = summary, dc_digest = digest, dc_exit = ExitCode roots\<rparr>))"

section \<open>The order\<close>

text \<open>
  The maps of the code are functions on root indexes: \<open>upstreams\<close>, \<open>orderErr\<close> and \<open>upstream\<close>.
\<close>

datatype order_error =
    OwnedBySeveral gostring "nat list"
  | InCycle "nat list"

record order_state =
  or_upstreams :: "nat \<Rightarrow> nat list"
  or_err :: "nat \<Rightarrow> order_error option"
  or_upstream :: "nat \<Rightarrow> bool"

definition owners_of :: "gostring list \<Rightarrow> gostring \<Rightarrow> nat list" where
  "owners_of estates e = (if e = [] then [] else filter (\<lambda>i. estates ! i = e) [0..<length estates])"

fun order_reads :: "gostring list \<Rightarrow> nat \<Rightarrow> gostring list \<Rightarrow> order_state \<Rightarrow> order_state" where
  "order_reads estates i [] st = st"
| "order_reads estates i (e # es) st =
     (let own = owners_of estates e in
      order_reads estates i es
        (if own = [] \<or> e = estates ! i then st
         else if length own > 1 then st\<lparr>or_err := (or_err st)(i := Some (OwnedBySeveral e own))\<rparr>
         else st\<lparr>or_upstreams := (or_upstreams st)(i := or_upstreams st i @ [hd own]),
                 or_upstream := (or_upstream st)(hd own := True)\<rparr>))"

fun order_roots :: "gostring list \<Rightarrow> gostring list list \<Rightarrow> nat list \<Rightarrow> order_state \<Rightarrow> order_state" where
  "order_roots estates rds [] st = st"
| "order_roots estates rds (i # is) st = order_roots estates rds is (order_reads estates i (rds ! i) st)"

text \<open>Kahn's algorithm.\<close>

definition readers_of :: "nat \<Rightarrow> (nat \<Rightarrow> nat list) \<Rightarrow> nat \<Rightarrow> nat list" where
  "readers_of n upstreams j = concat (map (\<lambda>i. map (\<lambda>_. i) (filter (\<lambda>k. k = j) (upstreams i))) [0..<n])"

fun relax :: "nat list \<Rightarrow> (nat \<Rightarrow> int) \<Rightarrow> nat list \<Rightarrow> (nat \<Rightarrow> int) \<times> nat list" where
  "relax [] indeg queue = (indeg, queue)"
| "relax (i # is) indeg queue =
     (let indeg = indeg(i := indeg i - 1)
      in relax is indeg (if indeg i = 0 then queue @ [i] else queue))"

text \<open>The loop over the queue, with fuel; \<open>None\<close> is a loop that did not end within it.\<close>

fun kahn :: "nat \<Rightarrow> (nat \<Rightarrow> nat list) \<Rightarrow> (nat \<Rightarrow> int) \<Rightarrow> nat list \<Rightarrow> (nat \<Rightarrow> int) option" where
  "kahn fuel readers indeg [] = Some indeg"
| "kahn 0 readers indeg (j # queue) = None"
| "kahn (Suc fuel) readers indeg (j # queue) =
     (let (indeg, queue) = relax (readers j) indeg queue in kahn fuel readers indeg queue)"

definition order :: "root_paths list \<Rightarrow> gostring list \<Rightarrow> gostring list list \<Rightarrow> order_state option" where
  "order paths estates rds =
     (let n = length paths;
          st = order_roots estates rds [0..<n] \<lparr>or_upstreams = (\<lambda>_. []), or_err = (\<lambda>_. None), or_upstream = (\<lambda>_. False)\<rparr>;
          indeg = (\<lambda>i. int (length (or_upstreams st i)))
      in case kahn n (readers_of n (or_upstreams st)) indeg (filter (\<lambda>i. indeg i = 0) [0..<n]) of
           None \<Rightarrow> None
         | Some indeg \<Rightarrow>
           (let stuck = filter (\<lambda>i. indeg i > 0) [0..<n]
            in Some (st\<lparr>or_err := (\<lambda>i. if i < n \<and> indeg i > 0 then Some (InCycle stuck) else or_err st i)\<rparr>)))"

end
