(* ===== verification/SetPlanFacts.thy ===== *)
theory SetPlanFacts
  imports SetPlan
begin

text \<open>
  What the sequential parts of a set plan guarantee: no two roots share a plan file (but for one
  pair), the order is the one its specification asks for, and the document counts every root.
\<close>

section \<open>The paths of the roots\<close>

lemma join_with_suffix: "ns \<noteq> [] \<Longrightarrow> join_with c ns @ s = join_with c (butlast ns @ [last ns @ s])"
proof (induction ns)
  case (Cons n ns)
  then show ?case by (cases ns) (simp_all add: join_with_Cons)
qed simp

text \<open>The elements of a file named after a root.\<close>

definition file_elems :: "gostring list \<Rightarrow> gostring \<Rightarrow> gostring list" where
  "file_elems ns ext = butlast ns @ [last ns @ ext]"

definition plan_elems :: "gostring list \<Rightarrow> gostring list" where
  "plan_elems ns = (if ns = [] then [S ''_root''] else ns)"

lemma name_elem_ext:
  assumes "name_elem e" "r_slash \<notin> set ext" "2 < length ext"
  shows "name_elem (e @ ext)"
proof -
  have "2 < length (e @ ext)" using assms(3) by simp
  moreover have "length dot \<le> 2" "length dotdot \<le> 2" by (simp_all add: dot_def dotdot_def)
  ultimately have "e @ ext \<noteq> dot" "e @ ext \<noteq> dotdot" by (metis not_le)+
  then show ?thesis using assms by (simp add: name_elem_def)
qed

lemma root_name_elem: "name_elem (S ''_root'')"
  by (simp add: name_elem_def dot_def dotdot_def r_slash_def)

lemma PlanName_elems:
  assumes "list_all name_elem ns"
  shows "PlanName (from_elems False ns) = join_with r_slash (plan_elems ns)"
proof (cases ns)
  case Nil
  then show ?thesis by (simp add: PlanName_def from_elems_def plan_elems_def)
next
  case (Cons n ns')
  then have n: "name_elem n" "r_slash \<notin> set n" using assms by (auto simp: name_elem_def)
  have "join_with r_slash ns \<noteq> dot \<and> join_with r_slash ns \<noteq> []"
  proof (cases ns')
    case Nil
    then show ?thesis using n Cons by (simp add: name_elem_def)
  next
    case (Cons m ns'')
    have "r_slash \<in> set (join_with r_slash ns)" using \<open>ns = n # ns'\<close> Cons by simp
    then show ?thesis by (metis dots(5) empty_iff empty_set)
  qed
  then show ?thesis using Cons by (simp add: PlanName_def from_elems_def plan_elems_def)
qed

lemma file_path_elems:
  assumes "IsAbs outDir" "list_all name_elem ns" "r_slash \<notin> set ext" "2 < length ext"
  shows "clean_elems (Join outDir (PlanName (from_elems False ns) @ ext)) = clean_elems outDir @ file_elems (plan_elems ns) ext"
proof -
  have plan: "list_all name_elem (plan_elems ns)" "plan_elems ns \<noteq> []"
    using assms(2) root_name_elem by (simp_all add: plan_elems_def)
  then have "plan_elems ns = butlast (plan_elems ns) @ [last (plan_elems ns)]" by simp
  then have "list_all name_elem (butlast (plan_elems ns))" "name_elem (last (plan_elems ns))"
    using plan by (auto simp: list_all_iff dest: in_set_butlastD)
  then have "list_all name_elem (file_elems (plan_elems ns) ext)" "file_elems (plan_elems ns) ext \<noteq> []"
    using name_elem_ext assms(3,4) by (simp_all add: file_elems_def)
  then show ?thesis
    using Join_names [OF assms(1)] plan(2)
    by (simp add: PlanName_elems [OF assms(2)] join_with_suffix file_elems_def)
qed

lemma file_elems_inject:
  assumes "ns \<noteq> []" "ms \<noteq> []"
  shows "file_elems ns ext = file_elems ms ext \<longleftrightarrow> ns = ms"
  using assms by (metis append_butlast_last_id append_same_eq butlast_snoc file_elems_def last_snoc)

lemma plan_elems_inject: "plan_elems ns = plan_elems ms \<Longrightarrow> ns = ms \<or> {ns, ms} = {[], [S ''_root'']}"
  by (auto simp: plan_elems_def split: if_splits)

lemma resolve_roots_Inr:
  assumes "resolve_roots base outDir given seen = Inr ps" "IsAbs base"
  shows "length ps = length given \<and> distinct (map pa_rel ps) \<and> (\<forall>p \<in> set ps. seen (pa_rel p) = None
    \<and> (\<exists>ns. list_all name_elem ns \<and> clean_elems (pa_abs p) = clean_elems base @ ns \<and> pa_rel p = from_elems False ns
         \<and> p = root_paths_of base outDir (pa_abs p) (pa_rel p)))"
  using assms(1)
proof (induction given arbitrary: seen ps)
  case (Cons g given)
  let ?dir = "Clean (if IsAbs g then g else Join base g)"
  let ?rel = "Rel base ?dir"
  obtain ps' where inside: "\<not> (?rel = dotdot \<or> take 3 ?rel = dotdot @ [r_slash])" and new: "seen ?rel = None"
      and rest: "resolve_roots base outDir given (seen(?rel \<mapsto> g)) = Inr ps'" "ps = root_paths_of base outDir ?dir ?rel # ps'"
    using Cons.prems by (auto simp: Let_def try_bind_Inr_iff simp del: Clean_elems split: if_splits option.splits)
  have abs: "IsAbs ?dir" using Join_abs(1) [OF assms(2)] by simp
  obtain ns where ns: "list_all name_elem ns" "clean_elems ?dir = clean_elems base @ ns" "?rel = from_elems False ns"
    using Rel_inside [OF assms(2) abs inside] by blast
  have first: "pa_abs (root_paths_of base outDir ?dir ?rel) = ?dir" "pa_rel (root_paths_of base outDir ?dir ?rel) = ?rel"
    by (simp_all add: root_paths_of_def)
  note IH = Cons.IH [OF rest(1)]
  then have "?rel \<notin> pa_rel ` set ps'" by force
  then show ?case using IH new rest(2) first ns by (auto split: if_splits)
qed simp

lemma file_elems_ext:
  assumes "ns \<noteq> []" "ms \<noteq> []" "e1 \<noteq> []" "e2 \<noteq> []" "last e1 \<noteq> last e2"
  shows "file_elems ns e1 \<noteq> file_elems ms e2"
proof
  assume "file_elems ns e1 = file_elems ms e2"
  then have "last (file_elems ns e1) = last (file_elems ms e2)" by simp
  then have "last (last ns @ e1) = last (last ms @ e2)" by (simp add: file_elems_def)
  then show False using assms(3-5) by simp
qed

lemma Abs_abs: "IsAbs wd \<Longrightarrow> IsAbs (Abs wd p)"
  by (simp add: Abs_def Join_abs)

text \<open>
  What \<open>resolve\<close> gives back, over the elements of the paths: everything its callers use.
\<close>

lemma resolve_elems:
  assumes "IsAbs wd" "resolve wd opts = Inr ps"
  obtains outDir where "IsAbs outDir" "length ps = length (po_roots opts)" "distinct (map pa_rel ps)"
    "\<And>p. p \<in> set ps \<Longrightarrow> \<exists>ns. list_all name_elem ns \<and> clean_elems (pa_abs p) = clean_elems (Abs wd (po_base opts)) @ ns
      \<and> pa_rel p = from_elems False ns \<and> p = root_paths_of (Abs wd (po_base opts)) outDir (pa_abs p) (pa_rel p)
      \<and> clean_elems (pa_plan p) = clean_elems outDir @ file_elems (plan_elems ns) (S ''.tfplan'')
      \<and> clean_elems (pa_log p) = clean_elems outDir @ file_elems (plan_elems ns) (S ''.log'')"
proof -
  define base where "base = Abs wd (po_base opts)"
  define outDir where "outDir = (if IsAbs (po_out opts) then po_out opts else Join base (po_out opts))"
  have abs: "IsAbs base" "IsAbs outDir" using Abs_abs [OF assms(1)] Join_abs(1) by (auto simp: base_def outDir_def)
  have "resolve_roots base outDir (po_roots opts) Map.empty = Inr ps"
    using assms(2) by (auto simp: resolve_def base_def outDir_def Let_def split: if_splits)
  note R = resolve_roots_Inr [OF this abs(1)]
  have ext: "r_slash \<notin> set (S ''.tfplan'')" "2 < length (S ''.tfplan'')" "r_slash \<notin> set (S ''.log'')" "2 < length (S ''.log'')"
    by (simp_all add: r_slash_def)
  show ?thesis
  proof (rule that)
    fix p assume "p \<in> set ps"
    then obtain ns where ns: "list_all name_elem ns" "clean_elems (pa_abs p) = clean_elems base @ ns" "pa_rel p = from_elems False ns"
        "p = root_paths_of base outDir (pa_abs p) (pa_rel p)" using R by blast
    have "pa_plan p = Join outDir (PlanName (from_elems False ns) @ S ''.tfplan'')" "pa_log p = Join outDir (PlanName (from_elems False ns) @ S ''.log'')"
      using arg_cong [OF ns(4), of pa_plan] arg_cong [OF ns(4), of pa_log] ns(3) by (simp_all add: root_paths_of_def del: S_simps)
    then show "\<exists>ns. list_all name_elem ns \<and> clean_elems (pa_abs p) = clean_elems (Abs wd (po_base opts)) @ ns
      \<and> pa_rel p = from_elems False ns \<and> p = root_paths_of (Abs wd (po_base opts)) outDir (pa_abs p) (pa_rel p)
      \<and> clean_elems (pa_plan p) = clean_elems outDir @ file_elems (plan_elems ns) (S ''.tfplan'')
      \<and> clean_elems (pa_log p) = clean_elems outDir @ file_elems (plan_elems ns) (S ''.log'')"
      using ns file_path_elems [OF abs(2) ns(1)] ext unfolding base_def [symmetric] by (metis (no_types))
  qed (use abs R in auto)
qed

text \<open>C36. \<open>resolve\<close> keeps one entry per root given, the roots distinct and inside the base directory;
  no two of them share a plan file or a log, and no plan file is a log, with one exception: the base
  directory and a root named \<open>_root\<close> share both.\<close>

theorem resolve_names_one_root:
  assumes "IsAbs wd" "resolve wd opts = Inr ps"
  shows "length ps = length (po_roots opts) \<and> distinct (map pa_rel ps)
    \<and> (\<forall>p \<in> set ps. \<exists>ns. clean_elems (pa_abs p) = clean_elems (Abs wd (po_base opts)) @ ns \<and> pa_rel p = from_elems False ns)
    \<and> (\<forall>p \<in> set ps. \<forall>q \<in> set ps. pa_plan p \<noteq> pa_log q
        \<and> (pa_plan p = pa_plan q \<or> pa_log p = pa_log q \<longrightarrow> p = q \<or> {pa_rel p, pa_rel q} = {dot, S ''_root''}))"
proof (intro conjI ballI impI)
  obtain outDir where R: "length ps = length (po_roots opts)" "distinct (map pa_rel ps)"
    "\<And>p. p \<in> set ps \<Longrightarrow> \<exists>ns. list_all name_elem ns \<and> clean_elems (pa_abs p) = clean_elems (Abs wd (po_base opts)) @ ns
      \<and> pa_rel p = from_elems False ns \<and> p = root_paths_of (Abs wd (po_base opts)) outDir (pa_abs p) (pa_rel p)
      \<and> clean_elems (pa_plan p) = clean_elems outDir @ file_elems (plan_elems ns) (S ''.tfplan'')
      \<and> clean_elems (pa_log p) = clean_elems outDir @ file_elems (plan_elems ns) (S ''.log'')"
    using resolve_elems [OF assms] by metis
  show "length ps = length (po_roots opts)" "distinct (map pa_rel ps)" using R by auto
  fix p assume p: "p \<in> set ps"
  then obtain ns where ns: "clean_elems (pa_abs p) = clean_elems (Abs wd (po_base opts)) @ ns" "pa_rel p = from_elems False ns"
      "clean_elems (pa_plan p) = clean_elems outDir @ file_elems (plan_elems ns) (S ''.tfplan'')"
      "clean_elems (pa_log p) = clean_elems outDir @ file_elems (plan_elems ns) (S ''.log'')" using R(3) by blast
  then show "\<exists>ns. clean_elems (pa_abs p) = clean_elems (Abs wd (po_base opts)) @ ns \<and> pa_rel p = from_elems False ns" by blast
  fix q assume q: "q \<in> set ps"
  then obtain ms where ms: "pa_rel q = from_elems False ms"
      "clean_elems (pa_plan q) = clean_elems outDir @ file_elems (plan_elems ms) (S ''.tfplan'')"
      "clean_elems (pa_log q) = clean_elems outDir @ file_elems (plan_elems ms) (S ''.log'')" using R(3) by blast
  have ne: "plan_elems ns \<noteq> []" "plan_elems ms \<noteq> []" by (simp_all add: plan_elems_def)
  show "pa_plan p \<noteq> pa_log q"
    using ns(3) ms(3) file_elems_ext [OF ne, of "S ''.tfplan''" "S ''.log''"] by auto
  assume "pa_plan p = pa_plan q \<or> pa_log p = pa_log q"
  then have "plan_elems ns = plan_elems ms" 
    using ns(3,4) ms(2,3) file_elems_inject [OF ne] by (metis same_append_eq)
  then consider "ns = ms" | "{ns, ms} = {[], [S ''_root'']}" using plan_elems_inject by blast
  then show "p = q \<or> {pa_rel p, pa_rel q} = {dot, S ''_root''}"
  proof cases
    case 1
    then have "pa_rel p = pa_rel q" using ns(2) ms(1) by simp
    then show ?thesis using R(2) p q by (auto simp: distinct_map inj_on_def)
  next
    case 2
    have *: "from_elems False [] = dot" "from_elems False [S ''_root''] = S ''_root''" by (simp_all add: from_elems_def)
    have "{pa_rel p, pa_rel q} = from_elems False ` {ns, ms}" using ns(2) ms(1) by simp
    also have "\<dots> = {dot, S ''_root''}" unfolding 2 by (simp only: image_insert image_empty *)
    finally show ?thesis ..
  qed
qed

definition set_roots_given :: plan_options where
  "set_roots_given = \<lparr>po_roots = [S ''net'', S ''./app/../app/web/'', S ''.''], po_base = S ''.'', po_out = S ''plans'', po_parallel = 2\<rparr>"

lemma set_roots_resolved: "resolve (S ''/w'') set_roots_given = Inr
   [\<lparr>pa_rel = S ''net'', pa_abs = S ''/w/net'', pa_plan = S ''/w/plans/net.tfplan'', pa_log = S ''/w/plans/net.log''\<rparr>,
    \<lparr>pa_rel = S ''app/web'', pa_abs = S ''/w/app/web'', pa_plan = S ''/w/plans/app/web.tfplan'', pa_log = S ''/w/plans/app/web.log''\<rparr>,
    \<lparr>pa_rel = S ''.'', pa_abs = S ''/w'', pa_plan = S ''/w/plans/_root.tfplan'', pa_log = S ''/w/plans/_root.log''\<rparr>]"
  by (simp add: set_roots_given_def resolve_def Abs_def Join_def Clean_def Rel_def clean_elems_def clean_step_def from_elems_def
      IsAbs_def r_slash_def dot_def dotdot_def root_paths_of_def PlanName_def Let_def)

lemma resolve_names_one_root_witness: "\<exists>ps. resolve (S ''/w'') set_roots_given = Inr ps \<and> length ps = 3 \<and> distinct (map pa_rel ps)"
proof -
  have "IsAbs (S ''/w'')" by (simp add: IsAbs_def r_slash_def)
  from resolve_names_one_root [OF this set_roots_resolved] show ?thesis
    using set_roots_resolved by (auto simp: set_roots_given_def del: S_simps)
qed

text \<open>The exception: two different roots whose runs write the same plan file and log.\<close>

lemma plan_name_collision:
  "resolve (S ''/w'') \<lparr>po_roots = [S ''.'', S ''_root''], po_base = S ''.'', po_out = S ''plans'', po_parallel = 2\<rparr> = Inr
     [\<lparr>pa_rel = S ''.'', pa_abs = S ''/w'', pa_plan = S ''/w/plans/_root.tfplan'', pa_log = S ''/w/plans/_root.log''\<rparr>,
      \<lparr>pa_rel = S ''_root'', pa_abs = S ''/w/_root'', pa_plan = S ''/w/plans/_root.tfplan'', pa_log = S ''/w/plans/_root.log''\<rparr>]"
  by (simp add: resolve_def Abs_def Join_def Clean_def Rel_def clean_elems_def clean_step_def from_elems_def
      IsAbs_def r_slash_def dot_def dotdot_def root_paths_of_def PlanName_def Let_def)


section \<open>The order\<close>

text \<open>Which root of the set a root is planned after, read off the estates and the reads.\<close>

definition planned_after :: "gostring list \<Rightarrow> gostring list list \<Rightarrow> (nat \<times> nat) set" where
  "planned_after estates rds = {(i, j). i < length rds
     \<and> (\<exists>e \<in> set (rds ! i). e \<noteq> estates ! i \<and> owners_of estates e = [j])}"

definition singles :: "gostring list \<Rightarrow> nat \<Rightarrow> gostring list \<Rightarrow> nat list" where
  "singles estates i es = map (\<lambda>e. hd (owners_of estates e)) (filter (\<lambda>e. e \<noteq> estates ! i \<and> length (owners_of estates e) = 1) es)"

definition unclear :: "gostring list \<Rightarrow> nat \<Rightarrow> gostring list \<Rightarrow> bool" where
  "unclear estates i es \<longleftrightarrow> (\<exists>e \<in> set es. e \<noteq> estates ! i \<and> 1 < length (owners_of estates e))"

lemma order_reads_eq:
  "or_upstreams (order_reads estates i es st) = (or_upstreams st)(i := or_upstreams st i @ singles estates i es)"
  "k \<noteq> i \<Longrightarrow> or_err (order_reads estates i es st) k = or_err st k"
  "or_err (order_reads estates i es st) i = None \<longleftrightarrow> or_err st i = None \<and> \<not> unclear estates i es"
  "(\<forall>c. or_err st i \<noteq> Some (InCycle c)) \<Longrightarrow> or_err (order_reads estates i es st) i \<noteq> Some (InCycle c)"
  "or_upstream (order_reads estates i es st) j \<longleftrightarrow> or_upstream st j \<or> j \<in> set (singles estates i es)"
proof (induction es arbitrary: st)
  case (Cons e es)
  let ?own = "owners_of estates e"
  have *: "?own = [] \<or> length ?own = 1 \<or> 1 < length ?own" by (cases ?own) auto
  {
    case 1 then show ?case using * Cons.IH by (auto simp: singles_def Let_def)
  next
    case 2 then show ?case using Cons.IH by (auto simp: Let_def)
  next
    case 3 then show ?case using * Cons.IH by (auto simp: unclear_def Let_def)
  next
    case 4 then show ?case using Cons.IH by (auto simp: Let_def)
  next
    case 5 then show ?case using * Cons.IH by (auto simp: singles_def Let_def)
  }
qed (simp_all add: singles_def unclear_def)

lemma order_roots_eq:
  assumes "distinct is"
  shows "or_upstreams (order_roots estates rds is st) k
      = or_upstreams st k @ (if k \<in> set is then singles estates k (rds ! k) else [])"
    "or_err (order_roots estates rds is st) k = None \<longleftrightarrow> or_err st k = None \<and> \<not> (k \<in> set is \<and> unclear estates k (rds ! k))"
    "(\<forall>k c. or_err st k \<noteq> Some (InCycle c)) \<Longrightarrow> or_err (order_roots estates rds is st) k \<noteq> Some (InCycle c)"
    "or_upstream (order_roots estates rds is st) j \<longleftrightarrow> or_upstream st j \<or> (\<exists>i \<in> set is. j \<in> set (singles estates i (rds ! i)))"
  using assms
proof (induction "is" arbitrary: st k)
  case (Cons i "is")
  {
    case 1 then show ?case using Cons.IH(1) by (auto simp: order_reads_eq)
  next
    case 2 then show ?case using Cons.IH(2) by (cases "k = i") (auto simp: order_reads_eq)
  next
    case 3
    have "\<forall>k c. or_err (order_reads estates i (rds ! i) st) k \<noteq> Some (InCycle c)"
      using 3(1) order_reads_eq(2,4) by metis
    then show ?case using Cons.IH(3) 3(2) by simp
  next
    case 4 then show ?case using Cons.IH(4) by (auto simp: order_reads_eq)
  }
qed simp_all

lemma owners_range: "j \<in> set (owners_of estates e) \<Longrightarrow> j < length estates"
  by (auto simp: owners_of_def split: if_splits)

lemma owners_single: "owners_of estates e = [j] \<Longrightarrow> j < length estates"
  using owners_range [of j estates e] by simp

lemma singles_iff: "j \<in> set (singles estates i es) \<longleftrightarrow> (\<exists>e \<in> set es. e \<noteq> estates ! i \<and> owners_of estates e = [j])"
  by (force simp: singles_def length_Suc_conv intro: rev_image_eqI)

section \<open>Kahn's algorithm\<close>

text \<open>The roots that can be ordered: all they are planned after can be.\<close>

inductive orderable :: "nat \<Rightarrow> (nat \<Rightarrow> nat list) \<Rightarrow> nat \<Rightarrow> bool" for n ups where
  orderable: "i < n \<Longrightarrow> (\<And>j. j \<in> set (ups i) \<Longrightarrow> orderable n ups j) \<Longrightarrow> orderable n ups i"

inductive_cases orderableE: "orderable n ups i"

definition ups_rel :: "nat \<Rightarrow> (nat \<Rightarrow> nat list) \<Rightarrow> (nat \<times> nat) set" where
  "ups_rel n ups = {(i, j). i < n \<and> j \<in> set (ups i)}"

lemma orderable_rtrancl: "(i, k) \<in> (ups_rel n ups)\<^sup>* \<Longrightarrow> orderable n ups i \<Longrightarrow> orderable n ups k"
  by (induction rule: rtrancl_induct) (auto simp: ups_rel_def elim: orderableE)

lemma orderable_acyclic: "orderable n ups i \<Longrightarrow> (i, i) \<notin> (ups_rel n ups)\<^sup>+"
proof (induction rule: orderable.induct)
  case (orderable i)
  show ?case
  proof
    assume "(i, i) \<in> (ups_rel n ups)\<^sup>+"
    then obtain j where j: "(i, j) \<in> ups_rel n ups" "(j, i) \<in> (ups_rel n ups)\<^sup>*" by (meson tranclD)
    then have "(j, j) \<in> (ups_rel n ups)\<^sup>+" by simp
    then show False using orderable.IH j(1) by (auto simp: ups_rel_def)
  qed
qed

text \<open>What cannot be ordered is on a cycle or behind one.\<close>

lemma orderable_iff:
  assumes "i < n" "\<And>i. i < n \<Longrightarrow> set (ups i) \<subseteq> {..<n}"
  shows "orderable n ups i \<longleftrightarrow> \<not> (\<exists>k. (i, k) \<in> (ups_rel n ups)\<^sup>* \<and> (k, k) \<in> (ups_rel n ups)\<^sup>+)"
proof
  assume "orderable n ups i"
  then show "\<not> (\<exists>k. (i, k) \<in> (ups_rel n ups)\<^sup>* \<and> (k, k) \<in> (ups_rel n ups)\<^sup>+)"
    using orderable_rtrancl orderable_acyclic by blast
next
  assume acyc: "\<not> (\<exists>k. (i, k) \<in> (ups_rel n ups)\<^sup>* \<and> (k, k) \<in> (ups_rel n ups)\<^sup>+)"
  define B where "B = {k. (i, k) \<in> (ups_rel n ups)\<^sup>* \<and> \<not> orderable n ups k}"
  define F where "F = ups_rel n ups \<inter> B \<times> B"
  have "F \<subseteq> {..<n} \<times> {..<n}" using assms(2) by (auto simp: F_def ups_rel_def)
  then have "finite F" by (rule finite_subset) simp
  have range: "k < n" if "(i, k) \<in> (ups_rel n ups)\<^sup>*" for k
    using that assms by (induction rule: rtrancl_induct) (auto simp: ups_rel_def)
  have "acyclic F"
  proof (rule acyclicI, rule allI, rule notI)
    fix k assume k: "(k, k) \<in> F\<^sup>+"
    then have "(k, k) \<in> (ups_rel n ups)\<^sup>+" by (rule trancl_mono) (simp add: F_def)
    moreover have "k \<in> B" using k by (auto simp: F_def dest: tranclD)
    ultimately show False using acyc by (auto simp: B_def)
  qed
  then have wf: "wf (F\<inverse>)" using \<open>finite F\<close> by (rule finite_acyclic_wf_converse [rotated])
  show "orderable n ups i"
  proof (rule ccontr)
    assume "\<not> orderable n ups i"
    then have "i \<in> B" by (simp add: B_def)
    with wf obtain k where k: "k \<in> B" "\<And>y. (y, k) \<in> F\<inverse> \<Longrightarrow> y \<notin> B" by (rule wfE_min) blast
    have "orderable n ups j" if "j \<in> set (ups k)" for j
    proof (rule ccontr)
      assume "\<not> orderable n ups j"
      have "(k, j) \<in> ups_rel n ups" using that k(1) range by (simp add: ups_rel_def B_def)
      moreover have "j \<in> B" using \<open>\<not> orderable n ups j\<close> k(1) calculation by (auto simp: B_def)
      ultimately have "(j, k) \<in> F\<inverse>" using k(1) by (simp add: F_def)
      then show False using k(2) [of j] \<open>j \<in> B\<close> by simp
    qed
    then have "orderable n ups k" using k(1) range by (auto simp: B_def intro: orderable)
    then show False using k(1) by (simp add: B_def)
  qed
qed

lemma relax_eq:
  assumes "\<forall>i. int (count_list L i) \<le> indeg i" "relax L indeg queue = (indeg', queue')"
  shows "indeg' = (\<lambda>i. indeg i - int (count_list L i))
    \<and> (\<exists>X. queue' = queue @ X \<and> distinct X \<and> set X = {i \<in> set L. indeg i = int (count_list L i)})"
  using assms
proof (induction L arbitrary: indeg queue)
  case (Cons i L)
  let ?indeg = "indeg(i := indeg i - 1)" and ?queue = "if indeg i - 1 = 0 then queue @ [i] else queue"
  have step: "relax L ?indeg ?queue = (indeg', queue')" using Cons.prems(2) by (simp add: Let_def)
  have le: "\<forall>k. int (count_list L k) \<le> ?indeg k"
    using Cons.prems(1) by (auto split: if_splits)
  obtain X where X: "indeg' = (\<lambda>k. ?indeg k - int (count_list L k))" "queue' = ?queue @ X" "distinct X"
      "set X = {k \<in> set L. ?indeg k = int (count_list L k)}" using Cons.IH [OF le step] by blast
  have eq: "indeg' = (\<lambda>k. indeg k - int (count_list (i # L) k))" using X(1) by auto
  have mem: "k \<in> set X \<longleftrightarrow> k \<in> set L \<and> ?indeg k = int (count_list L k)" for k using X(4) by blast
  show ?case
  proof (cases "indeg i - 1 = 0")
    case True
    then have "int (count_list L i) \<le> 0" using spec [OF le, of i] by simp
    then have i: "i \<notin> set L" by (simp add: count_list_0_iff)
    have "k \<in> set (i # X) \<longleftrightarrow> k \<in> set (i # L) \<and> indeg k = int (count_list (i # L) k)" for k
      using mem [of k] True i by (cases "k = i") (simp_all add: count_notin)
    then have "set (i # X) = {k \<in> set (i # L). indeg k = int (count_list (i # L) k)}" by blast
    moreover have "distinct (i # X)" using X(3) mem i by simp
    ultimately show ?thesis using eq X(2) True by (intro conjI exI [of _ "i # X"]) simp_all
  next
    case False
    have "k \<in> set X \<longleftrightarrow> k \<in> set (i # L) \<and> indeg k = int (count_list (i # L) k)" for k
    proof (cases "k = i")
      case True
      have "indeg i - 1 \<noteq> int (count_list L i)" if "i \<notin> set L" using that False by (simp add: count_notin)
      then show ?thesis using mem [of k] True by (cases "i \<in> set L") auto
    qed (use mem [of k] in simp)
    then have "set X = {k \<in> set (i # L). indeg k = int (count_list (i # L) k)}" by blast
    then show ?thesis using eq X(2,3) False by (intro conjI exI [of _ X]) simp_all
  qed
qed simp

lemma count_readers: "count_list (readers_of n ups j) i = (if i < n then count_list (ups i) j else 0)"
proof -
  have *: "count_list (map (\<lambda>_. k) xs) i = (if k = i then length xs else 0)" for k :: nat and xs :: "nat list"
    by (induction xs) auto
  have len: "length (filter (\<lambda>k. k = j) xs) = count_list xs j" for xs :: "nat list" by (induction xs) auto
  have "count_list (concat (map (\<lambda>i. map (\<lambda>_. i) (filter (\<lambda>k. k = j) (ups i))) [0..<m])) i
      = (if i < m then count_list (ups i) j else 0)" for m
    by (induction m) (auto simp: * len)
  then show ?thesis by (simp add: readers_of_def)
qed

text \<open>The loop's invariant: \<open>P\<close> are the roots taken off the queue.\<close>

definition kahn_inv :: "nat \<Rightarrow> (nat \<Rightarrow> nat list) \<Rightarrow> nat set \<Rightarrow> (nat \<Rightarrow> int) \<Rightarrow> nat list \<Rightarrow> bool" where
  "kahn_inv n ups P indeg queue \<longleftrightarrow> distinct queue \<and> P \<inter> set queue = {} \<and> P \<subseteq> {..<n}
     \<and> (\<forall>i < n. indeg i = int (length (filter (\<lambda>k. k \<notin> P) (ups i))))
     \<and> (\<forall>i. i \<in> P \<union> set queue \<longleftrightarrow> i < n \<and> indeg i = 0)
     \<and> (\<forall>i \<ge> n. 0 \<le> indeg i)
     \<and> (\<forall>i \<in> P \<union> set queue. orderable n ups i)"

lemma filter_more: "j \<notin> P \<Longrightarrow> length (filter (\<lambda>k. k \<notin> P) xs) = length (filter (\<lambda>k. k \<notin> insert j P) xs) + count_list xs j"
  by (induction xs) auto

lemma kahn_inv_step:
  assumes inv: "kahn_inv n ups P indeg (j # queue)" and relax: "relax (readers_of n ups j) indeg queue = (indeg', queue')"
  shows "kahn_inv n ups (insert j P) indeg' queue'"
proof -
  have j: "j \<notin> P" "j < n" "orderable n ups j" using inv by (auto simp: kahn_inv_def)
  have indeg: "\<forall>i < n. indeg i = int (length (filter (\<lambda>k. k \<notin> insert j P) (ups i))) + int (count_list (ups i) j)"
    using inv filter_more [OF j(1)] by (simp add: kahn_inv_def)
  have "int (count_list (readers_of n ups j) i) \<le> indeg i" for i
  proof (cases "i < n")
    case True
    then show ?thesis using spec [OF indeg, of i] by (simp add: count_readers)
  next
    case False
    then show ?thesis using inv by (simp add: count_readers kahn_inv_def)
  qed
  then have "\<forall>i. int (count_list (readers_of n ups j) i) \<le> indeg i" by blast
  from relax_eq [OF this relax] obtain X where X: "indeg' = (\<lambda>i. indeg i - int (count_list (readers_of n ups j) i))"
      "queue' = queue @ X" "distinct X" "set X = {i \<in> set (readers_of n ups j). indeg i = int (count_list (readers_of n ups j) i)}" by blast
  have new: "\<forall>i < n. indeg' i = int (length (filter (\<lambda>k. k \<notin> insert j P) (ups i)))" using indeg by (simp add: X(1) count_readers)
  have zero: "i \<in> set X \<longleftrightarrow> i < n \<and> indeg' i = 0 \<and> indeg i \<noteq> 0" for i
  proof -
    let ?c = "count_list (readers_of n ups j) i"
    have "indeg' i = indeg i - int ?c" by (simp only: X(1))
    moreover have "i \<in> set X \<longleftrightarrow> ?c \<noteq> 0 \<and> indeg i = int ?c" unfolding X(4) by (simp add: count_list_0_iff)
    moreover have "?c \<noteq> 0 \<longrightarrow> i < n" by (simp add: count_readers)
    ultimately show ?thesis by auto
  qed
  have old: "i < n \<Longrightarrow> indeg i = 0 \<Longrightarrow> indeg' i = 0" for i
  proof -
    assume i: "i < n" "indeg i = 0"
    let ?rest = "length (filter (\<lambda>k. k \<notin> insert j P) (ups i))"
    have "indeg i = int ?rest + int (count_list (ups i) j)" "indeg' i = int ?rest" using indeg new i(1) by blast+
    then show "indeg' i = 0" using i(2) by linarith
  qed
  have mem: "i \<in> P \<union> set (j # queue) \<longleftrightarrow> i < n \<and> indeg i = 0" for i using inv by (simp only: kahn_inv_def)
  have ord: "\<forall>i \<in> P \<union> set (j # queue). orderable n ups i" using inv unfolding kahn_inv_def by blast
  have "i \<in> insert j P \<union> set queue' \<longleftrightarrow> i < n \<and> indeg' i = 0" for i
    using mem [of i] zero [of i] old [of i] X(2) by auto
  moreover have "distinct queue' \<and> insert j P \<inter> set queue' = {}"
  proof -
    have "k \<notin> P \<union> set (j # queue)" if "k \<in> set X" for k using that zero mem by blast
    moreover have "distinct (j # queue)" "P \<inter> set (j # queue) = {}" using inv unfolding kahn_inv_def by blast+
    ultimately show ?thesis using X(2,3) by auto
  qed
  moreover have "orderable n ups i" if "i \<in> insert j P \<union> set queue'" for i
  proof (cases "i \<in> set X")
    case True
    then have "i < n" "indeg' i = 0" using zero by blast+
    then have "filter (\<lambda>k. k \<notin> insert j P) (ups i) = []" using spec [OF new, of i] by simp
    then have "set (ups i) \<subseteq> insert j P" by (auto simp: filter_empty_conv)
    then show ?thesis using \<open>i < n\<close> ord by - (rule orderable, auto)
  qed (use ord that X(2) in auto)
  moreover have "\<forall>i \<ge> n. 0 \<le> indeg' i"
  proof -
    have "\<forall>i \<ge> n. 0 \<le> indeg i" using inv unfolding kahn_inv_def by blast
    then show ?thesis by (simp add: X(1) count_readers)
  qed
  moreover have "insert j P \<subseteq> {..<n}" using inv j(2) by (simp add: kahn_inv_def)
  ultimately show ?thesis using new unfolding kahn_inv_def by simp
qed

lemma kahn_ends:
  assumes "kahn_inv n ups P indeg queue" "n \<le> card P + fuel"
  shows "\<exists>indeg' P. kahn fuel (readers_of n ups) indeg queue = Some indeg' \<and> kahn_inv n ups P indeg' []"
  using assms
proof (induction fuel "readers_of n ups" indeg queue arbitrary: P rule: kahn.induct)
  case (2 indeg j queue)
  then have "insert j P \<subseteq> {..<n}" "j \<notin> P" by (auto simp: kahn_inv_def)
  moreover have "finite P" using calculation(1) by (metis finite_insert finite_lessThan finite_subset)
  ultimately have "Suc (card P) \<le> n" using card_mono [of "{..<n}" "insert j P"] by simp
  then show ?case using 2 by simp
next
  case (3 fuel indeg j queue)
  obtain indeg' queue' where relax: "relax (readers_of n ups j) indeg queue = (indeg', queue')" by fastforce
  have "P \<subseteq> {..<n}" "j \<notin> P" using 3(2) by (auto simp: kahn_inv_def)
  then have "card (insert j P) = Suc (card P)" using finite_subset by fastforce
  then have "n \<le> card (insert j P) + fuel" using 3(3) by simp
  from 3(1) [OF relax [symmetric] refl kahn_inv_step [OF 3(2) relax] this] show ?case using relax by simp
qed auto

lemma kahn_orders:
  assumes ups: "\<And>i. i < n \<Longrightarrow> set (ups i) \<subseteq> {..<n}"
  shows "\<exists>indeg. kahn n (readers_of n ups) (\<lambda>i. int (length (ups i))) (filter (\<lambda>i. int (length (ups i)) = 0) [0..<n]) = Some indeg
    \<and> (\<forall>i < n. 0 < indeg i \<longleftrightarrow> \<not> orderable n ups i)"
proof -
  have "kahn_inv n ups {} (\<lambda>i. int (length (ups i))) (filter (\<lambda>i. int (length (ups i)) = 0) [0..<n])"
    by (auto simp: kahn_inv_def intro: orderable.orderable)
  then obtain indeg P where k: "kahn n (readers_of n ups) (\<lambda>i. int (length (ups i))) (filter (\<lambda>i. int (length (ups i)) = 0) [0..<n]) = Some indeg"
      "kahn_inv n ups P indeg []" using kahn_ends by fastforce
  have P: "i \<in> P \<longleftrightarrow> i < n \<and> indeg i = 0" for i using k(2) by (simp add: kahn_inv_def)
  have indeg: "indeg i = int (length (filter (\<lambda>k. k \<notin> P) (ups i)))" if "i < n" for i
    using k(2) that unfolding kahn_inv_def by blast
  have "i \<in> P" if "orderable n ups i" for i
    using that
  proof (induction rule: orderable.induct)
    case (orderable i)
    then have "filter (\<lambda>k. k \<notin> P) (ups i) = []" by (simp add: filter_empty_conv)
    then have "indeg i = 0" using indeg [OF orderable.hyps(1)] by simp
    then show ?case using P orderable.hyps(1) by simp
  qed
  moreover have "orderable n ups i" if "i \<in> P" for i using that k(2) unfolding kahn_inv_def by blast
  moreover have "0 \<le> indeg i" if "i < n" for i using indeg [OF that] by simp
  ultimately show ?thesis using k(1) P by (metis less_le)
qed

section \<open>The order\<close>

definition order_start :: order_state where
  "order_start = \<lparr>or_upstreams = (\<lambda>_. []), or_err = (\<lambda>_. None), or_upstream = (\<lambda>_. False)\<rparr>"

definition cyclic :: "(nat \<times> nat) set \<Rightarrow> nat \<Rightarrow> bool" where
  "cyclic R i \<longleftrightarrow> (\<exists>k. (i, k) \<in> R\<^sup>* \<and> (k, k) \<in> R\<^sup>+)"

text \<open>Everything \<open>order\<close> computes, in one place.\<close>

lemma order_spec:
  assumes "length estates = length paths" "length rds = length paths"
  obtains st stuck where "order paths estates rds = Some st"
    "\<And>i. i < length paths \<Longrightarrow> or_upstreams st i = singles estates i (rds ! i)"
    "\<And>i. i < length paths \<Longrightarrow> set (or_upstreams st i) = {j. (i, j) \<in> planned_after estates rds}"
    "\<And>i. i < length paths \<Longrightarrow> (if cyclic (planned_after estates rds) i then or_err st i = Some (InCycle stuck)
       else (or_err st i = None \<longleftrightarrow> \<not> unclear estates i (rds ! i)) \<and> (\<forall>c. or_err st i \<noteq> Some (InCycle c)))"
    "\<And>i. i < length paths \<Longrightarrow> orderable (length paths) (or_upstreams st) i \<longleftrightarrow> \<not> cyclic (planned_after estates rds) i"
    "\<And>j. or_upstream st j \<longleftrightarrow> (\<exists>i. (i, j) \<in> planned_after estates rds)"
proof -
  let ?n = "length paths"
  define st where "st = order_roots estates rds [0..<?n] order_start"
  have st_eq: "order_roots estates rds [0..<?n] \<lparr>or_upstreams = (\<lambda>_. []), or_err = (\<lambda>_. None), or_upstream = (\<lambda>_. False)\<rparr> = st"
    by (simp add: st_def order_start_def)
  have ups: "or_upstreams st k = (if k < ?n then singles estates k (rds ! k) else [])" for k
    by (simp add: st_def order_roots_eq(1) order_start_def)
  have err: "or_err st k = None \<longleftrightarrow> \<not> (k < ?n \<and> unclear estates k (rds ! k))" for k
    by (simp add: st_def order_roots_eq(2) order_start_def)
  have nocycle: "or_err st k \<noteq> Some (InCycle c)" for k c
    unfolding st_def by (rule order_roots_eq(3)) (simp_all add: order_start_def)
  have upstream: "or_upstream st j \<longleftrightarrow> (\<exists>i < ?n. j \<in> set (singles estates i (rds ! i)))" for j
    by (auto simp: st_def order_roots_eq(4) order_start_def)
  have set: "set (or_upstreams st i) = {j. (i, j) \<in> planned_after estates rds}" if "i < ?n" for i
    using that assms(2) by (auto simp: ups singles_iff planned_after_def)
  have range: "set (or_upstreams st i) \<subseteq> {..<?n}" if "i < ?n" for i
  proof
    fix j assume "j \<in> set (or_upstreams st i)"
    then obtain e where "owners_of estates e = [j]" using that by (auto simp: ups singles_iff)
    then show "j \<in> {..<?n}" using owners_single [of estates e j] assms(1) by simp
  qed
  have rel: "ups_rel ?n (or_upstreams st) = planned_after estates rds"
    using set assms(2) by (auto simp: ups_rel_def planned_after_def)
  obtain indeg where k: "kahn ?n (readers_of ?n (or_upstreams st)) (\<lambda>i. int (length (or_upstreams st i)))
        (filter (\<lambda>i. int (length (or_upstreams st i)) = 0) [0..<?n]) = Some indeg"
      "\<forall>i < ?n. 0 < indeg i \<longleftrightarrow> \<not> orderable ?n (or_upstreams st) i" using kahn_orders range by blast
  have orderable: "orderable ?n (or_upstreams st) i \<longleftrightarrow> \<not> cyclic (planned_after estates rds) i" if "i < ?n" for i
    using orderable_iff [OF that range] by (simp add: rel cyclic_def)
  define stuck where "stuck = filter (\<lambda>i. indeg i > 0) [0..<?n]"
  let ?st = "st\<lparr>or_err := (\<lambda>i. if i < ?n \<and> indeg i > 0 then Some (InCycle stuck) else or_err st i)\<rparr>"
  show ?thesis
  proof (rule that)
    show "order paths estates rds = Some ?st"
      using k(1) unfolding order_def Let_def st_eq stuck_def by simp
  qed (use ups set err nocycle upstream orderable k(2) assms(2) in \<open>auto simp: planned_after_def singles_iff\<close>)
qed

text \<open>C14. \<open>order\<close> always comes to an end.  A root's upstreams are the roots of the set whose estate it
  reads, where just one owns it; a root fails with a cycle exactly when its reads lead into one, and
  with owners that cannot be told apart exactly when it reads an estate several roots own.\<close>

theorem order_finds_cycles:
  assumes "length estates = length paths" "length rds = length paths"
  shows "\<exists>st. order paths estates rds = Some st
    \<and> (\<forall>i < length paths. set (or_upstreams st i) = {j. (i, j) \<in> planned_after estates rds}
        \<and> ((\<exists>c. or_err st i = Some (InCycle c)) \<longleftrightarrow> cyclic (planned_after estates rds) i)
        \<and> (or_err st i = None \<longleftrightarrow> \<not> cyclic (planned_after estates rds) i \<and> \<not> unclear estates i (rds ! i)))
    \<and> (\<forall>j. or_upstream st j \<longleftrightarrow> (\<exists>i. (i, j) \<in> planned_after estates rds))"
proof -
  obtain st stuck where st: "order paths estates rds = Some st"
    "\<And>i. i < length paths \<Longrightarrow> or_upstreams st i = singles estates i (rds ! i)"
    "\<And>i. i < length paths \<Longrightarrow> set (or_upstreams st i) = {j. (i, j) \<in> planned_after estates rds}"
    "\<And>i. i < length paths \<Longrightarrow> (if cyclic (planned_after estates rds) i then or_err st i = Some (InCycle stuck)
       else (or_err st i = None \<longleftrightarrow> \<not> unclear estates i (rds ! i)) \<and> (\<forall>c. or_err st i \<noteq> Some (InCycle c)))"
    "\<And>i. i < length paths \<Longrightarrow> orderable (length paths) (or_upstreams st) i \<longleftrightarrow> \<not> cyclic (planned_after estates rds) i"
    "\<And>j. or_upstream st j \<longleftrightarrow> (\<exists>i. (i, j) \<in> planned_after estates rds)"
    by (rule order_spec [OF assms]) (rule that; assumption)
  show ?thesis
  proof (rule exI [of _ st], intro conjI allI impI)
    fix i assume i: "i < length paths"
    show "(\<exists>c. or_err st i = Some (InCycle c)) \<longleftrightarrow> cyclic (planned_after estates rds) i"
      using st(4) [OF i] by (auto split: if_splits)
    show "or_err st i = None \<longleftrightarrow> \<not> cyclic (planned_after estates rds) i \<and> \<not> unclear estates i (rds ! i)"
      using st(4) [OF i] by (auto split: if_splits)
  qed (use st in auto)
qed

lemma order_finds_cycles_witness:
  "\<exists>st. order (replicate 3 \<lparr>pa_rel = [], pa_abs = [], pa_plan = [], pa_log = []\<rparr>) [S ''net'', S ''app'', S ''db''] [[], [S ''net''], [S ''app'', S ''ops'']] = Some st
     \<and> set (or_upstreams st 2) = {1} \<and> or_err st 2 = None"
proof -
  define es where "es = [S ''net'', S ''app'', S ''db'']"
  define rds where "rds = [[], [S ''net''], [S ''app'', S ''ops'']]"
  have own: "owners_of es (S ''net'') = [0]" "owners_of es (S ''app'') = [1]" "owners_of es (S ''ops'') = []"
    by (simp_all add: es_def owners_of_def upt_rec)
  have reads: "rds ! 0 = []" "rds ! 1 = [S ''net'']" "rds ! 2 = [S ''app'', S ''ops'']" "es ! 1 = S ''app''" "es ! 2 = S ''db''"
    and len: "length rds = 3" "length es = 3" and ne: "S ''net'' \<noteq> S ''app''" "S ''app'' \<noteq> S ''db''"
    by (simp_all add: rds_def es_def)
  have R: "(i, j) \<in> planned_after es rds \<longleftrightarrow> (i, j) \<in> {(1, 0), (2, 1)}" for i j
  proof -
    consider "i = 0" | "i = 1" | "i = 2" | "3 \<le> i" by linarith
    then show ?thesis by cases (auto simp: planned_after_def reads own len ne simp del: S_simps One_nat_def)
  qed
  have "(k, l) \<in> (planned_after es rds)\<^sup>+ \<Longrightarrow> l < k" for k l
    by (induction rule: trancl_induct) (auto simp: R)
  then have "\<not> cyclic (planned_after es rds) 2" by (auto simp: cyclic_def)
  moreover have "\<not> unclear es 2 (rds ! 2)" by (simp add: unclear_def reads own del: S_simps)
  moreover have "{j. (2, j) \<in> planned_after es rds} = {1}" by (auto simp: R)
  ultimately show ?thesis using order_finds_cycles [of es "replicate 3 \<lparr>pa_rel = [], pa_abs = [], pa_plan = [], pa_log = []\<rparr>" rds] len
    unfolding es_def [symmetric] rds_def [symmetric] by auto
qed


section \<open>The document\<close>

definition set_planned :: "set_root list \<Rightarrow> set_root list" where
  "set_planned roots = filter (\<lambda>r. sr_status r = StatusPlanned) roots"

lemma count_roots_eq:
  "count_roots roots su = \<lparr>su_roots = su_roots su + length roots,
     su_planned = su_planned su + length (set_planned roots),
     su_changed = su_changed su + length (filter sr_changes (set_planned roots)),
     su_failed = su_failed su + length (filter (\<lambda>r. sr_status r \<noteq> StatusPlanned) roots)\<rparr>"
  by (induction roots arbitrary: su) (simp_all add: set_planned_def Let_def)

lemma ExitCode_eq:
  "exit_code changed roots = (if \<exists>r \<in> set roots. sr_status r \<noteq> StatusPlanned then ExitRootFailed
     else if changed \<or> (\<exists>r \<in> set roots. sr_changes r) then ExitChanges else ExitClean)"
  by (induction roots arbitrary: changed) auto

lemma digest_roots_Inr:
  "digest_roots sha256 roots = Inr rs \<longleftrightarrow>
     (\<forall>r \<in> set roots. \<not> isl (RootDigest sha256 (root_plan_of r)))
     \<and> rs = map (\<lambda>r. r\<lparr>sr_digest := projr (RootDigest sha256 (root_plan_of r))\<rparr>) roots"
proof (induction roots arbitrary: rs)
  case (Cons r roots)
  show ?case
    by (cases "RootDigest sha256 (root_plan_of r)") (auto simp: try_bind_Inr_iff Cons.IH)
qed auto

lemma digested_root [simp]: "root_plan_of (r\<lparr>sr_digest := d\<rparr>) = root_plan_of r"
  by (simp add: root_plan_of_def)

lemma document_entries_total:
  assumes "distinct (map rp_root rs)" "\<forall>r \<in> set rs. \<not> isl (RootDigest sha r) \<and> byRoot (rp_root r) = None"
  shows "\<exists>m. document_entries sha rs byRoot es = Inr (m, es @ map (digest_entry sha) rs)"
  using assms
proof (induction rs arbitrary: byRoot es)
  case (Cons r rs)
  then obtain d where d: "RootDigest sha r = Inr d" by (cases "RootDigest sha r") auto
  have "\<forall>r' \<in> set rs. \<not> isl (RootDigest sha r') \<and> (byRoot(rp_root r \<mapsto> d)) (rp_root r') = None"
    using Cons.prems by (auto simp: image_iff)
  note new = this
  have "distinct (map rp_root rs)" using Cons.prems(1) by simp
  from Cons.IH [OF this new, of "es @ [digest_entry sha r]"]
  obtain m where "document_entries sha rs (byRoot(rp_root r \<mapsto> d)) (es @ [digest_entry sha r])
      = Inr (m, (es @ [digest_entry sha r]) @ map (digest_entry sha) rs)"  by blast
  then show ?case using d Cons.prems(2) by (intro exI [of _ m]) (simp add: digest_entry_def)
qed simp

lemma DocumentDigests_total:
  assumes "distinct (map rp_root rs)" "\<forall>r \<in> set rs. \<not> isl (RootDigest sha r)"
    and "SetDigest sha (map (digest_entry sha) rs) = Inr d"
  shows "DocumentDigests sha \<lparr>sd_roots = rs\<rparr> = Inr (map_of (map (\<lambda>r. (rp_root r, projr (RootDigest sha r))) rs), d)"
proof -
  obtain m where m: "document_entries sha rs Map.empty [] = Inr (m, map (digest_entry sha) rs)"
    using document_entries_total [OF assms(1), of sha Map.empty "[]"] assms(2) by auto
  moreover have "m = map_of (map (\<lambda>r. (rp_root r, projr (RootDigest sha r))) rs)"
    using document_entries_Inr [OF m] by simp
  ultimately show ?thesis using assms(3) by (simp add: DocumentDigests_def)
qed

lemma plan_document_Inr:
  assumes "plan_document_of sha256 roots = Inr doc"
  shows "digest_roots sha256 roots = Inr (dc_roots doc)
    \<and> SetDigest sha256 (map (\<lambda>r. \<lparr>de_root = sr_root r, de_digest = sr_digest r\<rparr>) (dc_roots doc)) = Inr (dc_digest doc)
    \<and> dc_summary doc = count_roots roots \<lparr>su_roots = 0, su_planned = 0, su_changed = 0, su_failed = 0\<rparr>
    \<and> dc_exit doc = ExitCode (dc_roots doc)"
  using assms by (auto simp: plan_document_of_def digestDocument_def Let_def try_bind_Inr_iff split: prod.splits)

lemma ExitCode_digested:
  assumes "digest_roots sha256 roots = Inr rs"
  shows "ExitCode rs = ExitCode roots"
  using assms by (auto simp: digest_roots_Inr ExitCode_def ExitCode_eq)

lemma set_digests:
  assumes "plan_document_of sha256 roots = Inr doc"
  shows "DocumentDigests sha256 \<lparr>sd_roots = map root_plan_of (dc_roots doc)\<rparr>
      = Inr (map_of (map (\<lambda>r. (sr_root r, sr_digest r)) (dc_roots doc)), dc_digest doc)
    \<and> map root_plan_of (dc_roots doc) = map root_plan_of roots"
proof -
  note P = plan_document_Inr [OF assms]
  have ok: "\<forall>r \<in> set roots. \<not> isl (RootDigest sha256 (root_plan_of r))"
    and rs: "dc_roots doc = map (\<lambda>r. r\<lparr>sr_digest := projr (RootDigest sha256 (root_plan_of r))\<rparr>) roots"
    using P by (simp_all add: digest_roots_Inr)
  have name: "rp_root (root_plan_of r) = sr_root r" for r by (simp add: root_plan_of_def)
  have entries: "map (\<lambda>r. \<lparr>de_root = sr_root r, de_digest = sr_digest r\<rparr>) (dc_roots doc)
      = map (digest_entry sha256) (map root_plan_of (dc_roots doc))"
    by (simp add: rs digest_entry_def name)
  have dist: "distinct (map rp_root (map root_plan_of (dc_roots doc)))"
    using P by (simp add: SetDigest_Inr comp_def name)
  have digests: "map (\<lambda>r. (rp_root r, projr (RootDigest sha256 r))) (map root_plan_of (dc_roots doc))
      = map (\<lambda>r. (sr_root r, sr_digest r)) (dc_roots doc)"
    by (simp add: rs name)
  have A: "\<forall>r \<in> set (map root_plan_of (dc_roots doc)). \<not> isl (RootDigest sha256 r)" using ok by (simp add: rs)
  have B: "SetDigest sha256 (map (digest_entry sha256) (map root_plan_of (dc_roots doc))) = Inr (dc_digest doc)"
    using P unfolding entries [symmetric] by blast
  have "DocumentDigests sha256 \<lparr>sd_roots = map root_plan_of (dc_roots doc)\<rparr>
      = Inr (map_of (map (\<lambda>r. (sr_root r, sr_digest r)) (dc_roots doc)), dc_digest doc)"
    using DocumentDigests_total [OF dist A B] unfolding digests .
  moreover have "map root_plan_of (dc_roots doc) = map root_plan_of roots" unfolding rs by simp
  ultimately show ?thesis ..
qed

text \<open>The digests a set plan prints are the ones every reader of its document computes from it:
  the set digest and each root's digest are what \<open>DocumentDigests\<close> gives for the printed roots.\<close>

theorem plan_set_digests_agree:
  assumes "plan_document_of sha256 roots = Inr doc"
  shows "DocumentDigests sha256 \<lparr>sd_roots = map root_plan_of (dc_roots doc)\<rparr>
      = Inr (map_of (map (\<lambda>r. (sr_root r, sr_digest r)) (dc_roots doc)), dc_digest doc)
    \<and> map root_plan_of (dc_roots doc) = map root_plan_of roots"
  using assms by (rule set_digests)

definition planned_net :: set_root where
  "planned_net = \<lparr>sr_root = S ''net'', sr_estate = S ''net'', sr_status = StatusPlanned, sr_error = [], sr_stage = StageNone,
     sr_changes = True, sr_plan_file = S ''plans/net.tfplan'', sr_log_file = S ''plans/net.log'',
     sr_plan = Some (demo_plan demo_rcs), sr_digest = [], sr_reads = [], sr_from = []\<rparr>"

lemma planned_net_document: "\<exists>doc. plan_document_of sha256 [planned_net] = Inr doc"
proof -
  have "root_plan_of planned_net = demo_root demo_rcs" by (simp add: root_plan_of_def planned_net_def demo_root_def)
  moreover obtain d where "RootDigest sha256 (demo_root demo_rcs) = Inr d" using demo_digest by blast
  moreover obtain s where "SetDigest sha256 [\<lparr>de_root = sr_root planned_net, de_digest = d\<rparr>] = Inr s" by (auto simp: SetDigest_Inr)
  ultimately show ?thesis by (simp add: plan_document_of_def digestDocument_def Let_def)
qed

lemma plan_set_digests_agree_witness:
  "\<exists>doc byRoot. plan_document_of (\<lambda>s. s) [planned_net] = Inr doc
     \<and> DocumentDigests (\<lambda>s. s) \<lparr>sd_roots = [demo_root demo_rcs]\<rparr> = Inr (byRoot, dc_digest doc)"
proof -
  obtain doc where "plan_document_of (\<lambda>s. s) [planned_net] = Inr doc" using planned_net_document by blast
  moreover from plan_set_digests_agree [OF this] have "map root_plan_of (dc_roots doc) = [demo_root demo_rcs]"
    by (simp add: root_plan_of_def planned_net_def demo_root_def)
  ultimately show ?thesis using plan_set_digests_agree [of "\<lambda>s. s" "[planned_net]" doc] by auto
qed

text \<open>C29. The summary and the exit code of a set plan say what became of every root.\<close>

theorem plan_set_exit_code:
  assumes "plan_document_of sha256 roots = Inr doc"
  shows "su_roots (dc_summary doc) = length roots
    \<and> su_planned (dc_summary doc) = length (set_planned roots)
    \<and> su_planned (dc_summary doc) + su_failed (dc_summary doc) = length roots
    \<and> su_changed (dc_summary doc) = length (filter sr_changes (set_planned roots))
    \<and> dc_exit doc = (if 0 < su_failed (dc_summary doc) then ExitRootFailed
        else if 0 < su_changed (dc_summary doc) then ExitChanges else ExitClean)"
proof -
  note P = plan_document_Inr [OF assms]
  have sum: "dc_summary doc = \<lparr>su_roots = length roots, su_planned = length (set_planned roots),
      su_changed = length (filter sr_changes (set_planned roots)),
      su_failed = length (filter (\<lambda>r. sr_status r \<noteq> StatusPlanned) roots)\<rparr>"
    using P by (simp add: count_roots_eq)
  have exit_val: "dc_exit doc = (if \<exists>r \<in> set roots. sr_status r \<noteq> StatusPlanned then ExitRootFailed
      else if \<exists>r \<in> set roots. sr_changes r then ExitChanges else ExitClean)"
    using P ExitCode_digested [of sha256 roots] by (simp add: ExitCode_def ExitCode_eq)
  have failed: "0 < su_failed (dc_summary doc) \<longleftrightarrow> (\<exists>r \<in> set roots. sr_status r \<noteq> StatusPlanned)"
    by (auto simp: sum filter_empty_conv)
  have changed: "0 < su_changed (dc_summary doc) \<longleftrightarrow> (\<exists>r \<in> set roots. sr_changes r)"
    if "\<not> (\<exists>r \<in> set roots. sr_status r \<noteq> StatusPlanned)"
    using that by (auto simp: sum set_planned_def filter_empty_conv)
  show ?thesis
    using exit_val failed changed sum_length_filter_compl [of "\<lambda>r. sr_status r = StatusPlanned" roots]
    by (simp add: sum set_planned_def)
qed

lemma plan_set_exit_code_witness: "\<exists>doc. plan_document_of (\<lambda>s. s) [planned_net] = Inr doc \<and> dc_exit doc = ExitChanges"
proof -
  obtain doc where "plan_document_of (\<lambda>s. s) [planned_net] = Inr doc" using planned_net_document by blast
  moreover have "set_planned [planned_net] = [planned_net]" "sr_changes planned_net" by (simp_all add: set_planned_def planned_net_def)
  ultimately show ?thesis using plan_set_exit_code [of "\<lambda>s. s" "[planned_net]" doc] by auto
qed

end
