(* ===== verification/SetPlanRun.thy ===== *)
theory SetPlanRun
  imports SetPlanFacts
begin

text \<open>
  The goroutines of a set plan: \<open>Run\<close>, \<open>runRoot\<close> of \<open>setplan.go\<close> and the coordinator of
  \<open>order.go\<close> as a step relation.  Every root has a program counter; a step is what one goroutine does
  between two points where it can wait: for a slot of the bound, for the whole set to publish, for an
  upstream to be done.  Steps of different roots interleave in any order.

  What the operating system and the \<open>Runner\<close> answer is a parameter, one function per call.  Each
  call is made at most once per root, so the functions stand for whatever answers a run gets.  The
  clock and the tracing spans are left out.
\<close>

section \<open>The runner and the shared state\<close>

text \<open>An answer is an error's text or the value returned; calls that return only an error give an
  option.  Paths are the arguments the code passes.\<close>

record set_runner =
  rn_mkdir :: "gostring \<Rightarrow> gostring option"
  rn_create :: "gostring \<Rightarrow> gostring option"
  rn_stat :: "gostring \<Rightarrow> gostring + bool"
  rn_estate :: "gostring \<Rightarrow> gostring + gostring \<times> bool"
  rn_init :: "gostring \<Rightarrow> gostring option"
  rn_reads :: "gostring \<Rightarrow> gostring list \<times> gostring option"
  rn_remove :: "gostring \<Rightarrow> gostring option"
  rn_plan :: "gostring \<Rightarrow> gostring \<Rightarrow> (gostring \<times> gostring) list \<Rightarrow> gostring + bool"
  rn_show :: "gostring \<Rightarrow> gostring \<Rightarrow> gostring + json"
  rn_write :: "gostring \<Rightarrow> json \<Rightarrow> gostring option"

text \<open>What a run fixes: the base directory, the paths, the bound, the runner, and \<open>%q\<close> of Go's
  \<open>fmt\<close> for the error texts.\<close>

record set_context =
  cx_base :: gostring
  cx_paths :: "root_paths list"
  cx_parallel :: nat
  cx_runner :: set_runner
  cx_quote :: "gostring \<Rightarrow> gostring"

text \<open>
  Where a root's goroutine is.  \<open>Published\<close> and \<open>Released\<close> carry the error of \<open>readsOf\<close>,
  \<open>Waiting\<close> the upstreams still to wait for and those found planned, \<open>Ending\<close> whether the deferred
  functions still have a slot to release.
\<close>

datatype pc =
    Start
  | Preparing
  | Published "gostring option"
  | Released "gostring option"
  | Waiting "nat list" "planned_from list"
  | Ready "planned_from list"
  | Planning "planned_from list"
  | Ending bool
  | Finished

text \<open>The coordinator, and each goroutine's place and its entry of the document.\<close>

record set_run =
  co_sem :: nat
  co_published :: "nat \<Rightarrow> bool"
  co_estates :: "nat \<Rightarrow> gostring"
  co_reads :: "nat \<Rightarrow> gostring list"
  co_results :: "nat \<Rightarrow> set_root"
  co_done :: "nat \<Rightarrow> bool"
  go_pc :: "nat \<Rightarrow> pc"
  go_root :: "nat \<Rightarrow> set_root"

section \<open>A root's stages\<close>

definition relTo :: "gostring \<Rightarrow> gostring \<Rightarrow> gostring" where
  "relTo base path = Rel base path"

definition planJSONPath :: "gostring \<Rightarrow> gostring" where
  "planJSONPath planFile = planFile @ S ''.json''"

definition ReadsPlanned :: gostring where "ReadsPlanned = S ''planned''"

definition stage_string :: "stage \<Rightarrow> gostring" where
  "stage_string st = (case st of StageNone \<Rightarrow> [] | StageEstate \<Rightarrow> S ''estate'' | StageInit \<Rightarrow> S ''init''
     | StagePlan \<Rightarrow> S ''plan'' | StageShow \<Rightarrow> S ''show'')"

text \<open>The entry a root starts with, and what \<open>fail\<close> makes of it.\<close>

definition root_start :: "gostring \<Rightarrow> root_paths \<Rightarrow> set_root" where
  "root_start base p = \<lparr>sr_root = pa_rel p, sr_estate = [], sr_status = StatusFailed, sr_error = [], sr_stage = StageNone,
     sr_changes = False, sr_plan_file = [], sr_log_file = relTo base (pa_log p), sr_plan = None, sr_digest = [],
     sr_reads = [], sr_from = []\<rparr>"

definition fail_root :: "stage \<Rightarrow> gostring \<Rightarrow> set_root \<Rightarrow> set_root" where
  "fail_root st err r = r\<lparr>sr_stage := st, sr_error := err, sr_changes := False, sr_plan := None\<rparr>"

text \<open>The estate and init stages: the entry so far and, when a stage failed, \<open>Inl\<close> of it.\<close>

definition prepare_root :: "set_context \<Rightarrow> root_paths \<Rightarrow> set_root + set_root" where
  "prepare_root cx p =
     (let rn = cx_runner cx; r = root_start (cx_base cx) p in
      case rn_mkdir rn (pa_log p) of Some err \<Rightarrow> Inl (fail_root StageInit (S ''creating the output directory: '' @ err) r)
      | None \<Rightarrow>
      case rn_create rn (pa_log p) of Some err \<Rightarrow> Inl (fail_root StageInit (S ''creating the root's log: '' @ err) r)
      | None \<Rightarrow>
      case rn_stat rn (pa_abs p) of
        Inl err \<Rightarrow> Inl (fail_root StageEstate (S ''reading the root directory: '' @ err) r)
      | Inr dir \<Rightarrow>
      if \<not> dir then Inl (fail_root StageEstate (pa_rel p @ S '' is not a directory'') r)
      else case rn_estate rn (pa_abs p) of
        Inl err \<Rightarrow> Inl (fail_root StageEstate err r)
      | Inr (estate, ok) \<Rightarrow>
      if \<not> ok then Inl (fail_root StageEstate
        (S ''this root has no live block: \"choudoufu plan\" there would be a stock state-backed plan, not a live one. Declare the estate in a live block (terraform { live { estate = \"...\" } }) or an estate.chdf.hcl sidecar'') r)
      else (let r = r\<lparr>sr_estate := estate\<rparr> in
        case rn_init rn (pa_abs p) of Some err \<Rightarrow> Inl (fail_root StageInit err r) | None \<Rightarrow> Inr r))"

text \<open>The plan and show stages of a root, planned on \<open>from\<close>; the entry it ends with.\<close>

definition plan_root :: "set_context \<Rightarrow> root_paths \<Rightarrow> bool \<Rightarrow> planned_from list \<Rightarrow> set_root \<Rightarrow> set_root" where
  "plan_root cx p isUpstream from r =
     (let rn = cx_runner cx;
          planFrom = map (\<lambda>f. (pf_estate f, Join (cx_base cx) (pf_json f))) from in
      case rn_remove rn (pa_plan p) of
        Some err \<Rightarrow> fail_root StagePlan (S ''removing an earlier run's plan file: '' @ err) r
      | None \<Rightarrow>
      case rn_plan rn (pa_abs p) (pa_plan p) planFrom of
        Inl err \<Rightarrow> fail_root StagePlan err r
      | Inr changes \<Rightarrow>
      (let r = r\<lparr>sr_plan_file := relTo (cx_base cx) (pa_plan p)\<rparr> in
      case rn_show rn (pa_abs p) (pa_plan p) of
        Inl err \<Rightarrow> fail_root StageShow err r
      | Inr plan \<Rightarrow>
      case (if isUpstream then rn_write rn (planJSONPath (pa_plan p)) plan else None) of
        Some err \<Rightarrow> fail_root StageShow (S ''writing the plan document a reader of this root plans on: '' @ err) r
      | None \<Rightarrow> r\<lparr>sr_status := StatusPlanned, sr_changes := changes, sr_plan := Some plan\<rparr>))"

section \<open>Waiting for upstreams\<close>

definition order_error_text :: "set_context \<Rightarrow> order_error \<Rightarrow> gostring" where
  "order_error_text cx err =
     (let rel = (\<lambda>j. pa_rel (cx_paths cx ! j)) in
      case err of
        OwnedBySeveral e own \<Rightarrow> S ''this root reads estate '' @ cx_quote cx e @ S (CHR 0x27 # ''s outputs, and '') @ itoa_nat (length own)
          @ S '' roots of the set own that estate ('' @ join_str (S '', '') (map rel own)
          @ S ''), so which one's plan to read cannot be told''
      | InCycle stuck \<Rightarrow> S ''this root's terraform_estate_outputs reads form a cycle within the set (''
          @ join_str (S '', '') (sort (map rel stuck))
          @ S ''): a reader is planned after what it reads, and a cycle has no order'')"

definition upstream_failed_text :: "set_context \<Rightarrow> gostring \<Rightarrow> gostring \<Rightarrow> stage \<Rightarrow> gostring" where
  "upstream_failed_text cx e rel st = S ''this root reads estate '' @ cx_quote cx e @ S (CHR 0x27 # ''s outputs, and root '') @ rel
     @ S '', which owns it, did not plan (stage '' @ stage_string st
     @ S ''), so this root is not planned on that estate's planned outputs, and never on what it last applied in their place''"

text \<open>What upstream \<open>j\<close>, done, means for a root waiting for it.\<close>

definition read_upstream :: "set_context \<Rightarrow> (nat \<Rightarrow> gostring) \<Rightarrow> (nat \<Rightarrow> set_root) \<Rightarrow> nat \<Rightarrow> gostring + planned_from" where
  "read_upstream cx estates results j =
     (let up = results j; p = cx_paths cx ! j in
      if sr_status up \<noteq> StatusPlanned then Inl (upstream_failed_text cx (estates j) (pa_rel p) (sr_stage up))
      else Inr \<lparr>pf_root = pa_rel p, pf_estate = estates j, pf_json = relTo (cx_base cx) (planJSONPath (pa_plan p))\<rparr>)"

definition planned_on :: "planned_from list \<Rightarrow> set_root \<Rightarrow> set_root" where
  "planned_on from r = (if from = [] then r else r\<lparr>sr_reads := ReadsPlanned, sr_from := from\<rparr>)"

section \<open>The coordinator\<close>

definition publish :: "nat \<Rightarrow> gostring \<Rightarrow> gostring list \<Rightarrow> set_run \<Rightarrow> set_run" where
  "publish i estate rds s =
     (if co_published s i then s
      else s\<lparr>co_published := (co_published s)(i := True), co_estates := (co_estates s)(i := estate),
             co_reads := (co_reads s)(i := rds)\<rparr>)"

definition acquire :: "set_run \<Rightarrow> set_run" where
  "acquire s = s\<lparr>co_sem := co_sem s + 1\<rparr>"

definition release :: "set_run \<Rightarrow> set_run" where
  "release s = s\<lparr>co_sem := co_sem s - 1\<rparr>"

definition goto :: "nat \<Rightarrow> pc \<Rightarrow> set_run \<Rightarrow> set_run" where
  "goto i p s = s\<lparr>go_pc := (go_pc s)(i := p)\<rparr>"

definition set_entry :: "nat \<Rightarrow> set_root \<Rightarrow> set_run \<Rightarrow> set_run" where
  "set_entry i r s = s\<lparr>go_root := (go_root s)(i := r)\<rparr>"

definition finish :: "nat \<Rightarrow> set_run \<Rightarrow> set_run" where
  "finish i s =
     (let s = publish i [] [] s in
      goto i Finished (s\<lparr>co_results := (co_results s)(i := go_root s i), co_done := (co_done s)(i := True)\<rparr>))"

text \<open>\<open>fail\<close> and the return after it: the deferred functions come next.\<close>

definition fail :: "nat \<Rightarrow> stage \<Rightarrow> gostring \<Rightarrow> bool \<Rightarrow> set_run \<Rightarrow> set_run" where
  "fail i st err holding s = goto i (Ending holding) (set_entry i (fail_root st err (go_root s i)) s)"

text \<open>
  \<open>order\<close> waits for the whole set to publish; what it computes, once, is a function of what was
  published, and nothing is published twice.
\<close>

definition all_published :: "set_context \<Rightarrow> set_run \<Rightarrow> bool" where
  "all_published cx s \<longleftrightarrow> list_all (co_published s) [0..<length (cx_paths cx)]"

definition run_order :: "set_context \<Rightarrow> set_run \<Rightarrow> order_state option" where
  "run_order cx s = order (cx_paths cx) (map (co_estates s) [0..<length (cx_paths cx)])
     (map (co_reads s) [0..<length (cx_paths cx)])"

section \<open>Steps\<close>

inductive set_step :: "set_context \<Rightarrow> set_run \<Rightarrow> set_run \<Rightarrow> bool" for cx where
  first_acquire: "i < length (cx_paths cx) \<Longrightarrow> go_pc s i = Start \<Longrightarrow> co_sem s < cx_parallel cx \<Longrightarrow>
    set_step cx s (goto i Preparing (acquire s))"
| prepare_fails: "i < length (cx_paths cx) \<Longrightarrow> go_pc s i = Preparing \<Longrightarrow> prepare_root cx (cx_paths cx ! i) = Inl r \<Longrightarrow>
    set_step cx s (goto i (Ending True) (set_entry i r s))"
| prepares: "i < length (cx_paths cx) \<Longrightarrow> go_pc s i = Preparing \<Longrightarrow> prepare_root cx (cx_paths cx ! i) = Inr r \<Longrightarrow>
    rn_reads (cx_runner cx) (pa_abs (cx_paths cx ! i)) = (rds, readsErr) \<Longrightarrow>
    set_step cx s (goto i (Published readsErr) (publish i (sr_estate r) rds (set_entry i r s)))"
| releases: "i < length (cx_paths cx) \<Longrightarrow> go_pc s i = Published readsErr \<Longrightarrow>
    set_step cx s (goto i (Released readsErr) (release s))"
| reads_fail: "i < length (cx_paths cx) \<Longrightarrow> go_pc s i = Released (Some err) \<Longrightarrow>
    set_step cx s (fail i StagePlan (S ''reading which estates this root's terraform_estate_outputs blocks read: '' @ err) False s)"
| order_fails: "i < length (cx_paths cx) \<Longrightarrow> go_pc s i = Released None \<Longrightarrow> all_published cx s \<Longrightarrow>
    run_order cx s = Some ord \<Longrightarrow> or_err ord i = Some e \<Longrightarrow>
    set_step cx s (fail i StagePlan (order_error_text cx e) False s)"
| waits: "i < length (cx_paths cx) \<Longrightarrow> go_pc s i = Released None \<Longrightarrow> all_published cx s \<Longrightarrow>
    run_order cx s = Some ord \<Longrightarrow> or_err ord i = None \<Longrightarrow>
    set_step cx s (goto i (Waiting (or_upstreams ord i) []) s)"
| upstream_failed: "i < length (cx_paths cx) \<Longrightarrow> go_pc s i = Waiting (j # js) from \<Longrightarrow> co_done s j \<Longrightarrow>
    read_upstream cx (co_estates s) (co_results s) j = Inl err \<Longrightarrow>
    set_step cx s (fail i StagePlan err False s)"
| upstream_planned: "i < length (cx_paths cx) \<Longrightarrow> go_pc s i = Waiting (j # js) from \<Longrightarrow> co_done s j \<Longrightarrow>
    read_upstream cx (co_estates s) (co_results s) j = Inr f \<Longrightarrow>
    set_step cx s (goto i (Waiting js (from @ [f])) s)"
| upstreams_planned: "i < length (cx_paths cx) \<Longrightarrow> go_pc s i = Waiting [] from \<Longrightarrow>
    set_step cx s (goto i (Ready (sort_key pf_root from)) (set_entry i (planned_on (sort_key pf_root from) (go_root s i)) s))"
| second_acquire: "i < length (cx_paths cx) \<Longrightarrow> go_pc s i = Ready from \<Longrightarrow> co_sem s < cx_parallel cx \<Longrightarrow>
    set_step cx s (goto i (Planning from) (acquire s))"
| plans: "i < length (cx_paths cx) \<Longrightarrow> go_pc s i = Planning from \<Longrightarrow> run_order cx s = Some ord \<Longrightarrow>
    set_step cx s (goto i (Ending True) (set_entry i (plan_root cx (cx_paths cx ! i) (or_upstream ord i) from (go_root s i)) s))"
| ends_holding: "i < length (cx_paths cx) \<Longrightarrow> go_pc s i = Ending True \<Longrightarrow>
    set_step cx s (goto i (Ending False) (release s))"
| finishes: "i < length (cx_paths cx) \<Longrightarrow> go_pc s i = Ending False \<Longrightarrow>
    set_step cx s (finish i s)"

text \<open>The zero value of a \<open>Root\<close>.\<close>

definition root_zero :: set_root where
  "root_zero = \<lparr>sr_root = [], sr_estate = [], sr_status = [], sr_error = [], sr_stage = StageNone, sr_changes = False,
     sr_plan_file = [], sr_log_file = [], sr_plan = None, sr_digest = [], sr_reads = [], sr_from = []\<rparr>"

text \<open>Where \<open>Run\<close> starts its goroutines, and where it has waited for them all.\<close>

definition run_start :: "set_context \<Rightarrow> set_run" where
  "run_start cx = \<lparr>co_sem = 0, co_published = (\<lambda>_. False), co_estates = (\<lambda>_. []), co_reads = (\<lambda>_. []),
     co_results = (\<lambda>_. root_zero), co_done = (\<lambda>_. False), go_pc = (\<lambda>_. Start),
     go_root = (\<lambda>i. root_start (cx_base cx) (cx_paths cx ! i))\<rparr>"

definition run_over :: "set_context \<Rightarrow> set_run \<Rightarrow> bool" where
  "run_over cx s \<longleftrightarrow> list_all (\<lambda>i. go_pc s i = Finished) [0..<length (cx_paths cx)]"

definition run_context :: "gostring \<Rightarrow> (gostring \<Rightarrow> gostring) \<Rightarrow> set_runner \<Rightarrow> plan_options \<Rightarrow> resolve_error + set_context" where
  "run_context wd quote rn opts =
     (if po_parallel opts < 1 then Inl (BadParallel (po_parallel opts))
      else try_bind (resolve wd opts) (\<lambda>ps.
        Inr \<lparr>cx_base = Abs wd (po_base opts), cx_paths = ps, cx_parallel = nat (po_parallel opts), cx_runner = rn, cx_quote = quote\<rparr>))"

text \<open>The document's roots, in the order the command was given them.\<close>

definition run_roots :: "set_context \<Rightarrow> set_run \<Rightarrow> set_root list" where
  "run_roots cx s = map (co_results s) [0..<length (cx_paths cx)]"

abbreviation set_runs :: "set_context \<Rightarrow> set_run \<Rightarrow> set_run \<Rightarrow> bool" where
  "set_runs cx \<equiv> (set_step cx)\<^sup>*\<^sup>*"

end
