(* ===== verification/SetPlanRunFacts.thy ===== *)
theory SetPlanRunFacts
  imports SetPlanRun
begin

text \<open>
  What the goroutines of a set plan guarantee.  \<open>root_outcome\<close> is the sequential reading of one
  root's run; the invariant \<open>run_inv\<close> says, for every place of a goroutine, how far its entry has
  come towards it whatever the roots that are not done will return.  From it follow that a run is
  never stuck, keeps the bound, plans readers after what they read, and ends the same way under every
  schedule; that it ends is a measure.
\<close>


section \<open>What each root comes to\<close>

text \<open>
  The sequential reading of one root's run, given the order and the results of its upstreams: the
  specification the goroutines are checked against.
\<close>

abbreviation root_count :: "set_context \<Rightarrow> nat" where
  "root_count cx \<equiv> length (cx_paths cx)"

abbreviation root_at :: "set_context \<Rightarrow> nat \<Rightarrow> root_paths" where
  "root_at cx i \<equiv> cx_paths cx ! i"

abbreviation reads_of :: "set_context \<Rightarrow> nat \<Rightarrow> gostring list \<times> gostring option" where
  "reads_of cx i \<equiv> rn_reads (cx_runner cx) (pa_abs (root_at cx i))"

definition owned_estate :: "set_context \<Rightarrow> nat \<Rightarrow> gostring" where
  "owned_estate cx i = (case prepare_root cx (root_at cx i) of Inl _ \<Rightarrow> [] | Inr r \<Rightarrow> sr_estate r)"

definition read_estates :: "set_context \<Rightarrow> nat \<Rightarrow> gostring list" where
  "read_estates cx i = (case prepare_root cx (root_at cx i) of Inl _ \<Rightarrow> [] | Inr r \<Rightarrow> fst (reads_of cx i))"

definition set_estates :: "set_context \<Rightarrow> gostring list" where
  "set_estates cx = map (owned_estate cx) [0..<root_count cx]"

definition set_reads :: "set_context \<Rightarrow> gostring list list" where
  "set_reads cx = map (read_estates cx) [0..<root_count cx]"

definition set_order :: "set_context \<Rightarrow> order_state" where
  "set_order cx = the (order (cx_paths cx) (set_estates cx) (set_reads cx))"

fun read_upstreams :: "set_context \<Rightarrow> (nat \<Rightarrow> set_root) \<Rightarrow> nat list \<Rightarrow> planned_from list \<Rightarrow> gostring + planned_from list" where
  "read_upstreams cx res [] from = Inr from"
| "read_upstreams cx res (j # js) from =
     try_bind (read_upstream cx (owned_estate cx) res j) (\<lambda>f. read_upstreams cx res js (from @ [f]))"

definition root_outcome :: "set_context \<Rightarrow> (nat \<Rightarrow> set_root) \<Rightarrow> nat \<Rightarrow> set_root" where
  "root_outcome cx res i =
     (case prepare_root cx (root_at cx i) of
        Inl r \<Rightarrow> r
      | Inr r \<Rightarrow>
     (case snd (reads_of cx i) of
        Some err \<Rightarrow> fail_root StagePlan (S ''reading which estates this root's terraform_estate_outputs blocks read: '' @ err) r
      | None \<Rightarrow>
     (case or_err (set_order cx) i of
        Some e \<Rightarrow> fail_root StagePlan (order_error_text cx e) r
      | None \<Rightarrow>
     (case read_upstreams cx res (or_upstreams (set_order cx) i) [] of
        Inl err \<Rightarrow> fail_root StagePlan err r
      | Inr from \<Rightarrow> plan_root cx (root_at cx i) (or_upstream (set_order cx) i) (sort_key pf_root from)
          (planned_on (sort_key pf_root from) r)))))"

lemma set_order_eq: "order (cx_paths cx) (set_estates cx) (set_reads cx) = Some (set_order cx)"
  by (rule order_spec [of "set_estates cx" "cx_paths cx" "set_reads cx"]) (simp_all add: set_estates_def set_reads_def set_order_def)

lemma set_order_spec:
  assumes "i < root_count cx"
  shows "set (or_upstreams (set_order cx) i) = {j. (i, j) \<in> planned_after (set_estates cx) (set_reads cx)}"
    "set (or_upstreams (set_order cx) i) \<subseteq> {..<root_count cx}"
    "or_err (set_order cx) i = None \<Longrightarrow> orderable (root_count cx) (or_upstreams (set_order cx)) i"
    "or_err (set_order cx) i = None \<longleftrightarrow> \<not> cyclic (planned_after (set_estates cx) (set_reads cx)) i
       \<and> \<not> unclear (set_estates cx) i (set_reads cx ! i)"
    "or_upstreams (set_order cx) i = singles (set_estates cx) i (set_reads cx ! i)"
proof -
  have len: "length (set_estates cx) = root_count cx" "length (set_reads cx) = root_count cx"
    by (simp_all add: set_estates_def set_reads_def)
  obtain st stuck where st: "order (cx_paths cx) (set_estates cx) (set_reads cx) = Some st"
    "\<And>i. i < root_count cx \<Longrightarrow> or_upstreams st i = singles (set_estates cx) i (set_reads cx ! i)"
    "\<And>i. i < root_count cx \<Longrightarrow> set (or_upstreams st i) = {j. (i, j) \<in> planned_after (set_estates cx) (set_reads cx)}"
    "\<And>i. i < root_count cx \<Longrightarrow> (if cyclic (planned_after (set_estates cx) (set_reads cx)) i then or_err st i = Some (InCycle stuck)
       else (or_err st i = None \<longleftrightarrow> \<not> unclear (set_estates cx) i (set_reads cx ! i)) \<and> (\<forall>c. or_err st i \<noteq> Some (InCycle c)))"
    "\<And>i. i < root_count cx \<Longrightarrow> orderable (root_count cx) (or_upstreams st) i \<longleftrightarrow> \<not> cyclic (planned_after (set_estates cx) (set_reads cx)) i"
    "\<And>j. or_upstream st j \<longleftrightarrow> (\<exists>i. (i, j) \<in> planned_after (set_estates cx) (set_reads cx))"
    by (rule order_spec [OF len]) (rule that; assumption)
  then have eq: "set_order cx = st" by (simp add: set_order_def)
  show "set (or_upstreams (set_order cx) i) = {j. (i, j) \<in> planned_after (set_estates cx) (set_reads cx)}"
    unfolding eq by (rule st(3) [OF assms])
  then show "set (or_upstreams (set_order cx) i) \<subseteq> {..<root_count cx}"
    using len by (auto simp: planned_after_def dest: owners_single)
  show "or_upstreams (set_order cx) i = singles (set_estates cx) i (set_reads cx ! i)"
    unfolding eq by (rule st(2) [OF assms])
  show "or_err (set_order cx) i = None \<longleftrightarrow> \<not> cyclic (planned_after (set_estates cx) (set_reads cx)) i
       \<and> \<not> unclear (set_estates cx) i (set_reads cx ! i)"
    using st(4) [OF assms] unfolding eq by (auto split: if_splits)
  then show "orderable (root_count cx) (or_upstreams (set_order cx)) i" if "or_err (set_order cx) i = None"
    using that st(5) [OF assms] unfolding eq by blast
qed

section \<open>The invariant\<close>

definition holding :: "pc \<Rightarrow> bool" where
  "holding p \<longleftrightarrow> (case p of Preparing \<Rightarrow> True | Published _ \<Rightarrow> True | Planning _ \<Rightarrow> True | Ending h \<Rightarrow> h | _ \<Rightarrow> False)"

definition holders :: "set_context \<Rightarrow> (nat \<Rightarrow> pc) \<Rightarrow> nat" where
  "holders cx pc = card {i. i < root_count cx \<and> holding (pc i)}"

definition agrees :: "set_run \<Rightarrow> (nat \<Rightarrow> set_root) \<Rightarrow> bool" where
  "agrees s res \<longleftrightarrow> (\<forall>j. co_done s j \<longrightarrow> res j = co_results s j)"

text \<open>What holds of root \<open>i\<close> at each place of its goroutine.\<close>

definition prepared_as :: "set_context \<Rightarrow> set_run \<Rightarrow> nat \<Rightarrow> set_root \<Rightarrow> gostring option \<Rightarrow> bool" where
  "prepared_as cx s i r err \<longleftrightarrow> co_published s i \<and> prepare_root cx (root_at cx i) = Inr r \<and> snd (reads_of cx i) = err"

definition ordered_as :: "set_context \<Rightarrow> set_run \<Rightarrow> nat \<Rightarrow> set_root \<Rightarrow> bool" where
  "ordered_as cx s i r \<longleftrightarrow> prepared_as cx s i r None \<and> all_published cx s \<and> or_err (set_order cx) i = None"

definition waited_for :: "set_context \<Rightarrow> set_run \<Rightarrow> nat \<Rightarrow> nat list \<Rightarrow> planned_from list \<Rightarrow> bool" where
  "waited_for cx s i js from \<longleftrightarrow> set js \<subseteq> set (or_upstreams (set_order cx) i)
     \<and> (\<forall>res. agrees s res \<longrightarrow> read_upstreams cx res (or_upstreams (set_order cx) i) [] = read_upstreams cx res js from)"

definition planning_on :: "set_context \<Rightarrow> set_run \<Rightarrow> nat \<Rightarrow> planned_from list \<Rightarrow> bool" where
  "planning_on cx s i from \<longleftrightarrow> (\<exists>r from'. ordered_as cx s i r \<and> waited_for cx s i [] from' \<and> from = sort_key pf_root from'
     \<and> go_root s i = planned_on from r)"

definition ended_as :: "set_context \<Rightarrow> set_run \<Rightarrow> nat \<Rightarrow> bool" where
  "ended_as cx s i \<longleftrightarrow> (\<forall>res. agrees s res \<longrightarrow> root_outcome cx res i = go_root s i)"

definition place_inv :: "set_context \<Rightarrow> set_run \<Rightarrow> nat \<Rightarrow> bool" where
  "place_inv cx s i \<longleftrightarrow> (case go_pc s i of
       Start \<Rightarrow> \<not> co_published s i
     | Preparing \<Rightarrow> \<not> co_published s i
     | Published err \<Rightarrow> prepared_as cx s i (go_root s i) err
     | Released err \<Rightarrow> prepared_as cx s i (go_root s i) err
     | Waiting js from \<Rightarrow> ordered_as cx s i (go_root s i) \<and> waited_for cx s i js from
     | Ready from \<Rightarrow> planning_on cx s i from
     | Planning from \<Rightarrow> planning_on cx s i from
     | Ending h \<Rightarrow> (co_published s i \<or> isl (prepare_root cx (root_at cx i))) \<and> ended_as cx s i
     | Finished \<Rightarrow> co_published s i \<and> co_results s i = go_root s i \<and> ended_as cx s i)"

definition root_inv :: "set_context \<Rightarrow> set_run \<Rightarrow> nat \<Rightarrow> bool" where
  "root_inv cx s i \<longleftrightarrow> place_inv cx s i \<and> (co_done s i \<longleftrightarrow> go_pc s i = Finished)
     \<and> (co_published s i \<longrightarrow> co_estates s i = owned_estate cx i \<and> co_reads s i = read_estates cx i)"

definition run_inv :: "set_context \<Rightarrow> set_run \<Rightarrow> bool" where
  "run_inv cx s \<longleftrightarrow> (\<forall>i < root_count cx. root_inv cx s i) \<and> co_sem s = holders cx (go_pc s) \<and> co_sem s \<le> cx_parallel cx"

lemma holders_upd:
  assumes "i < root_count cx"
  shows "holders cx (pc(i := p)) + of_bool (holding (pc i)) = holders cx pc + of_bool (holding p)"
proof -
  define R where "R = {k. k < root_count cx \<and> holding (pc k)} - {i}"
  have R: "finite R" "i \<notin> R" by (auto simp: R_def)
  have "{k. k < root_count cx \<and> holding ((pc(i := p)) k)} = (if holding p then insert i R else R)"
    using assms by (auto simp: R_def)
  moreover have "{k. k < root_count cx \<and> holding (pc k)} = (if holding (pc i) then insert i R else R)"
    using assms by (auto simp: R_def)
  ultimately show ?thesis using R unfolding holders_def by simp
qed

section \<open>What one root's step leaves to the others\<close>

definition leaves :: "nat \<Rightarrow> set_run \<Rightarrow> set_run \<Rightarrow> bool" where
  "leaves i s s' \<longleftrightarrow> (\<forall>k. k \<noteq> i \<longrightarrow> go_pc s' k = go_pc s k \<and> go_root s' k = go_root s k \<and> co_estates s' k = co_estates s k
       \<and> co_reads s' k = co_reads s k \<and> (co_published s' k \<longleftrightarrow> co_published s k))
     \<and> (\<forall>k. co_published s k \<longrightarrow> co_published s' k) \<and> (\<forall>k. k \<noteq> i \<longrightarrow> co_done s' k = co_done s k)
     \<and> (\<forall>k. co_done s k \<longrightarrow> co_done s' k \<and> co_results s' k = co_results s k) \<and> (\<forall>k. k \<noteq> i \<longrightarrow> co_results s' k = co_results s k)"

lemma leaves_published: "leaves i s s' \<Longrightarrow> all_published cx s \<Longrightarrow> all_published cx s'"
  by (auto simp: leaves_def all_published_def list_all_iff)

lemma leaves_agrees: "leaves i s s' \<Longrightarrow> agrees s' res \<Longrightarrow> agrees s res"
  by (auto simp: leaves_def agrees_def)

lemma leaves_inv:
  assumes "leaves i s s'" "k \<noteq> i" "root_inv cx s k"
  shows "root_inv cx s' k"
proof -
  have same: "go_pc s' k = go_pc s k" "go_root s' k = go_root s k" "co_estates s' k = co_estates s k" "co_reads s' k = co_reads s k"
      "co_published s' k = co_published s k" "co_done s' k = co_done s k" "co_results s' k = co_results s k"
    using assms(1,2) by (auto simp: leaves_def)
  have keep: "waited_for cx s k js fs \<Longrightarrow> waited_for cx s' k js fs" for js fs
    using leaves_agrees [OF assms(1)] unfolding waited_for_def by blast
  have ended: "ended_as cx s k \<Longrightarrow> ended_as cx s' k"
    using leaves_agrees [OF assms(1)] unfolding ended_as_def same by blast
  have prepared: "prepared_as cx s' k r err = prepared_as cx s k r err" for r err by (simp add: prepared_as_def same)
  have ordered: "ordered_as cx s k r \<Longrightarrow> ordered_as cx s' k r" for r
    using leaves_published [OF assms(1)] unfolding ordered_as_def prepared by blast
  have planning: "planning_on cx s k fs \<Longrightarrow> planning_on cx s' k fs" for fs
    using ordered keep unfolding planning_on_def same by blast
  show ?thesis
    using assms(3) keep ended ordered planning unfolding root_inv_def place_inv_def same
    by (cases "go_pc s k") (auto simp: prepared)
qed

lemma run_order_eq:
  assumes "run_inv cx s" "all_published cx s"
  shows "run_order cx s = Some (set_order cx)"
proof -
  have "map (co_estates s) [0..<root_count cx] = set_estates cx" "map (co_reads s) [0..<root_count cx] = set_reads cx"
    using assms by (auto simp: run_inv_def root_inv_def all_published_def list_all_iff set_estates_def set_reads_def)
  then show ?thesis using set_order_eq by (simp add: run_order_def)
qed

lemma inv_stepI:
  assumes "run_inv cx s" "i < root_count cx" "leaves i s s'" "root_inv cx s' i"
    and "go_pc s' = (go_pc s)(i := p)" "co_sem s' + of_bool (holding (go_pc s i)) = co_sem s + of_bool (holding p)"
    and "co_sem s' \<le> cx_parallel cx"
  shows "run_inv cx s'"
proof -
  have "root_inv cx s' k" if "k < root_count cx" for k
    using that assms(1,4) leaves_inv [OF assms(3)] by (cases "k = i") (auto simp: run_inv_def)
  moreover have "co_sem s' = holders cx (go_pc s')"
    using assms(1,6) holders_upd [OF assms(2), of "go_pc s" p] by (simp add: assms(5) run_inv_def)
  ultimately show ?thesis using assms(7) by (simp add: run_inv_def)
qed


lemmas run_defs = acquire_def release_def goto_def set_entry_def fail_def publish_def

lemma read_upstreams_snoc_done:
  assumes "agrees s res" "co_done s j" "read_upstream cx (owned_estate cx) (co_results s) j = x"
  shows "read_upstreams cx res (j # js) from = try_bind x (\<lambda>f. read_upstreams cx res js (from @ [f]))"
  using assms by (simp add: read_upstream_def agrees_def Let_def)

lemma read_upstream_published:
  assumes "run_inv cx s" "all_published cx s" "j < root_count cx"
  shows "read_upstream cx (co_estates s) res j = read_upstream cx (owned_estate cx) res j"
proof -
  have "co_estates s j = owned_estate cx j"
    using assms by (auto simp: run_inv_def root_inv_def all_published_def list_all_iff)
  then show ?thesis by (simp add: read_upstream_def Let_def)
qed

lemma planning_on_leaves:
  assumes "leaves i s s'" "planning_on cx s i fs" "go_root s' i = go_root s i"
  shows "planning_on cx s' i fs"
proof -
  obtain r fs' where r: "ordered_as cx s i r" "waited_for cx s i [] fs'" "fs = sort_key pf_root fs'" "go_root s i = planned_on fs r"
    using assms(2) unfolding planning_on_def by blast
  have "ordered_as cx s' i r"
    using r(1) assms(1) leaves_published [OF assms(1)] unfolding ordered_as_def prepared_as_def leaves_def by blast
  moreover have "waited_for cx s' i [] fs'" using r(2) leaves_agrees [OF assms(1)] unfolding waited_for_def by blast
  ultimately show ?thesis using r(3,4) assms(3) unfolding planning_on_def by metis
qed

lemma run_inv_start: "run_inv cx (run_start cx)"
  by (simp add: run_inv_def run_start_def root_inv_def place_inv_def holders_def holding_def)

lemma run_inv_step:
  assumes inv: "run_inv cx s" and "set_step cx s s'"
  shows "run_inv cx s'"
  using assms(2)
proof cases
  case (first_acquire i)
  note root = inv [unfolded run_inv_def, THEN conjunct1, rule_format, OF first_acquire(2)]
  show ?thesis
    by (rule inv_stepI [OF inv first_acquire(2), where p = Preparing])
      (use first_acquire root in \<open>auto simp: run_defs leaves_def root_inv_def place_inv_def holding_def\<close>)
next
  case (prepare_fails i r)
  note root = inv [unfolded run_inv_def, THEN conjunct1, rule_format, OF prepare_fails(2)]
  show ?thesis
    by (rule inv_stepI [OF inv prepare_fails(2), where p = "Ending True"])
      (use prepare_fails root inv in \<open>auto simp: run_defs leaves_def root_inv_def place_inv_def holding_def ended_as_def
         root_outcome_def run_inv_def\<close>)
next
  case (prepares i r rds err)
  note root = inv [unfolded run_inv_def, THEN conjunct1, rule_format, OF prepares(2)]
  show ?thesis
    by (rule inv_stepI [OF inv prepares(2), where p = "Published err"])
      (use prepares root inv in \<open>auto simp: run_defs leaves_def root_inv_def place_inv_def holding_def prepared_as_def
         owned_estate_def read_estates_def run_inv_def\<close>)
next
  case (releases i err)
  note root = inv [unfolded run_inv_def, THEN conjunct1, rule_format, OF releases(2)]
  have "0 < co_sem s"
    using inv releases by (auto simp: run_inv_def holders_def card_gt_0_iff holding_def)
  then show ?thesis
    by (intro inv_stepI [OF inv releases(2), where p = "Released err"])
      (use releases root inv in \<open>auto simp: run_defs leaves_def root_inv_def place_inv_def holding_def prepared_as_def run_inv_def\<close>)
next
  case (reads_fail i err)
  note root = inv [unfolded run_inv_def, THEN conjunct1, rule_format, OF reads_fail(2)]
  show ?thesis
    by (rule inv_stepI [OF inv reads_fail(2), where p = "Ending False"])
      (use reads_fail root inv in \<open>auto simp: run_defs leaves_def root_inv_def place_inv_def holding_def prepared_as_def
         ended_as_def root_outcome_def run_inv_def\<close>)
next
  case (order_fails i ord e)
  note root = inv [unfolded run_inv_def, THEN conjunct1, rule_format, OF order_fails(2)]
  have "ord = set_order cx" using run_order_eq [OF inv order_fails(4)] order_fails(5) by simp
  then show ?thesis
    by (intro inv_stepI [OF inv order_fails(2), where p = "Ending False"])
      (use order_fails root inv in \<open>auto simp: run_defs leaves_def root_inv_def place_inv_def holding_def prepared_as_def
         ended_as_def root_outcome_def run_inv_def\<close>)
next
  case (waits i ord)
  note root = inv [unfolded run_inv_def, THEN conjunct1, rule_format, OF waits(2)]
  have "ord = set_order cx" using run_order_eq [OF inv waits(4)] waits(5) by simp
  then show ?thesis
    by (intro inv_stepI [OF inv waits(2), where p = "Waiting (or_upstreams ord i) []"])
      (use waits root inv in \<open>auto simp: run_defs leaves_def root_inv_def place_inv_def holding_def prepared_as_def
         ordered_as_def waited_for_def run_inv_def all_published_def\<close>)
next
  case (ends_holding i)
  note root = inv [unfolded run_inv_def, THEN conjunct1, rule_format, OF ends_holding(2)]
  have "0 < co_sem s"
    using inv ends_holding by (auto simp: run_inv_def holders_def card_gt_0_iff holding_def)
  then show ?thesis
    by (intro inv_stepI [OF inv ends_holding(2), where p = "Ending False"])
      (use ends_holding root inv in \<open>auto simp: run_defs leaves_def root_inv_def place_inv_def holding_def ended_as_def agrees_def run_inv_def\<close>)
next
  case (finishes i)
  note root = inv [unfolded run_inv_def, THEN conjunct1, rule_format, OF finishes(2)]
  have fr: "leaves i s s'"
    using finishes root by (auto simp: finish_def publish_def goto_def Let_def leaves_def root_inv_def)
  have "ended_as cx s' i"
    using root finishes leaves_agrees [OF fr]
    by (auto simp: finish_def publish_def goto_def Let_def root_inv_def place_inv_def ended_as_def)
  then show ?thesis
    by (intro inv_stepI [OF inv finishes(2) fr, where p = Finished])
      (use finishes root inv in \<open>auto simp: finish_def publish_def goto_def Let_def root_inv_def place_inv_def holding_def
         owned_estate_def read_estates_def run_inv_def split: sum.splits\<close>)
next
  case (upstream_failed i j js fs err)
  note root = inv [unfolded run_inv_def, THEN conjunct1, rule_format, OF upstream_failed(2)]
  have o: "ordered_as cx s i (go_root s i)" and w: "waited_for cx s i (j # js) fs"
    using root upstream_failed by (auto simp: root_inv_def place_inv_def)
  have up: "read_upstream cx (owned_estate cx) (co_results s) j = Inl err"
    using upstream_failed(5) read_upstream_published [OF inv, of j] o w set_order_spec(2) [OF upstream_failed(2)]
    by (auto simp: ordered_as_def waited_for_def)
  have "root_outcome cx res i = fail_root StagePlan err (go_root s i)" if "agrees s res" for res
    using o w that read_upstreams_snoc_done [OF that upstream_failed(4) up]
    by (simp add: root_outcome_def ordered_as_def prepared_as_def waited_for_def)
  then show ?thesis
    by (intro inv_stepI [OF inv upstream_failed(2), where p = "Ending False"])
      (use upstream_failed root inv o in \<open>auto simp: run_defs leaves_def root_inv_def place_inv_def holding_def prepared_as_def
         ordered_as_def ended_as_def agrees_def run_inv_def\<close>)
next
  case (upstream_planned i j js fs f)
  note root = inv [unfolded run_inv_def, THEN conjunct1, rule_format, OF upstream_planned(2)]
  have o: "ordered_as cx s i (go_root s i)" and w: "waited_for cx s i (j # js) fs"
    using root upstream_planned by (auto simp: root_inv_def place_inv_def)
  have up: "read_upstream cx (owned_estate cx) (co_results s) j = Inr f"
    using upstream_planned(5) read_upstream_published [OF inv, of j] o w set_order_spec(2) [OF upstream_planned(2)]
    by (auto simp: ordered_as_def waited_for_def)
  have "waited_for cx s i js (fs @ [f])"
    using w read_upstreams_snoc_done [OF _ upstream_planned(4) up] by (simp add: waited_for_def)
  then have "ordered_as cx s' i (go_root s' i) \<and> waited_for cx s' i js (fs @ [f])"
    using o upstream_planned(1)
    by (simp add: goto_def ordered_as_def prepared_as_def all_published_def waited_for_def agrees_def)
  then show ?thesis
    by (intro inv_stepI [OF inv upstream_planned(2), where p = "Waiting js (fs @ [f])"])
      (use upstream_planned root inv in \<open>auto simp: run_defs leaves_def root_inv_def place_inv_def holding_def run_inv_def\<close>)
next
  case (upstreams_planned i fs)
  note root = inv [unfolded run_inv_def, THEN conjunct1, rule_format, OF upstreams_planned(2)]
  have o: "ordered_as cx s i (go_root s i)" and w: "waited_for cx s i [] fs"
    using root upstreams_planned by (auto simp: root_inv_def place_inv_def)
  have "planning_on cx s' i (sort_key pf_root fs)"
    using o w upstreams_planned(1)
    by (auto simp: planning_on_def run_defs ordered_as_def prepared_as_def all_published_def waited_for_def agrees_def)
  then show ?thesis
    by (intro inv_stepI [OF inv upstreams_planned(2), where p = "Ready (sort_key pf_root fs)"])
      (use upstreams_planned root inv o in \<open>auto simp: run_defs leaves_def root_inv_def place_inv_def holding_def run_inv_def
         ordered_as_def prepared_as_def\<close>)
next
  case (second_acquire i fs)
  note root = inv [unfolded run_inv_def, THEN conjunct1, rule_format, OF second_acquire(2)]
  have fr: "leaves i s s'" using second_acquire(1) by (simp add: run_defs leaves_def)
  have "planning_on cx s' i fs"
    by (rule planning_on_leaves [OF fr]) (use second_acquire root in \<open>auto simp: run_defs root_inv_def place_inv_def\<close>)
  then show ?thesis
    by (intro inv_stepI [OF inv second_acquire(2) fr, where p = "Planning fs"])
      (use second_acquire root inv in \<open>auto simp: run_defs root_inv_def place_inv_def holding_def run_inv_def
         planning_on_def ordered_as_def prepared_as_def\<close>)
next
  case (plans i fs ord)
  note root = inv [unfolded run_inv_def, THEN conjunct1, rule_format, OF plans(2)]
  then obtain r fs' where r: "ordered_as cx s i r" "waited_for cx s i [] fs'" "fs = sort_key pf_root fs'" "go_root s i = planned_on fs r"
    using plans(3) by (auto simp: root_inv_def place_inv_def planning_on_def)
  have "ord = set_order cx" using run_order_eq [OF inv] plans(4) r(1) by (auto simp: ordered_as_def)
  then have "root_outcome cx res i = plan_root cx (root_at cx i) (or_upstream ord i) fs (go_root s i)" if "agrees s res" for res
    using r that by (simp add: root_outcome_def ordered_as_def prepared_as_def waited_for_def)
  then show ?thesis
    by (intro inv_stepI [OF inv plans(2), where p = "Ending True"])
      (use plans root inv r(1) in \<open>auto simp: run_defs leaves_def root_inv_def place_inv_def holding_def prepared_as_def
         ordered_as_def ended_as_def agrees_def run_inv_def\<close>)
qed

lemma run_inv_reachable: "set_runs cx (run_start cx) s \<Longrightarrow> run_inv cx s"
  by (induction rule: rtranclp_induct) (auto intro: run_inv_start run_inv_step)


section \<open>The run comes to an end\<close>

fun pc_rank :: "pc \<Rightarrow> nat" where
  "pc_rank Start = 10"
| "pc_rank Preparing = 9"
| "pc_rank (Published _) = 8"
| "pc_rank (Released _) = 7"
| "pc_rank (Waiting _ _) = 6"
| "pc_rank (Ready _) = 5"
| "pc_rank (Planning _) = 4"
| "pc_rank (Ending h) = (if h then 3 else 2)"
| "pc_rank Finished = 1"

fun pc_waits :: "pc \<Rightarrow> nat" where
  "pc_waits (Waiting js _) = length js"
| "pc_waits _ = 0"

definition run_rank :: "set_context \<Rightarrow> set_run \<Rightarrow> nat \<times> nat" where
  "run_rank cx s = (\<Sum>i < root_count cx. pc_rank (go_pc s i), \<Sum>i < root_count cx. pc_waits (go_pc s i))"

lemma sum_upd: "(i :: nat) < n \<Longrightarrow> (\<Sum>k < n. f ((pc(i := p)) k)) + f (pc i) = (\<Sum>k < n. f (pc k)) + (f p :: nat)"
proof -
  assume "i < n"
  then have *: "(\<Sum>k < n. g k) = g i + (\<Sum>k \<in> {..<n} - {i}. g k)" for g :: "nat \<Rightarrow> nat"
    by (simp add: sum.remove)
  have "(\<Sum>k \<in> {..<n} - {i}. f ((pc(i := p)) k)) = (\<Sum>k \<in> {..<n} - {i}. f (pc k))" by (rule sum.cong) auto
  then show ?thesis using * [of "\<lambda>k. f ((pc(i := p)) k)"] * [of "\<lambda>k. f (pc k)"] by simp
qed

text \<open>Every step moves one goroutine on.\<close>

lemma step_moves:
  assumes "set_step cx s s'"
  obtains i p where "i < root_count cx" "go_pc s' = (go_pc s)(i := p)"
    "pc_rank p < pc_rank (go_pc s i) \<or> pc_rank p = pc_rank (go_pc s i) \<and> pc_waits p < pc_waits (go_pc s i)"
  using assms by cases (rule that, assumption, simp add: run_defs finish_def Let_def; simp)+

lemma run_rank_step: "set_step cx s s' \<Longrightarrow> (run_rank cx s', run_rank cx s) \<in> less_than <*lex*> less_than"
proof -
  assume "set_step cx s s'"
  then obtain i p where i: "i < root_count cx" "go_pc s' = (go_pc s)(i := p)"
    "pc_rank p < pc_rank (go_pc s i) \<or> pc_rank p = pc_rank (go_pc s i) \<and> pc_waits p < pc_waits (go_pc s i)"
    by (rule step_moves)
  then show ?thesis
    using sum_upd [OF i(1), of pc_rank "go_pc s" p] sum_upd [OF i(1), of pc_waits "go_pc s" p]
    by (auto simp: run_rank_def)
qed

lemma set_plan_steps_wf: "wf {(s', s). set_step cx s s'}"
  by (rule wf_subset [OF wf_inv_image [OF wf_lex_prod [OF wf_less_than wf_less_than], of "run_rank cx"]])
    (use run_rank_step in \<open>auto simp: inv_image_def\<close>)

section \<open>The run is never stuck\<close>

lemma holder_steps:
  assumes "run_inv cx s" "i < root_count cx" "holding (go_pc s i)"
  shows "\<exists>s'. set_step cx s s'"
proof (cases "go_pc s i")
  case Preparing
  then show ?thesis using prepare_fails [OF assms(2)] prepares [OF assms(2)]
    by (cases "prepare_root cx (root_at cx i)"; cases "reads_of cx i") blast+
next
  case (Planning fs)
  then have "all_published cx s"
    using assms(1,2) by (auto simp: run_inv_def root_inv_def place_inv_def planning_on_def ordered_as_def)
  then show ?thesis using Planning plans [OF assms(2)] run_order_eq [OF assms(1)] by blast
next
  case (Published e)
  then show ?thesis using releases [OF assms(2)] by blast
next
  case (Ending h)
  then show ?thesis using ends_holding [OF assms(2)] assms(3) by (auto simp: holding_def)
qed (use assms(3) in \<open>simp_all add: holding_def\<close>)

lemma not_stuck:
  assumes inv: "run_inv cx s" and "0 < cx_parallel cx" and stuck: "\<nexists>s'. set_step cx s s'"
  shows "run_over cx s"
proof -
  have noholder: "\<not> holding (go_pc s i)" if "i < root_count cx" for i using holder_steps [OF inv that] stuck by blast
  then have "co_sem s = 0" using inv by (simp add: run_inv_def holders_def)
  then have free: "go_pc s i \<noteq> Start" "go_pc s i \<noteq> Ready fs" if "i < root_count cx" for i fs
    using first_acquire [OF that] second_acquire [OF that] stuck assms(2) by metis+
  have ended: "go_pc s i \<noteq> Ending h" if "i < root_count cx" for i h
    using finishes [OF that] ends_holding [OF that] stuck by (cases h) metis+
  have root: "root_inv cx s i" if "i < root_count cx" for i using inv that by (simp add: run_inv_def)
  have pub: "co_published s i" if "i < root_count cx" for i
    using noholder [OF that] free [OF that] ended [OF that] root [OF that]
    by (cases "go_pc s i") (auto simp: holding_def root_inv_def place_inv_def prepared_as_def ordered_as_def)
  then have all: "all_published cx s" by (simp add: all_published_def list_all_iff)
  have here: "\<exists>js fs. go_pc s i = Waiting js fs" if "i < root_count cx" "go_pc s i \<noteq> Finished" for i
  proof (cases "go_pc s i")
    case (Released e)
    then show ?thesis
      using reads_fail [OF that(1)] order_fails [OF that(1) _ all run_order_eq [OF inv all]]
        waits [OF that(1) _ all run_order_eq [OF inv all]] stuck by (cases e; cases "or_err (set_order cx) i") metis+
  qed (use that noholder [OF that(1)] free [OF that(1)] ended [OF that(1)] in \<open>auto simp: holding_def\<close>)
  have fin: "go_pc s i = Finished" if "orderable (root_count cx) (or_upstreams (set_order cx)) i" for i
    using that
  proof (induction rule: orderable.induct)
    case (orderable i)
    show ?case
    proof (rule ccontr)
      assume "go_pc s i \<noteq> Finished"
      then obtain js fs where w: "go_pc s i = Waiting js fs" using here [OF orderable.hyps(1)] by blast
      show False
      proof (cases js)
        case Nil
        then show False using w upstreams_planned [OF orderable.hyps(1)] stuck by metis
      next
        case (Cons j js')
        then have j: "j \<in> set (or_upstreams (set_order cx) i)"
          using w root [OF orderable.hyps(1)] by (auto simp: root_inv_def place_inv_def waited_for_def)
        then have "go_pc s j = Finished" "j < root_count cx"
          using orderable.IH set_order_spec(2) [OF orderable.hyps(1)] by auto
        then have "co_done s j" using root by (simp add: root_inv_def)
        then show False
          using upstream_failed [OF orderable.hyps(1)] upstream_planned [OF orderable.hyps(1)] w Cons stuck
          by (cases "read_upstream cx (co_estates s) (co_results s) j") metis+
      qed
    qed
  qed
  have "go_pc s i = Finished" if i: "i < root_count cx" for i
  proof (rule ccontr)
    assume "go_pc s i \<noteq> Finished"
    then obtain js fs where "go_pc s i = Waiting js fs" using here [OF i] by blast
    then have "or_err (set_order cx) i = None" using root [OF i] by (auto simp: root_inv_def place_inv_def ordered_as_def)
    then show False using set_order_spec(3) [OF i] fin \<open>go_pc s i \<noteq> Finished\<close> by blast
  qed
  then show ?thesis by (simp add: run_over_def list_all_iff)
qed

lemma run_context_parallel: "run_context wd quote rn opts = Inr cx \<Longrightarrow> 0 < cx_parallel cx \<and> int (cx_parallel cx) = po_parallel opts"
  by (auto simp: run_context_def try_bind_Inr_iff split: if_splits)

text \<open>C13. A set plan never deadlocks: while a root's goroutine has not returned, some goroutine can
  go on, whatever the reads, the failures and the bound, which is at least 1.\<close>

theorem set_plan_never_stuck:
  assumes "run_context wd quote rn opts = Inr cx" "set_runs cx (run_start cx) s" "\<not> run_over cx s"
  shows "\<exists>s'. set_step cx s s'"
  using not_stuck [OF run_inv_reachable [OF assms(2)]] run_context_parallel [OF assms(1)] assms(3) by metis

section \<open>The bound\<close>

text \<open>C22. At any time the goroutines holding a slot are those between an acquire and its release, the
  semaphore counts them, and they are never more than \<open>-parallel-estates\<close>.\<close>

theorem parallel_bound_kept:
  assumes "run_context wd quote rn opts = Inr cx" "set_runs cx (run_start cx) s"
  shows "co_sem s = card {i. i < root_count cx \<and> holding (go_pc s i)}
    \<and> int (card {i. i < root_count cx \<and> holding (go_pc s i)}) \<le> po_parallel opts"
  using run_inv_reachable [OF assms(2)] run_context_parallel [OF assms(1)] by (simp add: run_inv_def holders_def)

section \<open>Readers plan after what they read\<close>

lemma read_upstreams_Inr:
  "read_upstreams cx res js from = Inr fs \<Longrightarrow> (\<forall>j \<in> set js. sr_status (res j) = StatusPlanned)
     \<and> map pf_root fs = map pf_root from @ map (\<lambda>j. pa_rel (root_at cx j)) js"
proof (induction js arbitrary: "from")
  case (Cons j js)
  then obtain f where f: "read_upstream cx (owned_estate cx) res j = Inr f" "read_upstreams cx res js (from @ [f]) = Inr fs"
    by (auto simp: try_bind_Inr_iff)
  then have "sr_status (res j) = StatusPlanned" "pf_root f = pa_rel (root_at cx j)"
    by (auto simp: read_upstream_def Let_def split: if_splits)
  then show ?case using Cons.IH [OF f(2)] by simp
qed simp

lemma read_upstreams_cong:
  "\<forall>j \<in> set js. res j = res' j \<Longrightarrow> read_upstreams cx res js from = read_upstreams cx res' js from"
  by (induction js arbitrary: "from") (auto simp: read_upstream_def Let_def)

text \<open>Upstreams whose result all depends on are done: a result that is not there yet could be anything.\<close>

lemma upstreams_done:
  assumes "\<And>res. agrees s res \<Longrightarrow> \<exists>fs. read_upstreams cx res js [] = Inr fs" "j \<in> set js"
  shows "co_done s j \<and> sr_status (co_results s j) = StatusPlanned"
proof -
  define res where "res = (\<lambda>k. if co_done s k then co_results s k else root_zero)"
  have "agrees s res" by (simp add: agrees_def res_def)
  then have "sr_status (res j) = StatusPlanned" using assms read_upstreams_Inr by blast
  moreover have "sr_status root_zero \<noteq> StatusPlanned" by (simp add: root_zero_def StatusPlanned_def)
  ultimately show ?thesis by (auto simp: res_def split: if_splits)
qed

lemma prepared_failed: "prepare_root cx p = Inl r \<Longrightarrow> sr_status r = StatusFailed" "prepare_root cx p = Inr r \<Longrightarrow> sr_status r = StatusFailed"
  by (auto simp: prepare_root_def Let_def root_start_def fail_root_def split: option.splits sum.splits prod.splits if_splits)

lemma failed_not_planned: "StatusFailed \<noteq> StatusPlanned" by (simp add: StatusFailed_def StatusPlanned_def)

lemma fail_root_status [simp]: "sr_status (fail_root st err r) = sr_status r" by (simp add: fail_root_def)

text \<open>A root's outcome is a plan only where nothing it depends on failed.\<close>

lemma outcome_planned:
  assumes "sr_status (root_outcome cx res i) = StatusPlanned"
  obtains r fs where "prepare_root cx (root_at cx i) = Inr r" "snd (reads_of cx i) = None" "or_err (set_order cx) i = None"
    "read_upstreams cx res (or_upstreams (set_order cx) i) [] = Inr fs"
  using assms prepared_failed [of cx "root_at cx i"] failed_not_planned
  by (auto simp: root_outcome_def split: sum.splits option.splits)

text \<open>C10. A root plans only after every root of the set it reads has planned, and never when its reads
  lead into a cycle: while it plans, and once it is reported as planned, each of them is done and its
  result is a plan.\<close>

theorem readers_plan_after_upstreams:
  assumes "set_runs cx (run_start cx) s" "i < root_count cx"
    and "go_pc s i = Planning from \<or> go_pc s i = Finished \<and> sr_status (co_results s i) = StatusPlanned"
  shows "\<not> cyclic (planned_after (set_estates cx) (set_reads cx)) i
    \<and> (\<forall>j. (i, j) \<in> planned_after (set_estates cx) (set_reads cx) \<longrightarrow> co_done s j \<and> sr_status (co_results s j) = StatusPlanned)"
proof -
  have root: "root_inv cx s i" using run_inv_reachable [OF assms(1)] assms(2) by (simp add: run_inv_def)
  have *: "or_err (set_order cx) i = None
    \<and> (\<forall>res. agrees s res \<longrightarrow> (\<exists>fs. read_upstreams cx res (or_upstreams (set_order cx) i) [] = Inr fs))"
    using assms(3)
  proof
    assume "go_pc s i = Planning from"
    then show ?thesis using root by (auto simp: root_inv_def place_inv_def planning_on_def ordered_as_def waited_for_def)
  next
    assume fin: "go_pc s i = Finished \<and> sr_status (co_results s i) = StatusPlanned"
    then have out: "root_outcome cx res i = co_results s i" if "agrees s res" for res
      using root that by (auto simp: root_inv_def place_inv_def ended_as_def)
    have "agrees s (co_results s)" by (simp add: agrees_def)
    then have "or_err (set_order cx) i = None" using out fin by (metis outcome_planned)
    then show ?thesis using out fin by (metis outcome_planned)
  qed
  then have "\<forall>j \<in> set (or_upstreams (set_order cx) i). co_done s j \<and> sr_status (co_results s j) = StatusPlanned"
    using upstreams_done [of s cx "or_upstreams (set_order cx) i"] by blast
  then show ?thesis using set_order_spec(4) [OF assms(2)] * unfolding set_order_spec(1) [OF assms(2)] by simp
qed

section \<open>The result does not depend on the schedule\<close>

lemma run_over_outcome:
  assumes "set_runs cx (run_start cx) s" "run_over cx s" "i < root_count cx"
  shows "co_results s i = root_outcome cx (co_results s) i"
proof -
  have "root_inv cx s i" "go_pc s i = Finished"
    using run_inv_reachable [OF assms(1)] assms(2,3) by (auto simp: run_inv_def run_over_def list_all_iff)
  moreover have "agrees s (co_results s)" by (simp add: agrees_def)
  ultimately show ?thesis by (simp add: root_inv_def place_inv_def ended_as_def)
qed

lemma root_outcome_cong:
  assumes "or_err (set_order cx) i = None \<Longrightarrow> \<forall>j \<in> set (or_upstreams (set_order cx) i). res j = res' j"
  shows "root_outcome cx res i = root_outcome cx res' i"
proof (cases "or_err (set_order cx) i")
  case None
  show ?thesis unfolding root_outcome_def read_upstreams_cong [OF assms [OF None]] by (rule refl)
next
  case (Some e)
  show ?thesis unfolding root_outcome_def Some option.case by (rule refl)
qed

text \<open>C11. The goroutines implement the sequential reading of a set plan: when a run is over, each root's
  entry is its outcome given the entries of its upstreams, and every other run over the same answers of
  the runner, however it interleaves, ends with the same document roots.\<close>

theorem set_plan_schedule_free:
  assumes "set_runs cx (run_start cx) s" "run_over cx s" "set_runs cx (run_start cx) t" "run_over cx t"
  shows "run_roots cx s = run_roots cx t
    \<and> run_roots cx s = map (root_outcome cx ((!) (run_roots cx s))) [0..<root_count cx]"
proof -
  have upto: "set (or_upstreams (set_order cx) i) \<subseteq> {..<root_count cx}" if "i < root_count cx" for i
    using set_order_spec(2) [OF that] .
  have same: "co_results s i = co_results t i" if "orderable (root_count cx) (or_upstreams (set_order cx)) i" for i
    using that
  proof (induction rule: orderable.induct)
    case (orderable i)
    then have "root_outcome cx (co_results s) i = root_outcome cx (co_results t) i" by (intro root_outcome_cong) blast
    then show ?case
      using run_over_outcome [OF assms(1,2) orderable.hyps(1)] run_over_outcome [OF assms(3,4) orderable.hyps(1)] by simp
  qed
  have "co_results s i = co_results t i" if i: "i < root_count cx" for i
  proof (cases "or_err (set_order cx) i")
    case None
    then show ?thesis using same set_order_spec(3) [OF i] by blast
  next
    case (Some e)
    then have "root_outcome cx (co_results s) i = root_outcome cx (co_results t) i" by (intro root_outcome_cong) simp
    then show ?thesis using run_over_outcome [OF assms(1,2) i] run_over_outcome [OF assms(3,4) i] by simp
  qed
  then have "run_roots cx s = run_roots cx t" by (simp add: run_roots_def)
  moreover have "run_roots cx s ! i = root_outcome cx ((!) (run_roots cx s)) i" if i: "i < root_count cx" for i
  proof -
    have "root_outcome cx (co_results s) i = root_outcome cx ((!) (run_roots cx s)) i"
      using upto [OF i] by (intro root_outcome_cong ballI) (auto simp: run_roots_def)
    then show ?thesis using run_over_outcome [OF assms(1,2) i] i by (simp add: run_roots_def)
  qed
  then have "run_roots cx s = map (root_outcome cx ((!) (run_roots cx s))) [0..<root_count cx]"
    by (intro nth_equalityI) (simp_all add: run_roots_def)
  ultimately show ?thesis ..
qed


text \<open>Every run can be carried to its end.\<close>

lemma run_completes:
  assumes "run_context wd quote rn opts = Inr cx" "set_runs cx (run_start cx) s"
  shows "\<exists>s'. set_runs cx s s' \<and> run_over cx s'"
  using assms(2)
proof (induction s rule: wf_induct_rule [OF set_plan_steps_wf [of cx]])
  case (1 s)
  have inv: "run_inv cx s" using run_inv_reachable [OF 1(2)] .
  show ?case
  proof (cases "run_over cx s")
    case False
    then obtain s1 where s1: "set_step cx s s1"
      using not_stuck [OF inv] run_context_parallel [OF assms(1)] by metis
    then have "set_runs cx (run_start cx) s1" using 1(2) by (rule rtranclp.rtrancl_into_rtrancl [rotated])
    then obtain s' where "set_runs cx s1 s'" "run_over cx s'" using 1(1) s1 by blast
    then show ?thesis using s1 by (meson converse_rtranclp_into_rtranclp)
  qed blast
qed

lemma over_frees_slots:
  assumes "run_inv cx s" "run_over cx s"
  shows "co_sem s = 0"
proof -
  have "{i. i < root_count cx \<and> holding (go_pc s i)} = {}"
    using assms(2) by (auto simp: run_over_def list_all_iff holding_def)
  then show ?thesis using assms(1) by (simp add: run_inv_def holders_def)
qed

lemma no_infinite_run: "\<not> (f 0 = s \<and> (\<forall>k. set_step cx (f k) (f (Suc k))))"
  using wf_no_infinite_down_chainE [OF set_plan_steps_wf [of cx], of f] by blast

text \<open>C23. However its goroutines interleave, a set plan comes to its end: no run goes on forever, every run
  can be carried to where all goroutines have returned, and where none can go on they have, each root's
  reads published, its done channel closed and its result, the outcome of its stages, recorded, and
  every slot given back.\<close>

theorem set_plan_completes:
  assumes "run_context wd quote rn opts = Inr cx" "set_runs cx (run_start cx) s"
  shows "(\<nexists>f. f 0 = s \<and> (\<forall>k. set_step cx (f k) (f (Suc k)))) \<and> (\<exists>s'. set_runs cx s s' \<and> run_over cx s')
    \<and> ((\<nexists>s'. set_step cx s s') \<longrightarrow> co_sem s = 0 \<and> (\<forall>i < root_count cx. go_pc s i = Finished \<and> co_published s i \<and> co_done s i
        \<and> co_results s i = root_outcome cx (co_results s) i))"
proof (intro conjI impI)
  assume stuck: "\<nexists>s'. set_step cx s s'"
  have inv: "run_inv cx s" using run_inv_reachable [OF assms(2)] .
  have over: "run_over cx s" using not_stuck [OF inv] run_context_parallel [OF assms(1)] stuck by metis
  then show "co_sem s = 0" by (rule over_frees_slots [OF inv])
  show "\<forall>i < root_count cx. go_pc s i = Finished \<and> co_published s i \<and> co_done s i \<and> co_results s i = root_outcome cx (co_results s) i"
  proof (intro allI impI)
    fix i
    assume i: "i < root_count cx"
    then have "go_pc s i = Finished" using over by (simp add: run_over_def list_all_iff)
    then show "go_pc s i = Finished \<and> co_published s i \<and> co_done s i \<and> co_results s i = root_outcome cx (co_results s) i"
      using inv i run_over_outcome [OF assms(2) over i] by (auto simp: run_inv_def root_inv_def place_inv_def)
  qed
qed (use no_infinite_run run_completes [OF assms] in blast)+

text \<open>A set of three roots, each reading the one before it.\<close>

definition chain_runner :: set_runner where
  "chain_runner = \<lparr>rn_mkdir = (\<lambda>_. None), rn_create = (\<lambda>_. None), rn_stat = (\<lambda>_. Inr True),
     rn_estate = (\<lambda>dir. Inr (dir, True)), rn_init = (\<lambda>_. None),
     rn_reads = (\<lambda>dir. (if dir = S ''/w'' then [S ''/w/app/web''] else if dir = S ''/w/app/web'' then [S ''/w/net'', S ''ops''] else [], None)),
     rn_remove = (\<lambda>_. None), rn_plan = (\<lambda>_ _ _. Inr True), rn_show = (\<lambda>_ _. Inr (JBool True)), rn_write = (\<lambda>_ _. None)\<rparr>"

definition chain_context :: set_context where
  "chain_context = \<lparr>cx_base = S ''/w'', cx_paths =
     [\<lparr>pa_rel = S ''net'', pa_abs = S ''/w/net'', pa_plan = S ''/w/plans/net.tfplan'', pa_log = S ''/w/plans/net.log''\<rparr>,
      \<lparr>pa_rel = S ''app/web'', pa_abs = S ''/w/app/web'', pa_plan = S ''/w/plans/app/web.tfplan'', pa_log = S ''/w/plans/app/web.log''\<rparr>,
      \<lparr>pa_rel = S ''.'', pa_abs = S ''/w'', pa_plan = S ''/w/plans/_root.tfplan'', pa_log = S ''/w/plans/_root.log''\<rparr>],
     cx_parallel = 2, cx_runner = chain_runner, cx_quote = (\<lambda>s. s)\<rparr>"

lemma chain_context_run: "run_context (S ''/w'') (\<lambda>s. s) chain_runner set_roots_given = Inr chain_context"
proof -
  have "Abs (S ''/w'') (S ''.'') = S ''/w''"
    by (simp add: Abs_def Join_def Clean_def clean_elems_def clean_step_def from_elems_def IsAbs_def r_slash_def dot_def dotdot_def)
  then show ?thesis
    unfolding run_context_def set_roots_resolved chain_context_def by (simp add: set_roots_given_def del: S_simps)
qed

lemma chain_prepared: "i < 3 \<Longrightarrow> prepare_root chain_context (root_at chain_context i)
    = Inr ((root_start (S ''/w'') (root_at chain_context i))\<lparr>sr_estate := pa_abs (root_at chain_context i)\<rparr>)"
  by (simp add: prepare_root_def chain_runner_def chain_context_def del: S_simps)

lemma chain_estates: "set_estates chain_context = [S ''/w/net'', S ''/w/app/web'', S ''/w'']"
  "set_reads chain_context = [[], [S ''/w/net'', S ''ops''], [S ''/w/app/web'']]"
proof -
  have n: "root_count chain_context = 3" by (simp add: chain_context_def)
  have "[0..<3] = [0, 1, 2::nat]" by (simp add: upt_rec)
  then show "set_estates chain_context = [S ''/w/net'', S ''/w/app/web'', S ''/w'']"
    "set_reads chain_context = [[], [S ''/w/net'', S ''ops''], [S ''/w/app/web'']]"
    using chain_prepared [of 0] chain_prepared [of 1] chain_prepared [of 2]
    by (simp_all add: set_estates_def set_reads_def n owned_estate_def read_estates_def) (simp_all add: chain_context_def chain_runner_def)
qed

lemma chain_order: "i < 3 \<Longrightarrow> or_err (set_order chain_context) i = None"
  "or_upstreams (set_order chain_context) 0 = []" "or_upstreams (set_order chain_context) 1 = [0]" "or_upstreams (set_order chain_context) 2 = [1]"
proof -
  define es where "es = [S ''/w/net'', S ''/w/app/web'', S ''/w'']"
  define rds where "rds = [[], [S ''/w/net'', S ''ops''], [S ''/w/app/web'']]"
  have own: "owners_of es (S ''/w/net'') = [0]" "owners_of es (S ''/w/app/web'') = [1]" "owners_of es (S ''ops'') = []"
    by (simp_all add: es_def owners_of_def upt_rec)
  have reads: "rds ! 0 = []" "rds ! 1 = [S ''/w/net'', S ''ops'']" "rds ! 2 = [S ''/w/app/web'']" "es ! 1 = S ''/w/app/web''" "es ! 2 = S ''/w''"
    and len: "length rds = 3" "length es = 3" and ne: "S ''/w/net'' \<noteq> S ''/w/app/web''" "S ''/w/app/web'' \<noteq> S ''/w''"
    and ne': "S ''ops'' \<noteq> S ''/w/app/web''"
    by (simp_all add: rds_def es_def)
  have n: "root_count chain_context = 3" by (simp add: chain_context_def)
  have eq: "set_estates chain_context = es" "set_reads chain_context = rds" by (simp_all only: chain_estates es_def rds_def)
  have single: "singles es 0 (rds ! 0) = []" "singles es 1 (rds ! 1) = [0]" "singles es 2 (rds ! 2) = [1]"
    by (simp_all add: singles_def reads own ne ne' One_nat_def [symmetric] del: S_simps One_nat_def)
  show "or_upstreams (set_order chain_context) 0 = []" "or_upstreams (set_order chain_context) 1 = [0]"
    "or_upstreams (set_order chain_context) 2 = [1]"
    using single set_order_spec(5) [of _ chain_context] by (simp_all only: n eq)
  have R: "(i, j) \<in> planned_after es rds \<Longrightarrow> j < i" for i j
  proof -
    assume "(i, j) \<in> planned_after es rds"
    then obtain e where e: "i < 3" "e \<in> set (rds ! i)" "owners_of es e = [j]" by (auto simp: planned_after_def len)
    then consider "i = 0" | "i = 1" | "i = 2" by linarith
    then show "j < i" using e(2,3) by cases (auto simp: reads own simp del: S_simps One_nat_def)
  qed
  have "(k, l) \<in> (planned_after es rds)\<^sup>+ \<Longrightarrow> l < k" for k l
    by (induction rule: trancl_induct) (auto dest: R)
  then have "\<not> cyclic (planned_after es rds) i" for i by (auto simp: cyclic_def)
  moreover have "\<not> unclear es i (rds ! i)" if i: "i < 3" for i
  proof -
    consider "i = 0" | "i = 1" | "i = 2" using i by linarith
    then show ?thesis by cases (simp_all add: unclear_def reads own del: S_simps One_nat_def)
  qed
  ultimately show "or_err (set_order chain_context) i = None" if "i < 3"
    using set_order_spec(4) [of i chain_context] that by (simp add: n eq)
qed

lemma chain_planned:
  assumes "i < 3" "\<forall>j \<in> set (or_upstreams (set_order chain_context) i). sr_status (res j) = StatusPlanned"
  shows "sr_status (root_outcome chain_context res i) = StatusPlanned"
proof -
  have "\<exists>fs. read_upstreams chain_context res js from = Inr fs" if "\<forall>j \<in> set js. sr_status (res j) = StatusPlanned" for js "from"
    using that by (induction js arbitrary: "from") (simp_all add: read_upstream_def Let_def)
  then obtain fs where "read_upstreams chain_context res (or_upstreams (set_order chain_context) i) [] = Inr fs" using assms(2) by blast
  moreover have "snd (reads_of chain_context i) = None" "sr_status (plan_root chain_context p up from r) = StatusPlanned" for p up "from" r
    by (simp_all add: chain_context_def chain_runner_def plan_root_def)
  ultimately show ?thesis using chain_prepared [OF assms(1)] chain_order(1) [OF assms(1)] by (simp add: root_outcome_def)
qed

lemma chain_run: "\<exists>s. set_runs chain_context (run_start chain_context) s \<and> run_over chain_context s
    \<and> (\<forall>i < 3. go_pc s i = Finished \<and> sr_status (co_results s i) = StatusPlanned)"
proof -
  obtain s where s: "set_runs chain_context (run_start chain_context) s" "run_over chain_context s"
    using run_completes [OF chain_context_run] by blast
  have n: "root_count chain_context = 3" by (simp add: chain_context_def)
  have out: "co_results s i = root_outcome chain_context (co_results s) i" if "i < 3" for i
    using run_over_outcome [OF s] that by (simp add: n)
  have planned0: "sr_status (co_results s 0) = StatusPlanned"
    by (subst out) (simp_all add: chain_planned chain_order)
  then have planned1: "sr_status (co_results s 1) = StatusPlanned"
    by (subst out) (simp_all add: chain_planned chain_order del: One_nat_def)
  then have "sr_status (co_results s 2) = StatusPlanned"
    by (subst out) (simp_all add: chain_planned chain_order)
  then have "\<forall>i < 3. sr_status (co_results s i) = StatusPlanned"
    using planned0 planned1 by (auto simp: numeral_3_eq_3 less_Suc_eq numeral_2_eq_2)
  moreover have "\<forall>i < 3. go_pc s i = Finished"
    using s(2) by (simp add: run_over_def list_all_iff n)
  ultimately show ?thesis using s by blast
qed

lemma set_plan_never_stuck_witness: "\<exists>s'. set_step chain_context (run_start chain_context) s'"
  by (rule set_plan_never_stuck [OF chain_context_run rtranclp.rtrancl_refl])
    (simp add: run_over_def run_start_def chain_context_def upt_rec)

lemma set_plan_completes_witness:
  "(\<nexists>f. f 0 = run_start chain_context \<and> (\<forall>k. set_step chain_context (f k) (f (Suc k))))
     \<and> (\<exists>s. set_runs chain_context (run_start chain_context) s \<and> run_over chain_context s)"
  using set_plan_completes [OF chain_context_run rtranclp.rtrancl_refl] by blast

lemma parallel_bound_kept_witness:
  "\<exists>s. set_runs chain_context (run_start chain_context) s \<and> co_sem s = 1
     \<and> card {i. i < root_count chain_context \<and> holding (go_pc s i)} = 1"
proof -
  let ?s = "goto 0 Preparing (acquire (run_start chain_context))"
  have "set_step chain_context (run_start chain_context) ?s"
    by (rule first_acquire) (simp_all add: chain_context_def run_start_def)
  then have runs: "set_runs chain_context (run_start chain_context) ?s" by (rule r_into_rtranclp)
  moreover have "co_sem ?s = 1" by (simp add: goto_def acquire_def run_start_def)
  ultimately show ?thesis using parallel_bound_kept [OF chain_context_run runs] by auto
qed

lemma readers_plan_after_upstreams_witness:
  "\<exists>s. set_runs chain_context (run_start chain_context) s \<and> sr_status (co_results s 2) = StatusPlanned
     \<and> co_done s 1 \<and> sr_status (co_results s 1) = StatusPlanned"
proof -
  obtain s where s: "set_runs chain_context (run_start chain_context) s"
      "\<forall>i < 3. go_pc s i = Finished \<and> sr_status (co_results s i) = StatusPlanned" using chain_run by blast
  have n: "2 < root_count chain_context" by (simp add: chain_context_def)
  have "(2, 1) \<in> planned_after (set_estates chain_context) (set_reads chain_context)"
    using set_order_spec(1) [OF n] chain_order(4) by auto
  then show ?thesis using readers_plan_after_upstreams [OF s(1) n] s by auto
qed

lemma set_plan_schedule_free_witness:
  "\<exists>s. set_runs chain_context (run_start chain_context) s
     \<and> run_roots chain_context s = map (root_outcome chain_context ((!) (run_roots chain_context s))) [0..<root_count chain_context]"
proof -
  obtain s where s: "set_runs chain_context (run_start chain_context) s" "run_over chain_context s" using chain_run by blast
  then show ?thesis using set_plan_schedule_free [OF s s] by blast
qed

end
