(* ===== verification/Rollout.thy ===== *)
theory Rollout
  imports WaveBuild SetPlanRunFacts
begin

text \<open>
  From the wave document to the apply that reads it: the wave an apply finds a root in is the wave
  \<open>Split\<close> gave it, and the edges it orders by are all the reads the roots declare.
\<close>

section \<open>The waves of a document\<close>

lemma wave_of_iff:
  assumes "distinct (concat (map wv_roots wvs))"
  shows "wave_of wvs n = Some k \<longleftrightarrow> (\<exists>wv \<in> set wvs. n \<in> set (wv_roots wv) \<and> wv_number wv = k)"
proof -
  let ?L = "concat (map (\<lambda>w. map (\<lambda>r. (r, wv_number w)) (wv_roots w)) wvs)"
  have "map fst ?L = concat (map wv_roots wvs)" by (induction wvs) (simp_all add: comp_def)
  then have "distinct (map fst (rev ?L))" using assms by (simp add: rev_map [symmetric])
  then show ?thesis unfolding wave_of_def by (auto simp: map_of_eq_Some_iff)
qed

lemma wave_of_same:
  assumes "map wv_roots wvs = map wv_roots wvs'" "map wv_number wvs = map wv_number wvs'"
  shows "wave_of wvs = wave_of wvs'"
proof -
  have *: "concat (map (\<lambda>w. map (\<lambda>r. (r, wv_number w)) (wv_roots w)) ws)
      = concat (map (\<lambda>(rs, k). map (\<lambda>r. (r, k)) rs) (zip (map wv_roots ws) (map wv_number ws)))" for ws
    by (induction ws) simp_all
  show ?thesis by (simp only: wave_of_def * assms)
qed

lemma edge_producers_iff: "p \<in> set (edge_producers es r) \<longleftrightarrow> (\<exists>e \<in> set es. ed_reader e = r \<and> ed_producer e = p)"
  by (force simp: edge_producers_def)

lemma estate_owner_mset:
  assumes "valid_roots roots" "mset roots' = mset roots"
  shows "estate_owner roots' = estate_owner roots"
proof -
  have "set roots' = set roots" "distinct (map wr_estate roots')"
    using assms by (auto simp: valid_roots_def dest: mset_eq_setD) (metis mset_eq_imp_distinct_iff mset_map)
  then show ?thesis
    using assms(1) map_of_inject_set [of "map (\<lambda>r. (wr_estate r, wr_root r)) roots'" "map (\<lambda>r. (wr_estate r, wr_root r)) roots"]
    by (simp add: estate_owner_def valid_roots_def comp_def)
qed

lemma reads_mset: "valid_roots roots \<Longrightarrow> mset roots' = mset roots \<Longrightarrow> reads roots' n p \<longleftrightarrow> reads roots n p"
  using estate_owner_mset [of roots roots'] mset_eq_setD [of roots' roots] by (simp add: reads_def)

text \<open>What the apply of a built document finds of a read declared in the set.\<close>

lemma built_read:
  assumes "waves_Build sha u reader bopts = Some (Inr doc)" "ao_waves opts = wave_document.truncate doc"
    and "1 \<le> ao_wave opts" "ao_wave opts \<le> int (length (wd_waves doc))"
  shows "distinct (opts_roots opts)
    \<and> (r \<in> set (opts_roots opts) \<longrightarrow> reads (bd_roots doc) r p \<longrightarrow>
         p \<in> set (opts_producers opts r) \<and> wave_num (opts_wave_of opts) p \<le> ao_wave opts)"
  using assms(1)
proof (cases rule: Build_Inr [where sd = undefined])
  case (1 roots ws)
  have S: "valid_roots roots" "waves_shape roots (canary_set u roots (bo_canaries bopts)) ws" "ws_edges ws = es_edges (split_edges roots)"
    using Split_Inr_cases [OF 1(2)] by blast+
  note W = shape_waves [OF S(1,2)]
  have doc: "wd_waves (ao_waves opts) = wd_waves doc" "wd_edges (ao_waves opts) = wd_edges doc"
    by (simp_all add: assms(2) wave_document.truncate_def)
  have dist: "distinct (concat (map wv_roots (wd_waves doc)))"
    using W(4) S(1) 1(5) by (metis mset_eq_imp_distinct_iff valid_roots_def)
  let ?k = "nat (ao_wave opts) - 1"
  have k: "?k < length (wd_waves doc)" using assms(3,4) by linarith
  then have nth: "wd_waves doc ! ?k \<in> set (wd_waves doc)" by simp
  then have "distinct (opts_roots opts)" using dist by (simp add: opts_roots_def doc distinct_concat_iff)
  moreover have "p \<in> set (opts_producers opts r) \<and> wave_num (opts_wave_of opts) p \<le> ao_wave opts"
    if r: "r \<in> set (opts_roots opts)" and rd: "reads (bd_roots doc) r p"
  proof
    have rd': "reads roots r p" using rd reads_mset [OF S(1), of "bd_roots doc"] 1(3) by simp
    then have "es_edge_for (split_edges roots) (r, p) \<noteq> None" using split_edges_ok(2) [OF S(1)] by blast
    then obtain e where "e \<in> set (wd_edges doc)" "ed_reader e = r" "ed_producer e = p"
      using split_edges_ok(1) [OF S(1)] 1(4) S(3) unfolding edges_ok_def by fastforce
    then show "p \<in> set (opts_producers opts r)" by (auto simp: opts_producers_def doc edge_producers_iff)
    have len: "length (ws_waves ws) = length (wd_waves doc)" using arg_cong [OF 1(5), of length] by simp
    have "map wv_number (wd_waves doc) ! ?k = ?k + 1" unfolding 1(6) W(1) using k len by (simp del: upt_Suc)
    then have "wv_number (wd_waves doc ! ?k) = ?k + 1" using k by simp
    then have "wave_of (wd_waves doc) r = Some (?k + 1)"
      using r nth unfolding wave_of_iff [OF dist] opts_roots_def doc by blast
    then have "wave_of (ws_waves ws) r = Some (?k + 1)" using wave_of_same [OF 1(5,6)] by simp
    moreover have dist': "distinct (concat (map wv_roots (ws_waves ws)))" using dist 1(5) by simp
    ultimately obtain wr where wr: "wr \<in> set (ws_waves ws)" "r \<in> set (wv_roots wr)" "wv_number wr = ?k + 1"
      unfolding wave_of_iff [OF dist'] by blast
    then have "ws_wave_of ws r = Some (?k + 1)" using W(2) [OF wr(1), of r] by simp
    then obtain v where v: "ws_wave_of ws p = Some v" "v \<le> ?k + 1" using reads_earlier [OF 1(2) rd'] by fastforce
    have "p \<in> wr_root ` set roots" using rd' reads_in S(1) by blast
    then have "p \<in> set (concat (map wv_roots (ws_waves ws)))" using W(4) by (metis image_set set_mset_mset)
    then obtain wv where wv: "wv \<in> set (ws_waves ws)" "p \<in> set (wv_roots wv)" by auto
    then have "wv_number wv = v" using W(2) [OF wv(1)] v(1) by simp
    then have "wave_of (wd_waves doc) p = Some v"
      using wv wave_of_same [OF 1(5,6)] unfolding wave_of_iff [OF dist'] by (simp add: wave_of_iff [OF dist']) blast
    then show "wave_num (opts_wave_of opts) p \<le> ao_wave opts"
      using v(2) assms(3) by (simp add: opts_wave_of_def doc wave_num_def)
  qed
  ultimately show ?thesis by blast
qed

section \<open>What the gates say of an applied root\<close>

lemma Apply_out_of_range:
  assumes "Apply sha u run opts rs w = (res, st)" "st_applied st \<noteq> []"
  shows "1 \<le> ao_wave opts \<and> ao_wave opts \<le> int (length (wd_waves (ao_waves opts)))"
proof (rule ccontr)
  assume "\<not> ?thesis"
  then have "ao_wave opts < 1 \<or> ao_wave opts > int (length (wd_waves (ao_waves opts)))" by linarith
  then have "st_applied st = []" using assms(1) by (auto simp: Apply_def Let_def)
  then show False using assms(2) by simp
qed

lemma applied_planned:
  assumes "Apply sha u run opts rs w = (res, st)" "distinct (opts_roots opts)" "r \<in> set (st_applied st)"
  shows "planned_in (opts_plans opts) r"
  using assms(1,2)
proof (cases rule: Apply_through)
  case refused
  then show ?thesis using assms(3) by simp
next
  case (through approved fresh w')
  then have "r \<in> set (rm_left (opts_left u opts (bound_to opts rs)))" using assms(3) by auto
  then show ?thesis by (simp add: left_iff)
qed

text \<open>Two plans change the same things: the canonical contents hashed for their digests are equal, or
  their texts are a collision of the hash.  JSON values that no text decodes to are set apart.\<close>

definition same_changes :: "(gostring \<Rightarrow> gostring) \<Rightarrow> root_plan \<Rightarrow> root_plan \<Rightarrow> bool" where
  "same_changes sha r r' \<longleftrightarrow> (wf_plan r \<and> wf_plan r' \<longrightarrow>
     (\<exists>c c'. root_canon_of r = Inr c \<and> root_canon_of r' = Inr c'
        \<and> (c = c' \<or> marshal (canon_json c) \<noteq> marshal (canon_json c')
             \<and> sha (marshal (canon_json c)) = sha (marshal (canon_json c')))))"

lemma same_changesI:
  assumes "RootDigest sha r = Inr d" "RootDigest sha r' = Inr d"
  shows "same_changes sha r r'"
  using assms root_texts_inject [of r r'] by (auto simp: same_changes_def RootDigest_Inr)

section \<open>A rollout\<close>

text \<open>An apply depends on its options only through what these read.\<close>

lemma Apply_same:
  assumes "ao_set opts = ao_set opts'" "ao_approved opts = ao_approved opts'" "ao_wave opts = ao_wave opts'"
    and "opts_roots opts = opts_roots opts'" "opts_producers opts = opts_producers opts'" "opts_wave_of opts = opts_wave_of opts'"
    and "length (wd_waves (ao_waves opts)) = length (wd_waves (ao_waves opts'))"
  shows "Apply sha u run opts rs w = Apply sha u run opts' rs w"
proof -
  have "opts_plans opts = opts_plans opts'" by (simp add: opts_plans_def assms(1))
  then have left: "opts_left u opts rs = opts_left u opts' rs" and bound: "bound_to opts rs = bound_to opts' rs" for rs
    unfolding opts_left_def bound_to_def using assms by simp_all
  show ?thesis unfolding Apply_eq left bound \<open>opts_plans opts = opts_plans opts'\<close> assms ..
qed

text \<open>The two roots of the quiet set, both canaries, from a set plan on.\<close>

definition quiet_canaries :: build_options where
  "quiet_canaries = quiet_build\<lparr>bo_canaries := [S ''app'', S ''net'']\<rparr>"

definition quiet_entry :: "string \<Rightarrow> set_root" where
  "quiet_entry n = \<lparr>sr_root = S n, sr_estate = S n, sr_status = StatusPlanned, sr_error = [], sr_stage = StageNone,
     sr_changes = True, sr_plan_file = [], sr_log_file = [], sr_plan = None, sr_digest = [], sr_reads = [], sr_from = []\<rparr>"

lemma quiet_entry_plan: "root_plan_of (quiet_entry n) = quiet_plan n"
  by (simp add: root_plan_of_def quiet_entry_def quiet_plan_def)

lemma quiet_entries_document: "\<exists>pdoc. plan_document_of (\<lambda>s. s) [quiet_entry ''app'', quiet_entry ''net''] = Inr pdoc"
proof -
  have "sr_root (quiet_entry n) = S n" for n by (simp add: quiet_entry_def)
  moreover obtain x where "SetDigest (\<lambda>s. s) [\<lparr>de_root = S ''app'', de_digest = quiet_digest ''app''\<rparr>,
      \<lparr>de_root = S ''net'', de_digest = quiet_digest ''net''\<rparr>] = Inr x" by (auto simp: SetDigest_Inr)
  ultimately show ?thesis
    by (simp add: plan_document_of_def digestDocument_def quiet_entry_plan quiet_root_digest Let_def del: S_simps)
qed

lemma canaries_split: "\<exists>ws. Split demo_unicode [quiet_app, quiet_net] [S ''app'', S ''net''] = Some (Inr ws)
    \<and> map wv_roots (ws_waves ws) = [[S ''app'', S ''net'']] \<and> map wv_number (ws_waves ws) = [1]
    \<and> map (\<lambda>e. (ed_reader e, ed_producer e)) (ws_edges ws) = [(S ''app'', S ''net'')]"
  by (simp add: demo_set_defs quiet_app_def quiet_net_def trim_space_def isSpace_def demo_unicode_def List.insert_def)

text \<open>The wave document of the two canaries, over their set plan document.\<close>

lemma canaries_built:
  obtains doc where "waves_Build (\<lambda>s. s) demo_unicode quiet_reader quiet_canaries = Some (Inr doc)"
    "bd_roots doc = [quiet_app, quiet_net]" "map wv_roots (wd_waves doc) = [[S ''app'', S ''net'']]" "map wv_number (wd_waves doc) = [1]"
    "map (\<lambda>e. (ed_reader e, ed_producer e)) (wd_edges doc) = [(S ''app'', S ''net'')]"
proof -
  obtain d where d: "DocumentDigests (\<lambda>s. s) quiet_set = Inr ([S ''app'' \<mapsto> quiet_digest ''app'', S ''net'' \<mapsto> quiet_digest ''net''], d)"
    using quiet_set_digest by blast
  obtain ws where ws: "Split demo_unicode [quiet_app, quiet_net] [S ''app'', S ''net''] = Some (Inr ws)"
      "map wv_roots (ws_waves ws) = [[S ''app'', S ''net'']]" "map wv_number (ws_waves ws) = [1]"
      "map (\<lambda>e. (ed_reader e, ed_producer e)) (ws_edges ws) = [(S ''app'', S ''net'')]"
    using canaries_split by (elim exE conjE) (rule that)
  let ?m = "[S ''app'' \<mapsto> quiet_digest ''app'', S ''net'' \<mapsto> quiet_digest ''net'']"
  obtain wv where wv: "ws_waves ws = [wv]" "wv_roots wv = [S ''app'', S ''net'']" "wv_number wv = 1"
    using ws(2,3) by (auto simp: map_eq_Cons_conv simp del: S_simps)
  obtain x where x: "SetDigest (\<lambda>s. s) [\<lparr>de_root = S ''app'', de_digest = quiet_digest ''app''\<rparr>,
      \<lparr>de_root = S ''net'', de_digest = quiet_digest ''net''\<rparr>] = Inr x" by (auto simp: SetDigest_Inr)
  have "?m (S ''app'') = Some (quiet_digest ''app'')" "?m (S ''net'') = Some (quiet_digest ''net'')" by simp_all
  then have att: "attach_digests (\<lambda>s. s) ?m (ws_waves ws) = Inr [wv\<lparr>wv_digest := x\<rparr>]"
    by (simp only: wv attach_digests.simps wave_entries.simps option.case try_bind.simps sum.case x)
  have names: "build_names quiet_canaries = [S ''app'', S ''net'']" "map rp_root (sd_roots quiet_set) = [S ''app'', S ''net'']"
    "setDifference [S ''app'', S ''net''] [S ''app'', S ''net''] = ([], [])"
    by (simp_all add: build_names_def quiet_canaries_def quiet_build_def quiet_set_def quiet_plan_def setDifference_def)
  have opts: "bo_set quiet_canaries = Some quiet_set" "bo_base quiet_canaries = quiet_base" "bo_canaries quiet_canaries = [S ''app'', S ''net'']"
    by (simp_all add: quiet_canaries_def quiet_build_def)
  have sorted: "sort_key wr_root [quiet_app, quiet_net] = [quiet_app, quiet_net]" by (simp add: quiet_app_def quiet_net_def)
  let ?doc = "\<lparr>wd_waves = [wv\<lparr>wv_digest := x\<rparr>], wd_edges = ws_edges ws, bd_roots = [quiet_app, quiet_net],
    bd_external = ws_external ws, bd_digest = d, bd_root_digests = ?m\<rparr>"
  have "waves_Build (\<lambda>s. s) demo_unicode quiet_reader quiet_canaries = Some (Inr ?doc)"
    by (simp add: waves_Build_def names opts quiet_load ws(1) build_document_def d AttachDigests_def att Let_def sorted
        del: S_simps load_roots.simps sort_key_simps)
  then show thesis by (rule that) (use wv ws(4) in simp_all)
qed

lemma canaries_apply:
  assumes "map wv_roots (wd_waves doc) = [[S ''app'', S ''net'']]" "map wv_number (wd_waves doc) = [1]"
    "map (\<lambda>e. (ed_reader e, ed_producer e)) (wd_edges doc) = [(S ''app'', S ''net'')]"
    and "DocumentDigests (\<lambda>s. s) quiet_set = Inr ([S ''app'' \<mapsto> quiet_digest ''app'', S ''net'' \<mapsto> quiet_digest ''net''], d)"
  shows "\<exists>out st. Apply (\<lambda>s. s) demo_unicode quiet_runner
      \<lparr>ao_set = quiet_set, ao_approved = d, ao_waves = wave_document.truncate doc, ao_wave = 1\<rparr> new_resume 0 = (Inr out, st)
    \<and> ar_exit out = ExitApplied \<and> st_applied st = [S ''net'', S ''app'']"
proof -
  let ?opts = "\<lparr>ao_set = quiet_set, ao_approved = d, ao_waves = wave_document.truncate doc, ao_wave = 1\<rparr>"
  obtain wv e where wv: "wd_waves doc = [wv]" "wv_roots wv = [S ''app'', S ''net'']" "wv_number wv = 1"
      and e: "wd_edges doc = [e]" "ed_reader e = S ''app''" "ed_producer e = S ''net''"
    using assms(1-3) by (auto simp: map_eq_Cons_conv simp del: S_simps)
  have t: "wd_waves (wave_document.truncate doc) = [wv]" "wd_edges (wave_document.truncate doc) = [e]"
    using wv e by (simp_all add: wave_document.truncate_def)
  have "Apply (\<lambda>s. s) demo_unicode quiet_runner ?opts new_resume 0 = Apply (\<lambda>s. s) demo_unicode quiet_runner (quiet_opts d) new_resume 0"
    by (rule Apply_same) (simp_all add: quiet_opts_def opts_roots_def opts_producers_def opts_wave_of_def quiet_waves_def t wv e
        wave_of_def edge_producers_def fun_eq_iff del: S_simps)
  then show ?thesis using quiet_apply [OF assms(4)] by simp
qed

lemma canaries_read: "reads [quiet_app, quiet_net] (S ''app'') (S ''net'')"
  by (simp add: reads_def estate_owner_def quiet_app_def quiet_net_def)

end
