(* ===== verification/Cone.thy ===== *)
theory Cone
  imports Waves GoPath GoBytes "HOL-Library.AList"
begin

text \<open>
  The cone of a change within one estate, \<open>internal/live/cone\<close>: the blocks a git diff changes, deletes
  or refactors, every block that reads one of them, and the conditions under which the cone cannot be
  trusted and the whole estate is planned.

  What git, the directory and the files answer is a parameter, and so is the HCL parser: a parsed file
  is its attributes and blocks, each with its source text and the traversals its expressions report.  A
  Go map is an association list in the order it is ranged over; which guard is named first may depend
  on that order, nothing else does.
\<close>

section \<open>Text\<close>

definition HasPrefix :: "gostring \<Rightarrow> gostring \<Rightarrow> bool" where
  "HasPrefix s p \<longleftrightarrow> take (length p) s = p"

definition HasSuffix :: "gostring \<Rightarrow> gostring \<Rightarrow> bool" where
  "HasSuffix s p \<longleftrightarrow> HasPrefix (rev s) (rev p)"

definition TrimSuffix :: "gostring \<Rightarrow> gostring \<Rightarrow> gostring" where
  "TrimSuffix s p = (if HasSuffix s p then take (length s - length p) s else s)"

fun split_where :: "(rune \<Rightarrow> bool) \<Rightarrow> gostring \<Rightarrow> gostring list" where
  "split_where P [] = [[]]"
| "split_where P (c # s) = (if P c then [] # split_where P s
     else (case split_where P s of [] \<Rightarrow> [[c]] | w # ws \<Rightarrow> (c # w) # ws))"

text \<open>\<open>strings.Fields\<close>.\<close>

definition go_fields :: "unicode \<Rightarrow> gostring \<Rightarrow> gostring list" where
  "go_fields u s = filter (\<lambda>w. w \<noteq> []) (split_where (isSpace u) s)"

definition normalize :: "unicode \<Rightarrow> gostring \<Rightarrow> gostring" where
  "normalize u b = join_str (S '' '') (go_fields u b)"

text \<open>\<open>path.Base\<close>.\<close>

definition path_base :: "gostring \<Rightarrow> gostring" where
  "path_base p = (let s = dropWhile (\<lambda>c. c = r_slash) (rev p)
     in if p = [] then dot else if s = [] then [r_slash] else rev (takeWhile (\<lambda>c. c \<noteq> r_slash) s))"

definition sortedKeys :: "gostring list \<Rightarrow> gostring list" where
  "sortedKeys ks = sort (remdups ks)"

section \<open>Addresses\<close>

text \<open>The loop of \<open>splitTraversal\<close>: the depth of brackets and the part read so far.\<close>

fun split_scan :: "int \<Rightarrow> gostring \<Rightarrow> gostring \<Rightarrow> gostring list" where
  "split_scan depth part [] = [part]"
| "split_scan depth part (c # s) =
     (if c = r_lbr then split_scan (depth + 1) (part @ [c]) s
      else if c = r_rbr then split_scan (depth - 1) (part @ [c]) s
      else if c = r_dot \<and> depth = 0 then part # split_scan depth [] s
      else split_scan depth (part @ [c]) s)"

definition splitTraversal :: "gostring \<Rightarrow> gostring list" where
  "splitTraversal s = split_scan 0 [] s"

definition stripKeys :: "gostring \<Rightarrow> gostring" where
  "stripKeys addr =
     (let out = map (takeWhile (\<lambda>c. c \<noteq> r_lbr)) (splitTraversal addr) in
      if length out \<ge> 2 \<and> out ! 0 = S ''module'' then S ''module.'' @ out ! 1
      else if length out \<ge> 3 \<and> out ! 0 = S ''data'' then join_with r_dot (take 3 out)
      else if length out \<ge> 2 then join_with r_dot (take 2 out)
      else join_with r_dot out)"

section \<open>The root module\<close>

datatype kind =
    KindOther | KindResource | KindData | KindModule | KindVariable | KindLocal | KindOutput
  | KindProvider | KindTerraform | KindLive | KindRefactor

record block =
  bk_kind :: kind
  bk_typ :: gostring
  bk_text :: gostring
  bk_source :: gostring
  bk_refs :: "gostring list"

definition block_targetable :: "block \<Rightarrow> bool" where
  "block_targetable b \<longleftrightarrow> bk_kind b = KindResource \<or> bk_kind b = KindData \<or> bk_kind b = KindModule"

record refactor =
  rf_kind :: gostring
  rf_text :: gostring
  rf_addrs :: "gostring list"
  rf_must_place :: "gostring list"

record root_module =
  md_blocks :: "(gostring \<times> block) list"
  md_refactors :: "refactor list"
  md_vars :: "(gostring \<times> gostring) list"
  md_non_native :: bool

definition hasRefactor :: "root_module \<Rightarrow> refactor \<Rightarrow> bool" where
  "hasRefactor m r \<longleftrightarrow> list_ex (\<lambda>o'. rf_kind o' = rf_kind r \<and> rf_text o' = rf_text r) (md_refactors m)"

definition places :: "root_module \<Rightarrow> gostring \<Rightarrow> bool" where
  "places m addr \<longleftrightarrow> map_of (md_blocks m) (stripKeys addr) \<noteq> None"

section \<open>Parsing the root module\<close>

text \<open>
  What the HCL parser gives.  A traversal has a root name and steps; of an attribute the code uses its
  source, its expression's source, the variables of the expression and its value where that is a
  constant string; \<open>hb_vars\<close> are the variables of all the expressions of a block's body.
\<close>

datatype trav_step = StepAttr gostring | StepOther

record traversal =
  tv_root :: gostring
  tv_steps :: "trav_step list"

record hcl_attr =
  ha_src :: gostring
  ha_expr :: gostring
  ha_vars :: "traversal list"
  ha_string :: "gostring option"

record hcl_block =
  hb_type :: gostring
  hb_labels :: "gostring list"
  hb_src :: gostring
  hb_attrs :: "(gostring \<times> hcl_attr) list"
  hb_vars :: "traversal list"

record hcl_body =
  hc_attrs :: "(gostring \<times> hcl_attr) list"
  hc_blocks :: "hcl_block list"

record config_file =
  cf_name :: gostring
  cf_src :: gostring

definition trav_name :: "traversal \<Rightarrow> nat \<Rightarrow> gostring" where
  "trav_name t i = (if 0 < i \<and> i \<le> length (tv_steps t)
     then (case tv_steps t ! (i - 1) of StepAttr n \<Rightarrow> n | StepOther \<Rightarrow> []) else [])"

definition refOf :: "traversal \<Rightarrow> gostring" where
  "refOf t =
     (if tv_root t \<in> {S ''var'', S ''local'', S ''module'', S ''output''}
      then (if trav_name t 1 \<noteq> [] then tv_root t @ r_dot # trav_name t 1 else [])
      else if tv_root t = S ''data''
      then (if trav_name t 1 \<noteq> [] \<and> trav_name t 2 \<noteq> [] then S ''data.'' @ trav_name t 1 @ r_dot # trav_name t 2 else [])
      else if tv_root t \<in> {S ''count'', S ''each'', S ''self'', S ''path'', S ''terraform'', S ''tofu''} then []
      else (if trav_name t 1 \<noteq> [] then tv_root t @ r_dot # trav_name t 1 else []))"

definition exprRefs :: "traversal list \<Rightarrow> gostring list" where
  "exprRefs ts = sortedKeys (filter (\<lambda>r. r \<noteq> []) (map refOf ts))"

definition bodyRefs :: "hcl_block \<Rightarrow> gostring list" where
  "bodyRefs b = exprRefs (hb_vars b)"

definition autoVars :: "gostring \<Rightarrow> bool" where
  "autoVars name \<longleftrightarrow> name = S ''terraform.tfvars'' \<or> HasSuffix name (S ''.auto.tfvars'')"

text \<open>The address an attribute of a refactor block names, empty without it.\<close>

definition refactor_addr :: "unicode \<Rightarrow> hcl_block \<Rightarrow> gostring \<Rightarrow> gostring" where
  "refactor_addr u b name = (case map_of (hb_attrs b) name of None \<Rightarrow> []
     | Some a \<Rightarrow> filter (\<lambda>c. c \<noteq> r_space) (normalize u (ha_expr a)))"

definition refactorOf :: "unicode \<Rightarrow> hcl_block \<Rightarrow> gostring \<Rightarrow> refactor" where
  "refactorOf u b text =
     (let a = refactor_addr u b;
          named = (\<lambda>names. filter (\<lambda>x. x \<noteq> []) (map a names));
          r = \<lparr>rf_kind = hb_type b, rf_text = text, rf_addrs = [], rf_must_place = []\<rparr>
      in if hb_type b = S ''moved'' then r\<lparr>rf_addrs := map stripKeys (named [S ''from'', S ''to'']), rf_must_place := named [S ''to'']\<rparr>
         else if hb_type b = S ''removed'' then r\<lparr>rf_addrs := map stripKeys (named [S ''from''])\<rparr>
         else if hb_type b = S ''import'' then r\<lparr>rf_addrs := map stripKeys (named [S ''to'']), rf_must_place := named [S ''to'']\<rparr>
         else r)"

definition plain_block :: "kind \<Rightarrow> gostring \<Rightarrow> block" where
  "plain_block k text = \<lparr>bk_kind = k, bk_typ = [], bk_text = text, bk_source = [], bk_refs = []\<rparr>"

definition put_block :: "gostring \<Rightarrow> block \<Rightarrow> root_module \<Rightarrow> root_module" where
  "put_block key b m = m\<lparr>md_blocks := AList.update key b (md_blocks m)\<rparr>"

definition module_source :: "hcl_block \<Rightarrow> gostring" where
  "module_source b = (case map_of (hb_attrs b) (S ''source'') of None \<Rightarrow> []
     | Some a \<Rightarrow> (case ha_string a of None \<Rightarrow> [] | Some s \<Rightarrow> s))"

definition provider_key :: "unicode \<Rightarrow> hcl_block \<Rightarrow> gostring" where
  "provider_key u b = S ''provider.'' @ join_with r_dot (hb_labels b)
     @ (case map_of (hb_attrs b) (S ''alias'') of None \<Rightarrow> [] | Some a \<Rightarrow> r_dot # normalize u (ha_expr a))"

definition add_block :: "unicode \<Rightarrow> hcl_block \<Rightarrow> root_module \<Rightarrow> root_module" where
  "add_block u b m =
     (let text = normalize u (hb_src b); ls = hb_labels b; ty = hb_type b in
      if ty = S ''resource'' then
        (if length ls = 2 then put_block (ls ! 0 @ r_dot # ls ! 1)
           \<lparr>bk_kind = KindResource, bk_typ = ls ! 0, bk_text = text, bk_source = [], bk_refs = bodyRefs b\<rparr> m else m)
      else if ty = S ''data'' then
        (if length ls = 2 then put_block (S ''data.'' @ ls ! 0 @ r_dot # ls ! 1)
           \<lparr>bk_kind = KindData, bk_typ = ls ! 0, bk_text = text, bk_source = [], bk_refs = bodyRefs b\<rparr> m else m)
      else if ty = S ''module'' then
        (if length ls = 1 then put_block (S ''module.'' @ ls ! 0)
           \<lparr>bk_kind = KindModule, bk_typ = [], bk_text = text, bk_source = module_source b, bk_refs = bodyRefs b\<rparr> m else m)
      else if ty = S ''variable'' then
        (if length ls = 1 then put_block (S ''var.'' @ ls ! 0) (plain_block KindVariable text) m else m)
      else if ty = S ''output'' then
        (if length ls = 1 then put_block (S ''output.'' @ ls ! 0) ((plain_block KindOutput text)\<lparr>bk_refs := bodyRefs b\<rparr>) m else m)
      else if ty = S ''locals'' then
        fold (\<lambda>(name, a). put_block (S ''local.'' @ name)
          ((plain_block KindLocal (normalize u (ha_src a)))\<lparr>bk_refs := exprRefs (ha_vars a)\<rparr>)) (hb_attrs b) m
      else if ty = S ''provider'' then put_block (provider_key u b) (plain_block KindProvider text) m
      else if ty = S ''terraform'' then put_block (S ''terraform'')
        (plain_block KindTerraform ((case map_of (md_blocks m) (S ''terraform'') of None \<Rightarrow> [] | Some p \<Rightarrow> bk_text p) @ text)) m
      else if ty = S ''live'' then put_block (S ''live'') (plain_block KindLive text) m
      else if ty \<in> {S ''moved'', S ''removed'', S ''import''} then m\<lparr>md_refactors := md_refactors m @ [refactorOf u b text]\<rparr>
      else m)"

text \<open>One file; the text carried along is the first parse error.\<close>

definition parse_file :: "unicode \<Rightarrow> (gostring \<Rightarrow> gostring \<Rightarrow> gostring + hcl_body) \<Rightarrow> config_file
    \<Rightarrow> root_module \<times> gostring \<Rightarrow> root_module \<times> gostring" where
  "parse_file u parser f acc = (case acc of (m, firstErr) \<Rightarrow>
     if HasSuffix (cf_name f) (S ''.json'')
     then (if autoVars (TrimSuffix (cf_name f) (S ''.json'')) \<or> \<not> HasSuffix (cf_name f) (S ''.tfvars.json'')
           then (m\<lparr>md_non_native := True\<rparr>, firstErr) else (m, firstErr))
     else (case parser (cf_src f) (cf_name f) of
        Inl e \<Rightarrow> (m, if firstErr = [] then e else firstErr)
      | Inr body \<Rightarrow>
        if HasSuffix (cf_name f) (S ''.tfvars'')
        then (if \<not> autoVars (cf_name f) then (m, firstErr)
              else (m\<lparr>md_vars := fold (\<lambda>(name, a). AList.update name (normalize u (ha_expr a))) (hc_attrs body) (md_vars m)\<rparr>, firstErr))
        else (fold (add_block u) (hc_blocks body) m, firstErr)))"

definition parseModule :: "unicode \<Rightarrow> (gostring \<Rightarrow> gostring \<Rightarrow> gostring + hcl_body) \<Rightarrow> config_file list \<Rightarrow> root_module \<times> gostring" where
  "parseModule u parser files =
     fold (parse_file u parser) files (\<lparr>md_blocks = [], md_refactors = [], md_vars = [], md_non_native = False\<rparr>, [])"

section \<open>The readers of a block\<close>

definition readers :: "root_module \<Rightarrow> gostring \<Rightarrow> gostring list" where
  "readers m r = concat (map (\<lambda>(k, b). map (\<lambda>_. k) (filter (\<lambda>x. x = r) (bk_refs b))) (md_blocks m))"

text \<open>The nodes something reads; only these put anything on the queue.\<close>

definition read_nodes :: "root_module \<Rightarrow> gostring set" where
  "read_nodes m = set (concat (map (\<lambda>(k, b). bk_refs b) (md_blocks m)))"

lemma readers_unread: "r \<notin> read_nodes m \<Longrightarrow> readers m r = []"
  by (auto simp: readers_def read_nodes_def filter_empty_conv)

function descend :: "root_module \<Rightarrow> gostring list \<Rightarrow> gostring list \<Rightarrow> gostring list" where
  "descend m out [] = out"
| "descend m out (k # queue) =
     (if k \<in> set out then descend m out queue else descend m (k # out) (queue @ readers m k))"
  by pat_completeness auto
termination
proof (relation "measures [\<lambda>(m, out, queue). card (read_nodes m - set out), \<lambda>(m, out, queue). length queue]", goal_cases)
  case (3 m out k queue)
  have fin: "finite (read_nodes m - set out)" unfolding read_nodes_def by (intro finite_Diff finite_set)
  show ?case
  proof (cases "k \<in> read_nodes m")
    case True
    then have "read_nodes m - set (k # out) \<subset> read_nodes m - set out" using 3 by auto
    then show ?thesis using psubset_card_mono [OF fin] by simp
  next
    case False
    then have "read_nodes m - insert k (set out) = read_nodes m - set out" by auto
    then show ?thesis using readers_unread [OF False] by simp
  qed
qed auto

definition descendants :: "root_module \<Rightarrow> gostring list \<Rightarrow> gostring list" where
  "descendants m nodes = descend m [] nodes"

end
