(* ===== verification/ConeCompute.thy ===== *)
theory ConeCompute
  imports Cone
begin

text \<open>
  \<open>Compute\<close> of \<open>internal/live/cone/cone.go\<close>: reading both sides of the change, the diff, the cone, its
  targets and the guard.  \<open>git\<close> answers a command run in a directory with its output or an error; a
  repository is taken not to change while it is read.
\<close>

section \<open>The share\<close>

text \<open>
  A finite \<open>float64\<close>: a mantissa of at most 53 bits times a power of two.  A product with a count is
  exact when it fits the mantissa and is rounded to the nearest, ties to even, otherwise; overflow
  would be beyond any count.
\<close>

record float64 =
  fl_man :: int
  fl_exp :: int

fun bits :: "nat \<Rightarrow> nat" where
  "bits n = (if n = 0 then 0 else Suc (bits (n div 2)))"

declare bits.simps [simp del]

definition round_even :: "nat \<Rightarrow> nat \<Rightarrow> nat" where
  "round_even m s = (let q = m div 2 ^ s; r = m mod 2 ^ s
     in if 2 * r > 2 ^ s \<or> (2 * r = 2 ^ s \<and> odd q) then q + 1 else q)"

definition float_times :: "float64 \<Rightarrow> nat \<Rightarrow> float64" where
  "float_times f n = (let m = nat \<bar>fl_man f\<bar> * n; s = bits m - 53; q = (if s = 0 then m else round_even m s)
     in \<lparr>fl_man = (if fl_man f < 0 then - int q else int q), fl_exp = fl_exp f + int s\<rparr>)"

definition nat_gt_float :: "nat \<Rightarrow> float64 \<Rightarrow> bool" where
  "nat_gt_float n f \<longleftrightarrow> (if fl_exp f \<ge> 0 then int n > fl_man f * 2 ^ nat (fl_exp f)
     else int n * 2 ^ nat (- fl_exp f) > fl_man f)"

definition DefaultShare :: float64 where
  "DefaultShare = \<lparr>fl_man = 5404319552844595, fl_exp = -54\<rparr>"

section \<open>The result\<close>

definition GuardNoBase :: gostring where "GuardNoBase = S ''no-base''"
definition GuardProvider :: gostring where "GuardProvider = S ''provider-changed''"
definition GuardLockFile :: gostring where "GuardLockFile = S ''lock-file-changed''"
definition GuardLiveBlock :: gostring where "GuardLiveBlock = S ''live-block-changed''"
definition GuardTerraform :: gostring where "GuardTerraform = S ''terraform-block-changed''"
definition GuardShare :: gostring where "GuardShare = S ''cone-too-large''"
definition GuardUnplaced :: gostring where "GuardUnplaced = S ''refactor-unplaced''"
definition GuardEmpty :: gostring where "GuardEmpty = S ''empty-cone''"
definition GuardParse :: gostring where "GuardParse = S ''config-unreadable''"
definition GuardNonNative :: gostring where "GuardNonNative = S ''json-config''"
definition GuardNewRoot :: gostring where "GuardNewRoot = S ''root-new-at-base''"

record cone_options =
  co_dir :: gostring
  co_base :: gostring
  co_share :: float64

record guard =
  g_full :: bool
  g_kind :: gostring
  g_reason :: gostring

record cone_result =
  cr_base :: gostring
  cr_base_sha :: gostring
  cr_changed :: "gostring list"
  cr_deleted :: "gostring list"
  cr_refactor :: "gostring list"
  cr_widened :: "gostring list"
  cr_reach :: "gostring list"
  cr_targets :: "gostring list"
  cr_blocks :: nat
  cr_cone_blocks :: nat
  cr_guard :: guard

definition fall :: "gostring \<Rightarrow> gostring \<Rightarrow> guard \<Rightarrow> guard" where
  "fall kind reason g = (if \<not> g_full g then \<lparr>g_full = True, g_kind = kind, g_reason = reason\<rparr> else g)"

definition new_result :: "gostring \<Rightarrow> cone_result" where
  "new_result base = \<lparr>cr_base = base, cr_base_sha = [], cr_changed = [], cr_deleted = [], cr_refactor = [], cr_widened = [],
     cr_reach = [], cr_targets = [], cr_blocks = 0, cr_cone_blocks = 0, cr_guard = \<lparr>g_full = False, g_kind = [], g_reason = []\<rparr>\<rparr>"

definition cone_Text :: "cone_result \<Rightarrow> gostring" where
  "cone_Text r =
     (if g_full (cr_guard r) then S ''# full plan: '' @ g_reason (cr_guard r) @ [10]
      else concat (map (\<lambda>t. t @ [10]) (cr_targets r))
        @ S ''# cone: '' @ itoa_nat (cr_cone_blocks r) @ S '' of '' @ itoa_nat (cr_blocks r) @ S '' blocks'' @ [10])"

section \<open>Reading both sides\<close>

record dir_entry =
  de_name :: gostring
  de_is_dir :: bool

record cone_env =
  ce_unicode :: unicode
  ce_quote :: "gostring \<Rightarrow> gostring"
  ce_percent :: "float64 \<Rightarrow> gostring"
  ce_wd :: "gostring + gostring"
  ce_git :: "gostring \<Rightarrow> gostring list \<Rightarrow> gostring + gostring"
  ce_read_dir :: "gostring \<Rightarrow> gostring + dir_entry list"
  ce_read_file :: "gostring \<Rightarrow> gostring + gostring"
  ce_parser :: "gostring \<Rightarrow> gostring \<Rightarrow> gostring + hcl_body"

definition cone_abs :: "cone_env \<Rightarrow> gostring \<Rightarrow> gostring + gostring" where
  "cone_abs env p = (if IsAbs p then Inr (Clean p) else try_bind (ce_wd env) (\<lambda>wd. Inr (Join wd p)))"

definition changedPaths :: "cone_env \<Rightarrow> gostring \<Rightarrow> gostring \<Rightarrow> gostring + gostring list" where
  "changedPaths env dir base =
     try_bind (ce_git env dir [S ''rev-parse'', S ''--show-toplevel'']) (\<lambda>top0.
     let repoTop = trim_space (ce_unicode env) top0 in
     try_bind (ce_git env repoTop [S ''diff'', S ''--no-ext-diff'', S ''--name-only'', S ''-z'', base]) (\<lambda>diff.
     try_bind (ce_git env repoTop [S ''ls-files'', S ''--others'', S ''--exclude-standard'', S ''-z'']) (\<lambda>untracked.
     Inr (filter (\<lambda>s. s \<noteq> []) (split_on 0 (diff @ untracked))))))"

definition isConfigName :: "gostring \<Rightarrow> bool" where
  "isConfigName name \<longleftrightarrow> list_ex (HasSuffix name)
     [S ''.tf'', S ''.tofu'', S ''.tf.json'', S ''.tofu.json'', S ''.tfvars'', S ''.tfvars.json'']"

fun show_files :: "cone_env \<Rightarrow> gostring \<Rightarrow> gostring \<Rightarrow> gostring list \<Rightarrow> gostring + config_file list" where
  "show_files env dir at [] = Inr []"
| "show_files env dir at (name # names) =
     (if name = [] \<or> \<not> isConfigName name then show_files env dir at names
      else try_bind (ce_git env dir [S ''show'', at @ name]) (\<lambda>src.
        try_bind (show_files env dir at names) (\<lambda>files. Inr (\<lparr>cf_name = name, cf_src = src\<rparr> # files))))"

definition baseConfigFiles :: "cone_env \<Rightarrow> gostring \<Rightarrow> gostring \<Rightarrow> gostring \<Rightarrow> gostring + config_file list \<times> bool" where
  "baseConfigFiles env dir base prefix =
     (let at = base @ S '':'' @ prefix in
      case ce_git env dir [S ''cat-file'', S ''-e'', at] of Inl _ \<Rightarrow> Inr ([], False)
      | Inr _ \<Rightarrow>
      (case ce_git env dir [S ''ls-tree'', S ''--full-tree'', S ''--name-only'', S ''-z'', at] of Inl _ \<Rightarrow> Inr ([], False)
       | Inr names \<Rightarrow> try_bind (show_files env dir at (split_on 0 names)) (\<lambda>files. Inr (files, True))))"

fun read_files :: "cone_env \<Rightarrow> gostring \<Rightarrow> dir_entry list \<Rightarrow> gostring + config_file list" where
  "read_files env dir [] = Inr []"
| "read_files env dir (e # es) =
     (if de_is_dir e \<or> \<not> isConfigName (de_name e) then read_files env dir es
      else try_bind (ce_read_file env (Join dir (de_name e))) (\<lambda>src.
        try_bind (read_files env dir es) (\<lambda>files. Inr (\<lparr>cf_name = de_name e, cf_src = src\<rparr> # files))))"

definition headConfigFiles :: "cone_env \<Rightarrow> gostring \<Rightarrow> gostring + config_file list" where
  "headConfigFiles env dir = try_bind (ce_read_dir env dir) (\<lambda>entries. read_files env dir entries)"

section \<open>The diff\<close>

text \<open>Why a block that is not a node of the graph trips the guard, and whether any other has changed;
  \<open>None\<close> is a block that is the same on both sides or is handled elsewhere.\<close>

definition head_guard :: "gostring \<Rightarrow> kind \<Rightarrow> bool \<Rightarrow> (gostring \<times> gostring) option" where
  "head_guard key k inBase = (case k of
     KindProvider \<Rightarrow> Some (GuardProvider, (if inBase then S ''a provider block changed: '' else S ''a provider block was added: '') @ key)
   | KindLive \<Rightarrow> Some (GuardLiveBlock, if inBase then S ''the live block changed'' else S ''the live block was added'')
   | KindTerraform \<Rightarrow> Some (GuardTerraform, if inBase then S ''the terraform block changed (required_providers, backend or settings)''
       else S ''the terraform block was added'')
   | _ \<Rightarrow> None)"

fun diff_head :: "root_module \<Rightarrow> (gostring \<times> block) list \<Rightarrow> guard \<times> gostring list \<Rightarrow> guard \<times> gostring list" where
  "diff_head base [] acc = acc"
| "diff_head base ((key, hb) # rest) (g, changed) =
     diff_head base rest
       (let bb = map_of (md_blocks base) key in
        if (case bb of None \<Rightarrow> False | Some b \<Rightarrow> bk_text b = bk_text hb) then (g, changed)
        else (case head_guard key (bk_kind hb) (bb \<noteq> None) of
            Some (kind, reason) \<Rightarrow> (fall kind reason g, changed)
          | None \<Rightarrow> if bk_kind hb = KindRefactor then (g, changed) else (g, List.insert key changed)))"

fun diff_base :: "root_module \<Rightarrow> (gostring \<times> block) list \<Rightarrow> guard \<times> gostring list \<Rightarrow> guard \<times> gostring list" where
  "diff_base head [] acc = acc"
| "diff_base head ((key, bb) # rest) (g, deleted) =
     diff_base head rest
       (if map_of (md_blocks head) key \<noteq> None then (g, deleted)
        else (case bk_kind bb of
            KindProvider \<Rightarrow> (fall GuardProvider (S ''a provider block was removed: '' @ key) g, deleted)
          | KindLive \<Rightarrow> (fall GuardLiveBlock (S ''the live block was removed'') g, deleted)
          | KindTerraform \<Rightarrow> (fall GuardTerraform (S ''the terraform block was removed'') g, deleted)
          | KindResource \<Rightarrow> (g, deleted @ [key]) | KindData \<Rightarrow> (g, deleted @ [key]) | KindModule \<Rightarrow> (g, deleted @ [key])
          | _ \<Rightarrow> (g, deleted)))"

definition var_at :: "(gostring \<times> gostring) list \<Rightarrow> gostring \<Rightarrow> gostring" where
  "var_at vars k = (case map_of vars k of None \<Rightarrow> [] | Some v \<Rightarrow> v)"

definition diffVars :: "(gostring \<times> gostring) list \<Rightarrow> (gostring \<times> gostring) list \<Rightarrow> gostring list" where
  "diffVars a b = remdups (map fst (filter (\<lambda>(k, v). var_at b k \<noteq> v) a) @ map fst (filter (\<lambda>(k, v). var_at a k \<noteq> v) b))"

text \<open>Whether a file under the source directory of a local module call changed.\<close>

definition module_changed :: "gostring \<Rightarrow> gostring \<Rightarrow> gostring list \<Rightarrow> block \<Rightarrow> bool" where
  "module_changed repoTop prefix files hb \<longleftrightarrow>
     bk_kind hb = KindModule
     \<and> (HasPrefix (bk_source hb) (S ''./'') \<or> HasPrefix (bk_source hb) (S ''../''))
     \<and> (let modDir = Clean (Join prefix (bk_source hb)) in
         \<not> HasPrefix (Rel repoTop (Join repoTop modDir)) (S ''..'')
         \<and> list_ex (\<lambda>p. p = modDir \<or> HasPrefix p (modDir @ [r_slash])) files)"

fun check_placed :: "cone_env \<Rightarrow> root_module \<Rightarrow> refactor \<Rightarrow> gostring list \<Rightarrow> guard \<Rightarrow> guard" where
  "check_placed env head rb [] g = g"
| "check_placed env head rb (a # as) g =
     check_placed env head rb as (if \<not> places head a
       then fall GuardUnplaced (S ''a '' @ rf_kind rb @ S '' block names '' @ a @ S '', which no block in the head configuration declares'') g
       else g)"

fun diff_refactors :: "cone_env \<Rightarrow> root_module \<Rightarrow> root_module \<Rightarrow> refactor list \<Rightarrow> guard \<times> gostring list \<Rightarrow> guard \<times> gostring list" where
  "diff_refactors env base head [] acc = acc"
| "diff_refactors env base head (rb # rbs) (g, addrs) =
     diff_refactors env base head rbs
       (if hasRefactor base rb then (g, addrs)
        else (check_placed env head rb (rf_must_place rb) g, addrs @ rf_addrs rb))"

section \<open>Reach and widening\<close>

definition coManagedPairs :: "(gostring \<times> gostring) list" where
  "coManagedPairs =
     [(S ''aws_security_group'', S ''aws_security_group_rule''),
      (S ''aws_security_group'', S ''aws_vpc_security_group_ingress_rule''),
      (S ''aws_security_group'', S ''aws_vpc_security_group_egress_rule''),
      (S ''aws_route_table'', S ''aws_route''),
      (S ''aws_default_route_table'', S ''aws_route''),
      (S ''aws_network_acl'', S ''aws_network_acl_rule''),
      (S ''aws_default_network_acl'', S ''aws_network_acl_rule''),
      (S ''aws_iam_role'', S ''aws_iam_role_policy''),
      (S ''aws_iam_role'', S ''aws_iam_role_policy_attachment''),
      (S ''aws_iam_role'', S ''aws_iam_role_policies_exclusive''),
      (S ''aws_iam_user'', S ''aws_iam_user_policy''),
      (S ''aws_iam_group'', S ''aws_iam_group_policy''),
      (S ''aws_s3_bucket'', S ''aws_s3_bucket_policy''),
      (S ''aws_lb_listener'', S ''aws_lb_listener_rule''),
      (S ''kubernetes_manifest'', S ''kubernetes_labels''),
      (S ''kubernetes_manifest'', S ''kubernetes_annotations'')]"

definition coManaged :: "gostring \<Rightarrow> gostring list" where
  "coManaged typ = concat (map (\<lambda>(a, b). (if a = typ then [b] else []) @ (if b = typ then [a] else [])) coManagedPairs)"

definition reach_of :: "root_module \<Rightarrow> gostring list \<Rightarrow> gostring list \<Rightarrow> gostring list" where
  "reach_of head changed refactored =
     remdups (descendants head changed
       @ concat (map (\<lambda>a. descendants head [a]) (filter (\<lambda>a. map_of (md_blocks head) a \<noteq> None) refactored)))"

definition widened_of :: "root_module \<Rightarrow> gostring list \<Rightarrow> gostring list" where
  "widened_of head reach =
     remdups (concat (map (\<lambda>k. case map_of (md_blocks head) k of None \<Rightarrow> []
       | Some hb \<Rightarrow> if bk_kind hb \<noteq> KindResource then []
         else concat (map (\<lambda>other. map fst (filter (\<lambda>(k2, b2). bk_kind b2 = KindResource \<and> bk_typ b2 = other \<and> k2 \<notin> set reach)
           (md_blocks head))) (coManaged (bk_typ hb)))) reach))"

definition cone_targets :: "root_module \<Rightarrow> gostring list \<Rightarrow> gostring list \<Rightarrow> gostring list \<Rightarrow> gostring list" where
  "cone_targets head reach deleted refactored =
     sortedKeys (filter (\<lambda>k. case map_of (md_blocks head) k of None \<Rightarrow> False | Some hb \<Rightarrow> block_targetable hb) reach
       @ deleted @ refactored)"

section \<open>Compute\<close>

text \<open>What is read before the diff.\<close>

record cone_input =
  ci_sha :: gostring
  ci_prefix :: gostring
  ci_top :: gostring
  ci_files :: "gostring list"
  ci_base_files :: "config_file list"
  ci_base_exists :: bool
  ci_head_files :: "config_file list"

text \<open>\<open>Inl None\<close> on the right is a base that is no commit.\<close>

definition cone_read :: "cone_env \<Rightarrow> gostring \<Rightarrow> gostring \<Rightarrow> gostring + cone_input option" where
  "cone_read env dir base =
     (let u = ce_unicode env in
      case ce_git env dir [S ''rev-parse'', S ''--verify'', S ''--quiet'', base @ S ''^{commit}''] of Inl _ \<Rightarrow> Inr None
      | Inr sha0 \<Rightarrow>
        (let sha = trim_space u sha0 in
         try_bind (ce_git env dir [S ''rev-parse'', S ''--show-prefix'']) (\<lambda>prefix0.
         let prefix = trim_space u prefix0 in
         try_bind (ce_git env dir [S ''rev-parse'', S ''--show-toplevel'']) (\<lambda>top0.
         let repoTop = trim_space u top0 in
         try_bind (changedPaths env dir sha) (\<lambda>files.
         try_bind (baseConfigFiles env dir sha prefix) (\<lambda>(baseFiles, exists).
         try_bind (headConfigFiles env dir) (\<lambda>headFiles.
         Inr (Some \<lparr>ci_sha = sha, ci_prefix = prefix, ci_top = repoTop, ci_files = files, ci_base_files = baseFiles,
           ci_base_exists = exists, ci_head_files = headFiles\<rparr>))))))))"

text \<open>The guards on what was read, in the order the code meets them.\<close>

definition read_guard :: "cone_env \<Rightarrow> gostring \<Rightarrow> cone_input \<Rightarrow> guard \<Rightarrow> guard" where
  "read_guard env base inp g0 =
     (let (bm, bdiags) = parseModule (ce_unicode env) (ce_parser env) (ci_base_files inp);
          (hm, hdiags) = parseModule (ce_unicode env) (ce_parser env) (ci_head_files inp);
          where0 = TrimSuffix (ci_prefix inp) [r_slash];
          where = (if where0 = [] then S ''the repository top'' else where0);
          g1 = (if list_ex (\<lambda>p. path_base p = S ''.terraform.lock.hcl'' \<and> HasPrefix p (ci_prefix inp)) (ci_files inp)
                then fall GuardLockFile (S ''the provider lock file changed'') g0 else g0);
          g2 = (if \<not> ci_base_exists inp
                then fall GuardNewRoot (S ''the root's directory ('' @ where @ S '') did not exist at '' @ base @ S '', so there is no base configuration to diff'') g1
                else if ci_base_files inp = []
                then fall GuardNewRoot (S ''the root's directory ('' @ where @ S '') held no configuration at '' @ base @ S '', so there is no base configuration to diff'') g1
                else g1);
          g3 = (if bdiags \<noteq> [] then fall GuardParse (S ''the base configuration does not parse: '' @ bdiags) g2 else g2);
          g4 = (if hdiags \<noteq> [] then fall GuardParse (S ''the head configuration does not parse: '' @ hdiags) g3 else g3)
      in if md_non_native bm \<or> md_non_native hm
         then fall GuardNonNative (S ''the root module has JSON configuration, which this diff does not read'') g4 else g4)"

definition base_module :: "cone_env \<Rightarrow> cone_input \<Rightarrow> root_module" where
  "base_module env inp = fst (parseModule (ce_unicode env) (ce_parser env) (ci_base_files inp))"

definition head_module :: "cone_env \<Rightarrow> cone_input \<Rightarrow> root_module" where
  "head_module env inp = fst (parseModule (ce_unicode env) (ce_parser env) (ci_head_files inp))"

text \<open>The nodes changed, besides what \<open>diff_head\<close> found: variables and local module calls.\<close>

definition changed_nodes :: "cone_input \<Rightarrow> root_module \<Rightarrow> root_module \<Rightarrow> gostring list \<Rightarrow> gostring list" where
  "changed_nodes inp base head changed =
     remdups (changed @ map (\<lambda>name. S ''var.'' @ name) (diffVars (md_vars base) (md_vars head))
       @ map fst (filter (\<lambda>(k, hb). module_changed (ci_top inp) (ci_prefix inp) (ci_files inp) hb) (md_blocks head)))"

definition cone_of :: "cone_env \<Rightarrow> gostring \<Rightarrow> float64 \<Rightarrow> cone_input \<Rightarrow> cone_result" where
  "cone_of env base share inp =
     (let bm = base_module env inp; head = head_module env inp;
          g = read_guard env base inp (cr_guard (new_result base));
          (g, changed) = diff_head bm (md_blocks head) (g, []);
          (g, deleted) = diff_base head (md_blocks bm) (g, []);
          changed = changed_nodes inp bm head changed;
          (g, addrs) = diff_refactors env bm head (md_refactors head) (g, []);
          refactored = sortedKeys addrs;
          reach = reach_of head changed refactored;
          widened = widened_of head reach;
          reach = reach @ widened;
          targets = cone_targets head reach deleted refactored;
          blocks = length (filter (\<lambda>(k, b). block_targetable b) (md_blocks head));
          g = (if targets = [] then fall GuardEmpty (S ''the diff reaches no resource, data source or module call'') g
               else if blocks > 0 \<and> nat_gt_float (length targets) (float_times share blocks)
               then fall GuardShare (S ''the cone holds '' @ itoa_nat (length targets) @ S '' of the estate's '' @ itoa_nat blocks
                 @ S '' blocks, over the '' @ ce_percent env share @ S ''% limit'') g
               else g)
      in \<lparr>cr_base = base, cr_base_sha = ci_sha inp, cr_changed = sortedKeys changed, cr_deleted = sort deleted,
          cr_refactor = refactored, cr_widened = sortedKeys widened, cr_reach = sortedKeys reach, cr_targets = targets,
          cr_blocks = blocks, cr_cone_blocks = length targets, cr_guard = g\<rparr>)"

definition share_of :: "cone_options \<Rightarrow> float64" where
  "share_of o' = (if fl_man (co_share o') \<le> 0 then DefaultShare else co_share o')"

definition Compute :: "cone_env \<Rightarrow> cone_options \<Rightarrow> gostring + cone_result" where
  "Compute env o' =
     try_bind (cone_abs env (co_dir o')) (\<lambda>dir.
     let res = new_result (co_base o') in
     if trim_space (ce_unicode env) (co_base o') = []
     then Inr (res\<lparr>cr_guard := fall GuardNoBase (S ''no base ref was given'') (cr_guard res)\<rparr>)
     else try_bind (cone_read env dir (co_base o')) (\<lambda>inp. Inr (case inp of
        None \<Rightarrow> res\<lparr>cr_guard := fall GuardNoBase (ce_quote env (co_base o') @ S '' is not a commit in this repository'') (cr_guard res)\<rparr>
      | Some inp \<Rightarrow> cone_of env (co_base o') (share_of o') inp)))"

text \<open>The check of a cone against the changes of a full plan.\<close>

definition MissedUpdates :: "gostring list \<Rightarrow> gostring list \<Rightarrow> gostring list" where
  "MissedUpdates fullChanges targets = sort (filter (\<lambda>c. stripKeys c \<notin> stripKeys ` set targets) fullChanges)"

end
