(* ===== verification/Approval.thy ===== *)
theory Approval
  imports Addrs SetDigest GoBytes "HOL-Library.AList"
begin

text \<open>
  The approval of a saved plan, \<open>internal/live/approval\<close>: a plan is reduced to rows, one per managed
  resource instance it acts on, the planned values of a row are rendered canonically, and the approved
  rows are compared with those of a fresh plan.

  A value of the cty library is a tree of the cases \<open>renderValue\<close> tells apart, its elements in the
  order its iterator gives them; of its marks only the sensitive one matters.  SHA-256, with its hex
  form, is a parameter; so is the decoding of a change against the provider's schema.
\<close>

section \<open>Values\<close>

datatype cty_value =
    CtyNil
  | CtySensitive cty_value
  | CtyUnknown
  | CtyNull
  | CtyString gostring
  | CtyNumber gostring
  | CtyBool bool
  | CtySet "cty_value list"
  | CtyList "cty_value list"
  | CtyObject "(gostring \<times> cty_value) list"
  | CtyOther gostring

definition unknownToken :: gostring where "unknownToken = S ''(known after apply)''"

definition digestOf :: "(gostring \<Rightarrow> gostring) \<Rightarrow> gostring \<Rightarrow> gostring" where
  "digestOf sha256 s = S ''sensitive:sha256:'' @ sha256 s"

text \<open>
  The text of a value and whether anything in it is unknown.  \<open>renderElements\<close> gets a container its
  caller has unmarked, so its own handling of marks has nothing to do.
\<close>

fun renderValue :: "(gostring \<Rightarrow> gostring) \<Rightarrow> cty_value \<Rightarrow> gostring \<times> bool"
  and renderElements :: "(gostring \<Rightarrow> gostring) \<Rightarrow> cty_value list \<Rightarrow> gostring list \<times> bool"
  and renderPairs :: "(gostring \<Rightarrow> gostring) \<Rightarrow> (gostring \<times> cty_value) list \<Rightarrow> (gostring \<times> gostring) list \<times> bool" where
  "renderValue sha256 CtyNil = (S ''absent'', False)"
| "renderValue sha256 (CtySensitive v) = (let (inner, unknown) = renderValue sha256 v in (digestOf sha256 inner, unknown))"
| "renderValue sha256 CtyUnknown = (unknownToken, True)"
| "renderValue sha256 CtyNull = (S ''null'', False)"
| "renderValue sha256 (CtyString s) = (S ''s:'' @ s, False)"
| "renderValue sha256 (CtyNumber n) = (S ''n:'' @ n, False)"
| "renderValue sha256 (CtyBool b) = (if b then S ''b:true'' else S ''b:false'', False)"
| "renderValue sha256 (CtySet vs) = (let (parts, unknown) = renderElements sha256 vs in
     (S ''set{'' @ join_str (S '','') (sort parts) @ S ''}'', unknown))"
| "renderValue sha256 (CtyList vs) = (let (parts, unknown) = renderElements sha256 vs in
     (S ''list['' @ join_str (S '','') parts @ S '']'', unknown))"
| "renderValue sha256 (CtyObject ms) = (let (pairs, unknown) = renderPairs sha256 ms in
     (S ''obj{'' @ join_str (S '','') (map (\<lambda>(k, v). k @ S ''='' @ v) (sort_key (\<lambda>p. p) pairs)) @ S ''}'', unknown))"
| "renderValue sha256 (CtyOther s) = (S ''raw:'' @ s, False)"
| "renderElements sha256 [] = ([], False)"
| "renderElements sha256 (v # vs) =
     (let (text, unknown) = renderValue sha256 v; (parts, rest) = renderElements sha256 vs in (text # parts, unknown \<or> rest))"
| "renderPairs sha256 [] = ([], False)"
| "renderPairs sha256 ((k, v) # ms) =
     (let (text, unknown) = renderValue sha256 v; (pairs, rest) = renderPairs sha256 ms in ((k, text) # pairs, unknown \<or> rest))"

record attr =
  at_text :: gostring
  at_unknown :: bool

text \<open>A map by attribute name is an association list with each name once.\<close>

type_synonym attrs = "(gostring \<times> attr) list"

record row_values =
  vl_decoded :: bool
  vl_before :: attrs
  vl_after :: attrs
  vl_before_null :: bool
  vl_after_null :: bool

fun add_attrs :: "(gostring \<Rightarrow> gostring) \<Rightarrow> bool \<Rightarrow> (gostring \<times> cty_value) list \<Rightarrow> attrs \<Rightarrow> attrs" where
  "add_attrs sha256 sensitive [] out = out"
| "add_attrs sha256 sensitive ((k, v) # ms) out =
     (let (text, unknown) = renderValue sha256 v
      in add_attrs sha256 sensitive ms
           (AList.update k \<lparr>at_text = (if sensitive then digestOf sha256 text else text), at_unknown = unknown\<rparr> out))"

definition renderAttrs :: "(gostring \<Rightarrow> gostring) \<Rightarrow> cty_value \<Rightarrow> attrs \<times> bool" where
  "renderAttrs sha256 obj =
     (let (sensitive, obj) = (case obj of CtySensitive v \<Rightarrow> (True, v) | v \<Rightarrow> (False, v)) in
      case obj of CtyObject ms \<Rightarrow> (add_attrs sha256 sensitive ms [], False) | _ \<Rightarrow> ([], True))"

definition no_values :: row_values where
  "no_values = \<lparr>vl_decoded = False, vl_before = [], vl_after = [], vl_before_null = False, vl_after_null = False\<rparr>"

text \<open>\<open>None\<close> is a change with no schema or one that does not decode.\<close>

definition valuesOf :: "(gostring \<Rightarrow> gostring) \<Rightarrow> (cty_value \<times> cty_value) option \<Rightarrow> row_values" where
  "valuesOf sha256 decoded = (case decoded of None \<Rightarrow> no_values
     | Some (before, after) \<Rightarrow>
       (let (b, bnull) = renderAttrs sha256 before; (a, anull) = renderAttrs sha256 after in
        \<lparr>vl_decoded = True, vl_before = b, vl_after = a, vl_before_null = bnull, vl_after_null = anull\<rparr>))"

section \<open>Comparing values\<close>

text \<open>The names come in the order of a Go map; \<open>CompareValues\<close> sorts what is reported.\<close>

definition compareSide :: "gostring \<Rightarrow> attrs \<Rightarrow> attrs \<Rightarrow> bool \<Rightarrow> bool \<Rightarrow> gostring list" where
  "compareSide side approved fresh approvedNull freshNull =
     (if approvedNull \<noteq> freshNull then [side @ S '' (one plan has no object here)'']
      else if approvedNull then []
      else map (\<lambda>name. side @ r_dot # name) (filter (\<lambda>name.
        (case (map_of approved name, map_of fresh name) of
           (Some a, Some f) \<Rightarrow> \<not> (at_unknown a \<or> at_unknown f) \<and> at_text a \<noteq> at_text f
         | _ \<Rightarrow> True)) (remdups (map fst approved @ map fst fresh))))"

definition CompareValues :: "row_values \<Rightarrow> row_values \<Rightarrow> gostring list" where
  "CompareValues approved fresh =
     (if \<not> vl_decoded approved \<or> \<not> vl_decoded fresh then []
      else sort (compareSide (S ''before'') (vl_before approved) (vl_before fresh) (vl_before_null approved) (vl_before_null fresh)
        @ compareSide (S ''after'') (vl_after approved) (vl_after fresh) (vl_after_null approved) (vl_after_null fresh)))"

section \<open>Rows\<close>

datatype action =
    NoOp | Create | Read | Update | DeleteThenCreate | CreateThenDelete | DeleteAction | Forget | ForgetThenCreate

definition action_string :: "action \<Rightarrow> gostring" where
  "action_string a = (case a of NoOp \<Rightarrow> S ''NoOp'' | Create \<Rightarrow> S ''Create'' | Read \<Rightarrow> S ''Read'' | Update \<Rightarrow> S ''Update''
     | DeleteThenCreate \<Rightarrow> S ''DeleteThenCreate'' | CreateThenDelete \<Rightarrow> S ''CreateThenDelete'' | DeleteAction \<Rightarrow> S ''Delete''
     | Forget \<Rightarrow> S ''Forget'' | ForgetThenCreate \<Rightarrow> S ''ForgetThenCreate'')"

definition IdentityNone :: gostring where "IdentityNone = S ''-''"
definition IdentityUnknown :: gostring where "IdentityUnknown = S ''?''"

record row =
  rw_address :: gostring
  rw_action :: gostring
  rw_identity :: gostring
  rw_values :: row_values

definition row_string :: "row \<Rightarrow> gostring" where
  "row_string r = rw_address r @ S ''  '' @ rw_action r @ S ''  '' @ rw_identity r"

text \<open>
  An object of the prior state: its attributes are empty, are not JSON, or are a JSON value.  Deposed
  objects are by deposed key; the empty key, \<open>states.NotDeposed\<close>, is the current object.
\<close>

datatype attrs_json = NoAttrs | BadAttrs | Attrs json

record prior_instance =
  pi_current :: "attrs_json option"
  pi_deposed :: "gostring \<rightharpoonup> attrs_json"

type_synonym prior_state = "abs_resource_instance \<rightharpoonup> prior_instance"

text \<open>The values of a change are in their encoded form, empty when there is none.\<close>

record change =
  ch_addr :: abs_resource_instance
  ch_deposed :: gostring
  ch_action :: action
  ch_before :: gostring
  ch_after :: gostring

record output_change =
  oc_addr :: gostring
  oc_before :: gostring
  oc_after :: gostring

record plan =
  pl_changes :: "change option list option"
  pl_outputs :: "output_change list"
  pl_prior :: "prior_state option"
  pl_targets :: "targetable list"

definition renderAddress :: "unicode \<Rightarrow> abs_resource_instance \<Rightarrow> gostring \<Rightarrow> gostring" where
  "renderAddress u addr deposed =
     (if deposed = [] then abs_resource_instance_string u addr
      else abs_resource_instance_string u addr @ S '' (deposed '' @ deposed @ S '')'')"

text \<open>Decoding the attributes into a map, and the id into a string: an object or null decodes into
  the map, a string or null into the string.\<close>

definition identity_of :: "attrs_json \<Rightarrow> gostring" where
  "identity_of attrs = (case attrs of NoAttrs \<Rightarrow> IdentityNone | BadAttrs \<Rightarrow> IdentityUnknown
     | Attrs (JObj ms) \<Rightarrow> (case map_of (rev ms) (S ''id'') of Some (JStr i) \<Rightarrow> if i = [] then IdentityUnknown else i
         | _ \<Rightarrow> IdentityUnknown)
     | Attrs _ \<Rightarrow> IdentityUnknown)"

definition priorIdentity :: "prior_state option \<Rightarrow> abs_resource_instance \<Rightarrow> gostring \<Rightarrow> gostring" where
  "priorIdentity prior addr deposed =
     (case prior of None \<Rightarrow> IdentityNone
      | Some st \<Rightarrow>
     (case st addr of None \<Rightarrow> IdentityNone
      | Some inst \<Rightarrow>
     (case (if deposed = [] then pi_current inst else pi_deposed inst deposed) of None \<Rightarrow> IdentityNone
      | Some attrs \<Rightarrow> identity_of attrs)))"

text \<open>\<open>sort.Slice\<close> leaves rows with one string in some order; here they keep theirs.\<close>

definition sort_rows :: "row list \<Rightarrow> row list" where
  "sort_rows rows = sort_key row_string rows"

definition row_of :: "(gostring \<Rightarrow> gostring) \<Rightarrow> unicode \<Rightarrow> (change \<Rightarrow> (cty_value \<times> cty_value) option) \<Rightarrow> prior_state option \<Rightarrow> change \<Rightarrow> row" where
  "row_of sha256 u decode prior c = \<lparr>rw_address = renderAddress u (ch_addr c) (ch_deposed c),
     rw_action = action_string (ch_action c), rw_identity = priorIdentity prior (ch_addr c) (ch_deposed c),
     rw_values = valuesOf sha256 (decode c)\<rparr>"

definition acted_on :: "change option \<Rightarrow> bool" where
  "acted_on c = (case c of None \<Rightarrow> False
     | Some c \<Rightarrow> res_mode (ri_resource (ari_resource (ch_addr c))) = ManagedResourceMode \<and> ch_action c \<noteq> NoOp)"

definition ChangeSet :: "(gostring \<Rightarrow> gostring) \<Rightarrow> unicode \<Rightarrow> (change \<Rightarrow> (cty_value \<times> cty_value) option) \<Rightarrow> plan option \<Rightarrow> row list" where
  "ChangeSet sha256 u decode plan =
     (case plan of None \<Rightarrow> []
      | Some p \<Rightarrow>
     (case pl_changes p of None \<Rightarrow> []
      | Some cs \<Rightarrow> sort_rows (map (row_of sha256 u decode (pl_prior p)) (map the (filter acted_on cs)))))"

section \<open>Comparing rows\<close>

record value_drift =
  vd_row :: row
  vd_attrs :: "gostring list"

record difference =
  df_extra :: "row list"
  df_missing :: "row list"
  df_drifted :: "value_drift list"

definition difference_empty :: "difference \<Rightarrow> bool" where
  "difference_empty d \<longleftrightarrow> df_extra d = [] \<and> df_missing d = [] \<and> df_drifted d = []"

definition rows_at :: "gostring \<Rightarrow> row list \<Rightarrow> row list" where
  "rows_at k rows = filter (\<lambda>r. row_string r = k) rows"

fun drifts :: "row list \<Rightarrow> row list \<Rightarrow> value_drift list" where
  "drifts (a # as) (f # fs) =
     (let attrs = CompareValues (rw_values a) (rw_values f)
      in if attrs \<noteq> [] then \<lparr>vd_row = f, vd_attrs = attrs\<rparr> # drifts as fs else drifts as fs)"
| "drifts _ _ = []"

text \<open>One turn of the loop over the sorted keys; \<open>byKey\<close> holds the last row seen under a key, the
  fresh plan's after the approved one's.\<close>

definition compare_key :: "row list \<Rightarrow> row list \<Rightarrow> gostring \<Rightarrow> difference \<Rightarrow> difference" where
  "compare_key approved fresh k d =
     (let a = rows_at k approved; f = rows_at k fresh; byKey = last (a @ f);
          n = int (length f) - int (length a)
      in \<lparr>df_extra = df_extra d @ replicate (nat n) byKey, df_missing = df_missing d @ replicate (nat (- n)) byKey,
          df_drifted = df_drifted d @ drifts a f\<rparr>)"

definition Compare :: "row list \<Rightarrow> row list \<Rightarrow> difference" where
  "Compare approved fresh =
     fold (compare_key approved fresh) (sort (remdups (map row_string (approved @ fresh))))
       \<lparr>df_extra = [], df_missing = [], df_drifted = []\<rparr>"

end
