(* ===== verification/JointCheck.thy ===== *)
theory JointCheck
  imports Approval
begin

text \<open>
  The check of the sensitive values a joint plan file left out, \<open>internal/command/joint_saved.go\<close>: the
  file keeps a keyed hash of each, the fresh plan's values are checked against them, and those that match
  are put back into the approved plan before the two are compared.

  What the cty packages do with a value (decoding, walking and rewriting at a path, encoding), the schema
  of a change, HMAC and the printing of a path are parameters; a value is then a \<open>'v\<close>, a type a \<open>'ty\<close>.
\<close>

section \<open>Hashes\<close>

record path_step =
  js_attr :: gostring
  js_key :: gostring

record sensitive_hash =
  sh_unit :: gostring
  sh_address :: gostring
  sh_output :: bool
  sh_side :: gostring
  sh_path :: "path_step list"
  sh_raw :: bool
  sh_hmac :: gostring

datatype 'v path_elem = GetAttr gostring | Index 'v

text \<open>Errors are texts on the left; marshalling a value may fail, with an error nobody reads.\<close>

record ('ty, 'v) cty_ops =
  cy_hmac :: "gostring \<Rightarrow> gostring \<Rightarrow> gostring"
  cy_schema :: "change \<Rightarrow> 'ty option"
  cy_dynamic :: 'ty
  cy_key :: "gostring \<Rightarrow> gostring + 'v"
  cy_decode :: "gostring \<Rightarrow> 'ty \<Rightarrow> gostring + 'v"
  cy_null :: "'ty \<Rightarrow> 'v"
  cy_apply :: "'v path_elem list \<Rightarrow> 'v \<Rightarrow> gostring + 'v"
  cy_known :: "'v \<Rightarrow> bool"
  cy_marshal :: "'v \<Rightarrow> gostring option"
  cy_transform :: "'v \<Rightarrow> 'v path_elem list \<Rightarrow> 'v \<Rightarrow> gostring + 'v"
  cy_encode :: "'v \<Rightarrow> 'ty \<Rightarrow> gostring + gostring"
  cy_format :: "'v path_elem list \<Rightarrow> gostring"

definition bool_text :: "bool \<Rightarrow> gostring" where
  "bool_text b = (if b then S ''true'' else S ''false'')"

definition jointSensitiveMAC :: "('ty, 'v) cty_ops \<Rightarrow> gostring \<Rightarrow> sensitive_hash \<Rightarrow> gostring \<Rightarrow> gostring" where
  "jointSensitiveMAC cy key h payload = cy_hmac cy key
     (S ''choudoufu-joint-sensitive-v1'' @ 0 # sh_address h @ 0 # bool_text (sh_output h) @ 0 # sh_side h @ 0 # bool_text (sh_raw h) @ 0 #
      concat (map (\<lambda>st. js_attr st @ 0 # js_key st @ [0]) (sh_path h)) @ 0 # payload)"

fun jointDecodePath :: "('ty, 'v) cty_ops \<Rightarrow> path_step list \<Rightarrow> gostring + 'v path_elem list" where
  "jointDecodePath cy [] = Inr []"
| "jointDecodePath cy (st # sts) =
     (case (if js_key st = [] then Inr (GetAttr (js_attr st)) else map_sum id Index (cy_key cy (js_key st))) of
        Inl e \<Rightarrow> Inl e
      | Inr p \<Rightarrow> map_sum id (\<lambda>ps. p # ps) (jointDecodePath cy sts))"

definition trim_dot :: "gostring \<Rightarrow> gostring" where
  "trim_dot s = (case s of r # rs \<Rightarrow> if r = r_dot then rs else s | [] \<Rightarrow> s)"

definition hash_where :: "('ty, 'v) cty_ops \<Rightarrow> sensitive_hash \<Rightarrow> gostring" where
  "hash_where cy h =
     (let p = (case jointDecodePath cy (sh_path h) of Inl _ \<Rightarrow> [] | Inr p \<Rightarrow> p);
          at = (if p = [] then sh_side h else sh_side h @ S '' '' @ trim_dot (cy_format cy p))
      in S ''unit '' @ sh_unit h @ S '': '' @ sh_address h @ S '' (sensitive '' @ at @ S '')'')"

definition SetPath :: "('ty, 'v) cty_ops \<Rightarrow> 'v \<Rightarrow> 'v path_elem list \<Rightarrow> 'v \<Rightarrow> gostring + 'v" where
  "SetPath cy v path new = (if path = [] then Inr new else cy_transform cy v path new)"

section \<open>The changes of a plan by address\<close>

text \<open>\<open>ChangeAddress\<close> prints an address as \<open>renderAddress\<close> does.  Of two changes at one address the map of
  the code holds the last.\<close>

definition ChangeAddress :: "unicode \<Rightarrow> change \<Rightarrow> gostring" where
  "ChangeAddress u c = (if ch_deposed c = [] then abs_resource_instance_string u (ch_addr c)
     else abs_resource_instance_string u (ch_addr c) @ S '' (deposed '' @ ch_deposed c @ S '')'')"

definition find_last :: "('a \<Rightarrow> bool) \<Rightarrow> 'a list \<Rightarrow> 'a option" where
  "find_last P xs = find P (rev xs)"

fun update_first :: "('a \<Rightarrow> bool) \<Rightarrow> ('a \<Rightarrow> 'a) \<Rightarrow> 'a list \<Rightarrow> 'a list" where
  "update_first P f [] = []"
| "update_first P f (x # xs) = (if P x then f x # xs else x # update_first P f xs)"

definition update_last :: "('a \<Rightarrow> bool) \<Rightarrow> ('a \<Rightarrow> 'a) \<Rightarrow> 'a list \<Rightarrow> 'a list" where
  "update_last P f xs = rev (update_first P f (rev xs))"

definition change_at :: "unicode \<Rightarrow> gostring \<Rightarrow> change option \<Rightarrow> bool" where
  "change_at u addr c = (case c of None \<Rightarrow> False | Some c \<Rightarrow> ChangeAddress u c = addr)"

definition resource_change :: "unicode \<Rightarrow> plan \<Rightarrow> gostring \<Rightarrow> change option" where
  "resource_change u p addr = (case pl_changes p of None \<Rightarrow> None
     | Some cs \<Rightarrow> (case find_last (change_at u addr) cs of None \<Rightarrow> None | Some c \<Rightarrow> c))"

definition output_change_at :: "plan \<Rightarrow> gostring \<Rightarrow> output_change option" where
  "output_change_at p addr = (if pl_changes p = None then None else find_last (\<lambda>oc. oc_addr oc = addr) (pl_outputs p))"

definition change_side :: "gostring \<Rightarrow> change \<Rightarrow> gostring" where
  "change_side side c = (if side = S ''before'' then ch_before c else ch_after c)"

definition output_side :: "gostring \<Rightarrow> output_change \<Rightarrow> gostring" where
  "output_side side c = (if side = S ''before'' then oc_before c else oc_after c)"

text \<open>The encoded value of a side, and storing one, in an approved plan there may not be.\<close>

definition approved_side :: "unicode \<Rightarrow> sensitive_hash \<Rightarrow> plan option \<Rightarrow> gostring option" where
  "approved_side u h ap = (case ap of None \<Rightarrow> None
     | Some p \<Rightarrow> if sh_output h then map_option (output_side (sh_side h)) (output_change_at p (sh_address h))
         else map_option (change_side (sh_side h)) (resource_change u p (sh_address h)))"

definition put_side :: "unicode \<Rightarrow> sensitive_hash \<Rightarrow> gostring \<Rightarrow> plan \<Rightarrow> plan" where
  "put_side u h enc p =
     (if sh_output h then p\<lparr>pl_outputs := update_last (\<lambda>oc. oc_addr oc = sh_address h)
          (\<lambda>oc. if sh_side h = S ''before'' then oc\<lparr>oc_before := enc\<rparr> else oc\<lparr>oc_after := enc\<rparr>) (pl_outputs p)\<rparr>
      else p\<lparr>pl_changes := map_option (update_last (change_at u (sh_address h))
          (map_option (\<lambda>c. if sh_side h = S ''before'' then c\<lparr>ch_before := enc\<rparr> else c\<lparr>ch_after := enc\<rparr>))) (pl_changes p)\<rparr>)"

section \<open>The check\<close>

text \<open>The empty text is the value that is not there, read as a null of the type.\<close>

definition decode_side :: "('ty, 'v) cty_ops \<Rightarrow> 'ty \<Rightarrow> gostring \<Rightarrow> gostring + 'v" where
  "decode_side cy ty enc = (if enc = [] then Inr (cy_null cy ty) else cy_decode cy enc ty)"

definition put_back :: "('ty, 'v) cty_ops \<Rightarrow> 'ty \<Rightarrow> 'v path_elem list \<Rightarrow> 'v \<Rightarrow> gostring \<Rightarrow> gostring + gostring" where
  "put_back cy ty path new enc =
     (case decode_side cy ty enc of Inl e \<Rightarrow> Inl (S '': the reviewed plan's value cannot be read: '' @ e)
      | Inr whole \<Rightarrow>
     (case SetPath cy whole path new of Inl e \<Rightarrow> Inl (S '': putting the value back into the reviewed plan failed: '' @ e)
      | Inr whole \<Rightarrow> map_sum (\<lambda>e. S '': putting the value back into the reviewed plan failed: '' @ e) id (cy_encode cy whole ty)))"

text \<open>
  The value at a hash, \<open>enc\<close> the fresh side and \<open>av\<close> the approved one: on the left what is wrong with it,
  on the right what to store.
\<close>

definition another_value :: gostring where
  "another_value = S '': this apply plans another value than the reviewed plan''"

definition check_value :: "('ty, 'v) cty_ops \<Rightarrow> gostring \<Rightarrow> sensitive_hash \<Rightarrow> 'ty \<Rightarrow> gostring \<Rightarrow> gostring option \<Rightarrow> gostring + gostring option" where
  "check_value cy key h ty enc av =
     (if sh_raw h then (if jointSensitiveMAC cy key h enc \<noteq> sh_hmac h then Inl another_value else Inr (map_option (\<lambda>_. enc) av))
      else (case jointDecodePath cy (sh_path h) of Inl e \<Rightarrow> Inl (S '': '' @ e)
      | Inr path \<Rightarrow>
     (case decode_side cy ty enc of Inl e \<Rightarrow> Inl (S '': this apply's value cannot be read: '' @ e)
      | Inr whole \<Rightarrow>
     (case cy_apply cy path whole of Inl _ \<Rightarrow> Inl (S '': this apply plans no value there'')
      | Inr at \<Rightarrow>
        if sh_hmac h \<noteq> [] \<and> cy_known cy at
          \<and> (case cy_marshal cy at of None \<Rightarrow> True | Some payload \<Rightarrow> jointSensitiveMAC cy key h payload \<noteq> sh_hmac h)
        then Inl another_value
        else (case av of None \<Rightarrow> Inr None | Some enc \<Rightarrow> map_sum id Some (put_back cy ty path at enc))))))"

text \<open>One hash: the line it adds, and the approved plan after it.\<close>

definition check_hash :: "('ty, 'v) cty_ops \<Rightarrow> unicode \<Rightarrow> gostring \<Rightarrow> plan \<Rightarrow> sensitive_hash \<Rightarrow> plan option \<Rightarrow> gostring list \<times> plan option" where
  "check_hash cy u key fresh h ap =
     (let complain = (\<lambda>e. ([hash_where cy h @ e], ap));
          value = (\<lambda>ty enc. case check_value cy key h ty enc (approved_side u h ap) of
              Inl e \<Rightarrow> complain e
            | Inr None \<Rightarrow> ([], ap)
            | Inr (Some enc) \<Rightarrow> ([], map_option (put_side u h enc) ap))
      in if sh_hmac h \<noteq> [] \<and> key = [] then complain (S '': the key of the plan's hashes is not here'')
      else if sh_output h then (case output_change_at fresh (sh_address h) of None \<Rightarrow> ([], ap)
        | Some oc \<Rightarrow> value (cy_dynamic cy) (output_side (sh_side h) oc))
      else (case resource_change u fresh (sh_address h) of None \<Rightarrow> ([], ap)
        | Some rc \<Rightarrow>
            if sh_raw h then value (cy_dynamic cy) (change_side (sh_side h) rc)
            else (case cy_schema cy rc of
                None \<Rightarrow> complain (S '': this run has no schema for '' @ res_type (ri_resource (ari_resource (ch_addr rc))) @ S '' to check it with'')
              | Some ty \<Rightarrow> value ty (change_side (sh_side h) rc))))"

fun check_hashes :: "('ty, 'v) cty_ops \<Rightarrow> unicode \<Rightarrow> gostring \<Rightarrow> plan \<Rightarrow> sensitive_hash list \<Rightarrow> plan option \<Rightarrow> gostring list \<times> plan option" where
  "check_hashes cy u key fresh [] ap = ([], ap)"
| "check_hashes cy u key fresh (h # hs) ap =
     (let (line, ap) = check_hash cy u key fresh h ap; (lines, ap) = check_hashes cy u key fresh hs ap in (line @ lines, ap))"

definition jointCheckSensitive :: "('ty, 'v) cty_ops \<Rightarrow> unicode \<Rightarrow> sensitive_hash list \<Rightarrow> gostring \<Rightarrow> plan option \<Rightarrow> plan option
    \<Rightarrow> gostring list \<times> plan option" where
  "jointCheckSensitive cy u hashes key fresh ap =
     (case fresh of None \<Rightarrow> ([], ap)
      | Some p \<Rightarrow> if pl_changes p = None then ([], ap)
         else (let (lines, ap) = check_hashes cy u key p hashes ap in (sort lines, ap)))"

section \<open>The refusal\<close>

definition jointCappedLines :: "gostring list \<Rightarrow> gostring" where
  "jointCappedLines lines =
     concat (map (\<lambda>l. S ''  '' @ l @ [10]) (take 10 lines))
       @ (if length lines > 10 then S ''  ... and '' @ itoa_nat (length lines - 10) @ S '' more'' @ [10] else [])"

definition ExitApprovalRefused :: int where "ExitApprovalRefused = 3"

definition summaryJointSensitive :: gostring where
  "summaryJointSensitive = S ''The joint plan's sensitive values do not match this apply''"

definition jointSensitiveDetail :: "gostring \<Rightarrow> gostring \<Rightarrow> gostring list \<Rightarrow> gostring" where
  "jointSensitiveDetail path rerun lines =
     S ''The plan file '' @ path @ S '' leaves out the sensitive values it planned and keeps a keyed hash of each. This apply planned again, and these values do not match the reviewed plan's, or cannot be checked:''
     @ [10] @ jointCappedLines lines @ [10]
     @ (if rerun \<noteq> [] then S ''Plan again with the command that made the reviewed plan, review that plan, and apply it:''
          @ [10] @ S ''  '' @ rerun @ [10, 10] else [])
     @ S ''Exit status '' @ itoa ExitApprovalRefused @ S '' says: send it back to review. Nothing was applied.''"

end
