(* ===== verification/ApprovalGate.thy ===== *)
theory ApprovalGate
  imports JointCheck
begin

text \<open>
  The gate of an apply given a saved plan, \<open>internal/command/live_approval.go\<close> and its use in
  \<open>apply.go\<close> and \<open>backend/local/plan_guard.go\<close>: the file is read for what was approved, the fresh plan
  is compared with it, and the outputs of other estates the plan was made on are compared with what
  those estates have recorded.  An apply of a joint plan file first checks the sensitive values that
  file left out, \<open>joint_saved.go\<close>; one of a cone plan is held to the cone that was approved,
  \<open>live_cone_plan.go\<close>.  Reading the file and the record store are parameters.
\<close>

definition summaryApprovalMismatch :: gostring where
  "summaryApprovalMismatch = S ''The approved plan no longer matches the live system''"

definition summaryApprovalWrongEstate :: gostring where
  "summaryApprovalWrongEstate = S ''The approved plan belongs to a different estate''"

definition summaryApprovalEstateOutputs :: gostring where
  "summaryApprovalEstateOutputs = S ''Another estate's applied outputs differ from the planned ones this plan was made on''"

text \<open>An error diagnostic: its summary and its detail.\<close>

type_synonym error_diag = "gostring \<times> gostring"

text \<open>The outputs read from other estates' plans, by estate and output name, each name once.\<close>

type_synonym planned_outputs = "(gostring \<times> (gostring \<times> gostring) list) list"

record approved_plan =
  ap_path :: gostring
  ap_estate :: gostring
  ap_plan :: "plan option"
  ap_outputs :: planned_outputs
  ap_rerun :: gostring

section \<open>Reading the file\<close>

text \<open>
  What the parts of the file give: \<open>Inl\<close> is the error of reading one.  The prior state is \<open>None\<close> when
  the file holds none; the estate is that of the configuration snapshot, empty without a live block.
\<close>

record saved_plan =
  sp_load :: "error_diag option"
  sp_local :: bool
  sp_plan :: "gostring + plan"
  sp_prior :: "gostring + prior_state option option"
  sp_estate :: "error_diag + gostring"
  sp_outputs :: "gostring + planned_outputs"

definition invalid_plan_file :: "gostring \<Rightarrow> error_diag" where
  "invalid_plan_file detail = (S ''Invalid plan file'', detail)"

definition estate_name :: "(gostring \<Rightarrow> gostring) \<Rightarrow> gostring \<Rightarrow> gostring" where
  "estate_name quote s = (if s = [] then S ''no live block, so it is a state-backed configuration'' else S ''estate '' @ quote s)"

definition approvalWrongEstateDetail :: "(gostring \<Rightarrow> gostring) \<Rightarrow> gostring \<Rightarrow> gostring \<Rightarrow> gostring \<Rightarrow> gostring" where
  "approvalWrongEstateDetail quote path fileEstate declared =
     quote path @ S '' was produced from a configuration with '' @ estate_name quote fileEstate
       @ S ''. This directory's configuration has '' @ estate_name quote declared @ S ''.'' @ [10, 10]
       @ S ''An estate is the unit of ownership here, so an approval for one estate says nothing about another: the markers, the records and the live objects are all different. Produce the artifact from this directory:''
       @ [10] @ S ''  choudoufu plan -out='' @ path @ [10, 10] @ S ''Nothing was applied.''"

definition readApprovedPlan :: "(gostring \<Rightarrow> gostring) \<Rightarrow> gostring \<Rightarrow> saved_plan \<Rightarrow> gostring option \<Rightarrow> error_diag + approved_plan" where
  "readApprovedPlan quote path saved live =
     (case sp_load saved of Some e \<Rightarrow> Inl e
      | None \<Rightarrow>
      if \<not> sp_local saved then Inl (S ''A saved cloud plan cannot be an approval artifact'',
        quote path @ S '' is a saved cloud plan, which records a run on a remote backend. A live-markers estate has no remote run to attach to. Produce the artifact with \"choudoufu plan -out\" in this directory.'')
      else (case sp_plan saved of
        Inl e \<Rightarrow> Inl (invalid_plan_file (S ''Failed to read the plan from '' @ quote path @ S '': '' @ e @ S ''.''))
      | Inr plan \<Rightarrow>
      (case sp_prior saved of
        Inl e \<Rightarrow> Inl (invalid_plan_file (S ''Failed to read the prior state snapshot from '' @ quote path @ S '': '' @ e @ S ''.''))
      | Inr prior \<Rightarrow>
      (let plan = (case prior of None \<Rightarrow> plan | Some st \<Rightarrow> plan\<lparr>pl_prior := st\<rparr>) in
      case sp_estate saved of
        Inl d \<Rightarrow> Inl d
      | Inr estate \<Rightarrow>
      (let declared = (case live of None \<Rightarrow> [] | Some e \<Rightarrow> e) in
      if estate \<noteq> declared then Inl (summaryApprovalWrongEstate, approvalWrongEstateDetail quote path estate declared)
      else (case sp_outputs saved of
        Inl e \<Rightarrow> Inl (invalid_plan_file (S ''Failed to read which estates' outputs '' @ quote path @ S '' read from their plans: '' @ e @ S ''.''))
      | Inr outputs \<Rightarrow> Inr \<lparr>ap_path = path, ap_estate = estate, ap_plan = Some plan, ap_outputs = outputs, ap_rerun = []\<rparr>))))))"

section \<open>The refusal\<close>

definition approvalRowList :: "row list \<Rightarrow> gostring" where
  "approvalRowList rows =
     concat (map (\<lambda>r. S ''  '' @ row_string r @ [10]) (take 10 rows))
       @ (if length rows > 10 then S ''  ... and '' @ itoa_nat (length rows - 10) @ S '' more'' @ [10] else [])"

definition drift_line :: "value_drift \<Rightarrow> gostring" where
  "drift_line d = S ''  '' @ row_string (vd_row d) @ [10]
     @ (if length (vd_attrs d) > 6
        then S ''      '' @ join_str (S '', '') (take 6 (vd_attrs d)) @ S '', and '' @ itoa_nat (length (vd_attrs d) - 6) @ S '' more'' @ [10]
        else S ''      '' @ join_str (S '', '') (vd_attrs d) @ [10])"

definition approvalDriftList :: "value_drift list \<Rightarrow> gostring" where
  "approvalDriftList drifted =
     concat (map drift_line (take 10 drifted))
       @ (if length drifted > 10 then S ''  ... and '' @ itoa_nat (length drifted - 10) @ S '' more'' @ [10] else [])"

definition approvalMismatchDetail :: "(gostring \<Rightarrow> gostring) \<Rightarrow> gostring \<Rightarrow> gostring \<Rightarrow> difference \<Rightarrow> gostring" where
  "approvalMismatchDetail quote path rerun d =
     S ''This apply read the live system and planned against what it found, the way every live-markers run does. The result is not the plan ''
     @ quote path @ S '' describes, so the approval that file carries does not cover what this apply would do, and it is refused before anything changes.'' @ [10, 10]
     @ (if df_extra d \<noteq> [] then S ''This apply would do, and the approved plan does not include:'' @ [10] @ approvalRowList (df_extra d) @ [10] else [])
     @ (if df_missing d \<noteq> [] then S ''The approved plan includes, and this apply would not do:'' @ [10] @ approvalRowList (df_missing d) @ [10] else [])
     @ (if df_drifted d \<noteq> [] then S ''Both plans make this change to this live object, and disagree about the values it writes:'' @ [10] @ approvalDriftList (df_drifted d) @ [10] else [])
     @ S ''Three things produce this. The live system moved between the plan and the apply. Another apply landed in between, so what that file approved has already happened. Or the configuration changed since the file was written.'' @ [10, 10]
     @ (if rerun \<noteq> [] then S ''The plan above is what the live system asks for now. Plan again with the command that made the reviewed plan, review that plan, and apply it:''
          @ [10] @ S ''  '' @ rerun
        else S ''The plan above is what the live system asks for now. Review it, and apply the artifact it produced:''
          @ [10] @ S ''  choudoufu plan -out='' @ path @ [10] @ S ''  choudoufu apply '' @ path)
     @ [10, 10] @ S ''Exit status '' @ itoa ExitApprovalRefused @ S '' says exactly this: send it back to review. Nothing was applied.''"

section \<open>The guards\<close>

text \<open>A guard gives its diagnostics and whether it set \<open>refused\<close>.\<close>

definition approvalGuard :: "(gostring \<Rightarrow> gostring) \<Rightarrow> (gostring \<Rightarrow> gostring) \<Rightarrow> unicode \<Rightarrow> (change \<Rightarrow> (cty_value \<times> cty_value) option)
    \<Rightarrow> approved_plan option \<Rightarrow> plan option \<Rightarrow> error_diag list \<times> bool" where
  "approvalGuard quote sha256 u decode approved plan =
     (case (approved, plan) of
        (Some a, Some p) \<Rightarrow>
          (let d = Compare (ChangeSet sha256 u decode (ap_plan a)) (ChangeSet sha256 u decode (Some p)) in
           if difference_empty d then ([], False)
           else ([(summaryApprovalMismatch, approvalMismatchDetail quote (ap_path a) (ap_rerun a) d)], True))
      | _ \<Rightarrow> ([], False))"

text \<open>
  What the record store gives for one output: an error that it is not recorded, another error, its
  canonical text, a value with none, or no entry.
\<close>

datatype output_read =
    ReadFails "error_diag list"
  | NotRecorded
  | Recorded gostring
  | Unrenderable gostring
  | NoEntry

definition output_text :: "output_read \<Rightarrow> gostring" where
  "output_text r = (case r of Recorded t \<Rightarrow> t | Unrenderable e \<Rightarrow> S ''(unrenderable: '' @ e @ S '')'' | _ \<Rightarrow> S ''(not recorded)'')"

definition output_row :: "(gostring \<Rightarrow> gostring) \<Rightarrow> gostring \<Rightarrow> gostring \<Rightarrow> gostring \<Rightarrow> gostring \<Rightarrow> gostring" where
  "output_row quote estate name want got = S ''  estate '' @ quote estate @ S '', output '' @ quote name @ S '': planned '' @ want
     @ S '', applied '' @ got @ [10]"

fun compare_outputs :: "(gostring \<Rightarrow> gostring) \<Rightarrow> (gostring \<Rightarrow> gostring \<Rightarrow> output_read) \<Rightarrow> gostring \<Rightarrow> (gostring \<times> gostring) list
    \<Rightarrow> error_diag list \<times> gostring list \<Rightarrow> error_diag list \<times> gostring list" where
  "compare_outputs quote reader estate [] acc = acc"
| "compare_outputs quote reader estate ((name, want) # outs) (diags, rows) =
     compare_outputs quote reader estate outs
       (case reader estate name of
          ReadFails ds \<Rightarrow> (diags @ ds, rows)
        | r \<Rightarrow> (diags, if output_text r \<noteq> want then rows @ [output_row quote estate name want (output_text r)] else rows))"

fun compare_estates :: "(gostring \<Rightarrow> gostring) \<Rightarrow> (gostring \<Rightarrow> gostring \<Rightarrow> output_read) \<Rightarrow> planned_outputs
    \<Rightarrow> error_diag list \<times> gostring list \<Rightarrow> error_diag list \<times> gostring list" where
  "compare_estates quote reader [] acc = acc"
| "compare_estates quote reader ((estate, outs) # rest) acc =
     compare_estates quote reader rest (compare_outputs quote reader estate (sort_key fst outs) acc)"

definition compareEstateOutputsFromPlan :: "(gostring \<Rightarrow> gostring) \<Rightarrow> gostring \<Rightarrow> planned_outputs
    \<Rightarrow> (gostring \<Rightarrow> gostring \<Rightarrow> output_read) \<Rightarrow> error_diag list \<times> bool" where
  "compareEstateOutputsFromPlan quote path planned reader =
     (let (diags, rows) = compare_estates quote reader (sort_key fst planned) ([], []) in
      if rows = [] then (diags, False)
      else (diags @ [(summaryApprovalEstateOutputs,
        quote path @ S '' was planned on other estates' planned outputs (-estate-outputs-from), so it covers this apply only once those estates have applied and recorded the same values. The record store says otherwise:''
        @ [10] @ concat rows @ [10]
        @ S ''Apply the upstream estate's approved plan first, or plan this estate again on what it has recorded:'' @ [10]
        @ S ''  choudoufu plan -out='' @ path @ [10, 10]
        @ S ''Exit status '' @ itoa ExitApprovalRefused @ S '' says exactly this: send it back to review. Nothing was applied.'')], True))"

text \<open>\<open>jointSensitiveCheck.guard\<close> around the approval guard, which compares the plan the check put back into.\<close>

definition joint_guard :: "(gostring \<Rightarrow> gostring) \<Rightarrow> (gostring \<Rightarrow> gostring) \<Rightarrow> unicode \<Rightarrow> (change \<Rightarrow> (cty_value \<times> cty_value) option)
    \<Rightarrow> ('ty, 'v) cty_ops \<Rightarrow> sensitive_hash list \<times> gostring \<Rightarrow> approved_plan \<Rightarrow> plan option \<Rightarrow> error_diag list \<times> bool" where
  "joint_guard quote sha256 u decode cy check approved plan =
     (case check of (hashes, key) \<Rightarrow>
       (let (lines, ap) = jointCheckSensitive cy u hashes key plan (ap_plan approved) in
        if lines \<noteq> [] then ([(summaryJointSensitive, jointSensitiveDetail (ap_path approved) (ap_rerun approved) lines)], True)
        else approvalGuard quote sha256 u decode (Some (approved\<lparr>ap_plan := ap\<rparr>)) plan))"

text \<open>
  The guard an apply of a saved plan installs: the comparison, for a joint plan file inside the check of
  its sensitive values, after the one of the other estates' outputs.
\<close>

definition plan_guard :: "(gostring \<Rightarrow> gostring) \<Rightarrow> (gostring \<Rightarrow> gostring) \<Rightarrow> unicode \<Rightarrow> (change \<Rightarrow> (cty_value \<times> cty_value) option)
    \<Rightarrow> (gostring \<Rightarrow> gostring \<Rightarrow> output_read) \<Rightarrow> ('ty, 'v) cty_ops \<Rightarrow> (sensitive_hash list \<times> gostring) option \<Rightarrow> approved_plan
    \<Rightarrow> plan option \<Rightarrow> error_diag list \<times> bool" where
  "plan_guard quote sha256 u decode reader cy joint approved plan =
     (let changeSet = (case joint of None \<Rightarrow> approvalGuard quote sha256 u decode (Some approved)
            | Some check \<Rightarrow> joint_guard quote sha256 u decode cy check approved)
      in if ap_outputs approved = [] then changeSet plan
      else (let (ds, refused) = compareEstateOutputsFromPlan quote (ap_path approved) (ap_outputs approved) reader;
                (ds', refused') = changeSet plan
            in (ds @ ds', refused \<or> refused')))"

section \<open>The cone\<close>

definition targetable_string :: "unicode \<Rightarrow> targetable \<Rightarrow> gostring" where
  "targetable_string u t = (case t of TModule p \<Rightarrow> module_string p | TModuleInstance m \<Rightarrow> module_instance_string u m
     | TConfigResource c \<Rightarrow> config_resource_string c | TAbsResource r \<Rightarrow> abs_resource_string u r
     | TAbsResourceInstance r \<Rightarrow> abs_resource_instance_string u r)"

definition targetSet :: "unicode \<Rightarrow> targetable list \<Rightarrow> gostring" where
  "targetSet u ts = join_with 10 (sort (map (targetable_string u) ts))"

definition coneApprovalCheck :: "(gostring \<Rightarrow> gostring) \<Rightarrow> unicode \<Rightarrow> gostring \<Rightarrow> gostring list \<Rightarrow> plan \<Rightarrow> error_diag list" where
  "coneApprovalCheck quote u path approved p =
     (if join_with 10 (sort approved) = targetSet u (pl_targets p) then []
      else [(summaryApprovalMismatch, quote path @ S '' was approved as a cone plan over '' @ itoa_nat (length approved)
        @ S '' address(es) (GitHub issue #1956), and this apply planned a different set. A cone that changed is a different approval: plan again with -cone and approve that.'')])"

definition coneApprovalGuard :: "(gostring \<Rightarrow> gostring) \<Rightarrow> unicode \<Rightarrow> gostring \<Rightarrow> gostring list
    \<Rightarrow> (plan option \<Rightarrow> error_diag list \<times> bool) \<Rightarrow> plan option \<Rightarrow> error_diag list \<times> bool" where
  "coneApprovalGuard quote u path approved inner plan =
     (case plan of None \<Rightarrow> inner plan
      | Some p \<Rightarrow> (let ds = coneApprovalCheck quote u path approved p in if ds \<noteq> [] then (ds, True) else inner plan))"

text \<open>The guard an apply installs: around the others the one of the cone, when the plan file is one of a
  cone, given its path and the targets approved.\<close>

definition apply_guard :: "(gostring \<Rightarrow> gostring) \<Rightarrow> (gostring \<Rightarrow> gostring) \<Rightarrow> unicode \<Rightarrow> (change \<Rightarrow> (cty_value \<times> cty_value) option)
    \<Rightarrow> (gostring \<Rightarrow> gostring \<Rightarrow> output_read) \<Rightarrow> ('ty, 'v) cty_ops \<Rightarrow> (sensitive_hash list \<times> gostring) option \<Rightarrow> approved_plan
    \<Rightarrow> (gostring \<times> gostring list) option \<Rightarrow> plan option \<Rightarrow> error_diag list \<times> bool" where
  "apply_guard quote sha256 u decode reader cy joint approved cone =
     (case cone of None \<Rightarrow> plan_guard quote sha256 u decode reader cy joint approved
      | Some (path, targets) \<Rightarrow> coneApprovalGuard quote u path targets (plan_guard quote sha256 u decode reader cy joint approved))"

text \<open>Whether the apply goes on, and the flag behind \<open>ExitApprovalRefused\<close>; with no plan it is not asked.\<close>

definition askPlanGuard :: "(plan option \<Rightarrow> error_diag list \<times> bool) \<Rightarrow> plan option \<Rightarrow> bool \<times> bool" where
  "askPlanGuard guard plan = (if plan = None then (True, False) else (let (ds, refused) = guard plan in (ds = [], refused)))"

end
