(* ===== verification/ConePlan.thy ===== *)
theory ConePlan
  imports ConeCompute ApprovalGate
begin

text \<open>
  A plan of a cone, \<open>internal/command/live_cone_plan.go\<close> and \<open>live_cone.go\<close>: the cone becomes the plan's
  targets and its scope, or a warning says why the whole estate is planned.  Parsing a target is a
  parameter, its errors on the left, at least one.  The approval half of that file is in theory \<open>ApprovalGate\<close>; the
  reading and writing of the JSON beside the plan file are left out.
\<close>

definition summaryConeFallback :: gostring where
  "summaryConeFallback = S ''Cone plan fell back to a full plan''"

record live_cone =
  lc_result :: cone_result
  lc_targets :: "targetable list"
  lc_extra :: "gostring list"
  lc_types :: "gostring list option"
  lc_fallback :: gostring

type_synonym target_parser = "gostring \<Rightarrow> error_diag \<times> error_diag list + targetable"

definition add_type :: "targetable \<Rightarrow> gostring list option \<Rightarrow> gostring list option" where
  "add_type t types = (case t of
       TAbsResource r \<Rightarrow> map_option (List.insert (res_type (ar_resource r))) types
     | TAbsResourceInstance r \<Rightarrow> map_option (List.insert (res_type (ri_resource (ari_resource r)))) types
     | _ \<Rightarrow> None)"

fun add_targets :: "target_parser \<Rightarrow> gostring list \<Rightarrow> live_cone \<times> error_diag list \<Rightarrow> live_cone \<times> error_diag list" where
  "add_targets parse [] acc = acc"
| "add_targets parse (s # ss) (lc, ds) = (case parse s of
       Inl (e, es) \<Rightarrow> add_targets parse ss (lc, ds @ e # es)
     | Inr t \<Rightarrow> add_targets parse ss (lc\<lparr>lc_targets := lc_targets lc @ [t], lc_types := add_type t (lc_types lc)\<rparr>, ds))"

fun add_extra :: "target_parser \<Rightarrow> gostring list \<Rightarrow> live_cone \<Rightarrow> live_cone" where
  "add_extra parse [] lc = lc"
| "add_extra parse (s # ss) lc = add_extra parse ss (case parse s of
       Inr (TAbsResource r) \<Rightarrow> lc\<lparr>lc_extra := List.insert (config_resource_string (abs_resource_config r)) (lc_extra lc)\<rparr>
     | _ \<Rightarrow> lc)"

definition newLiveCone :: "target_parser \<Rightarrow> cone_result \<Rightarrow> live_cone \<times> error_diag list" where
  "newLiveCone parse res =
     (let (lc, ds) = add_targets parse (cr_targets res)
        (\<lparr>lc_result = res, lc_targets = [], lc_extra = [], lc_types = Some [], lc_fallback = []\<rparr>, [])
      in (add_extra parse (cr_deleted res @ cr_refactor res) lc, ds))"

section \<open>The command line\<close>

definition planRejectCone :: "gostring \<Rightarrow> bool \<Rightarrow> gostring list \<Rightarrow> gostring list \<Rightarrow> bool \<Rightarrow> error_diag list" where
  "planRejectCone cone live targets excludes normal =
     (if cone = [] then []
      else if \<not> live then [(S ''-cone needs a configuration under live resource markers'',
        S ''-cone plans only the cone of a change within an estate (GitHub issue #1956), and this configuration has no live block. Add a live block, or drop -cone.'')]
      else if targets \<noteq> [] \<or> excludes \<noteq> [] then [(S ''-cone cannot be combined with -target or -exclude'',
        S ''-cone computes the plan's targets from the change between the base revision and the working tree. Rerun with -cone alone, or with -target alone.'')]
      else if \<not> normal then [(S ''-cone plans changes only'',
        S ''-cone is for a plan of a change; -destroy and -refresh-only cover the whole estate. Rerun without -cone.'')]
      else [])"

text \<open>A diagnostic with its severity.\<close>

datatype cone_diag = ConeError gostring gostring | ConeWarning gostring gostring

definition cone_errors :: "cone_diag list \<Rightarrow> bool" where
  "cone_errors ds \<longleftrightarrow> list_ex (\<lambda>d. case d of ConeError _ _ \<Rightarrow> True | ConeWarning _ _ \<Rightarrow> False) ds"

definition coneFallbackDiag :: "gostring \<Rightarrow> gostring \<Rightarrow> cone_diag" where
  "coneFallbackDiag kind reason = ConeWarning summaryConeFallback
     (S ''This plan covers the whole estate (guard '' @ kind @ S ''): '' @ reason @ S ''.'')"

text \<open>The text of the diagnostics of parsing the targets is a parameter.\<close>

definition liveConePrepare :: "cone_env \<Rightarrow> target_parser \<Rightarrow> (error_diag list \<Rightarrow> gostring) \<Rightarrow> gostring \<Rightarrow> live_cone option \<times> cone_diag list" where
  "liveConePrepare env parse err base =
     (case ce_wd env of Inl e \<Rightarrow> (None, [ConeError e []])
      | Inr wd \<Rightarrow>
     (case Compute env \<lparr>co_dir = wd, co_base = base, co_share = \<lparr>fl_man = 0, fl_exp = 0\<rparr>\<rparr> of
        Inl e \<Rightarrow> (None, [ConeError (S ''Cannot compute the cone'') e])
      | Inr res \<Rightarrow>
        if g_full (cr_guard res) then (None, [coneFallbackDiag (g_kind (cr_guard res)) (g_reason (cr_guard res))])
        else (case newLiveCone parse res of (lc, ds) \<Rightarrow>
          if ds \<noteq> [] then (None, [coneFallbackDiag GuardParse (S ''a cone address does not parse as a target: '' @ err ds)])
          else (Some lc, [ConeWarning (S ''Cone plan'')
            (S ''This plan covers the cone of the change since '' @ base @ S '': '' @ itoa_nat (cr_cone_blocks res) @ S '' of the estate's ''
              @ itoa_nat (cr_blocks res) @ S '' blocks (GitHub issue #1956). Drift and removals outside it are a full plan's to report.'')]))))"

definition coneWithPlannedOutputs :: "live_cone option \<Rightarrow> nat \<Rightarrow> live_cone option \<times> cone_diag list" where
  "coneWithPlannedOutputs lc plannedFrom =
     (if lc = None \<or> plannedFrom = 0 then (lc, [])
      else (None, [coneFallbackDiag (S ''estate-outputs-from'')
        (S ''-estate-outputs-from reads other estates' planned outputs, a change the diff cannot show, so every reader of them is planned'')]))"

definition LiveConeExitFull :: int where "LiveConeExitFull = 2"

text \<open>What \<open>live-cone\<close> prints and exits with; its JSON form is left out.\<close>

definition live_cone_command :: "cone_env \<Rightarrow> gostring \<Rightarrow> int \<times> gostring option" where
  "live_cone_command env base =
     (case ce_wd env of Inl e \<Rightarrow> (1, None)
      | Inr wd \<Rightarrow>
     (case Compute env \<lparr>co_dir = wd, co_base = base, co_share = \<lparr>fl_man = 0, fl_exp = 0\<rparr>\<rparr> of Inl e \<Rightarrow> (1, None)
      | Inr res \<Rightarrow> (if g_full (cr_guard res) then LiveConeExitFull else 0, Some (cone_Text res))))"

section \<open>The run\<close>

definition cone_scope :: "live_cone option \<Rightarrow> (config_resource \<Rightarrow> bool) option \<Rightarrow> (config_resource \<Rightarrow> bool) option" where
  "cone_scope lc inner = (case lc of None \<Rightarrow> inner
     | Some c \<Rightarrow> if lc_fallback c \<noteq> [] then inner
       else map_option (\<lambda>f addr. f addr \<or> config_resource_string addr \<in> set (lc_extra c)) inner)"

definition narrowTypes :: "live_cone option \<Rightarrow> gostring list \<Rightarrow> gostring list" where
  "narrowTypes lc types = (case lc of None \<Rightarrow> types
     | Some c \<Rightarrow> (if lc_fallback c \<noteq> [] then types else (case lc_types c of None \<Rightarrow> types
       | Some ts \<Rightarrow> filter (\<lambda>t. t \<in> set ts) types)))"

text \<open>The orphans the sweep found.\<close>

definition coneSweepGuard :: "unicode \<Rightarrow> abs_resource_instance list option \<Rightarrow> (config_resource \<Rightarrow> bool) option \<Rightarrow> gostring" where
  "coneSweepGuard u orphans scope =
     (case (orphans, scope) of
        (Some os, Some f) \<Rightarrow>
          (let outside = sort (map (abs_resource_instance_string u)
                 (filter (\<lambda>o'. \<not> f (abs_resource_config (containing_resource o'))) os)) in
           if outside = [] then []
           else S ''the sweep found '' @ itoa_nat (length outside)
             @ S '' marked object(s) outside the cone that no block declares, such as '' @ hd outside)
      | _ \<Rightarrow> [])"

definition PlanTargets :: "live_cone option \<Rightarrow> bool" where
  "PlanTargets lc = (case lc of None \<Rightarrow> False | Some c \<Rightarrow> lc_fallback c \<noteq> [])"

definition coneFromSidecar :: "target_parser \<Rightarrow> gostring \<Rightarrow> gostring \<Rightarrow> gostring list \<Rightarrow> live_cone \<times> error_diag list" where
  "coneFromSidecar parse base sha targets =
     newLiveCone parse ((new_result base)\<lparr>cr_base_sha := sha, cr_targets := targets, cr_deleted := targets\<rparr>)"

end
