(* ===== verification/ConeFacts.thy ===== *)
theory ConeFacts
  imports ConeCompute
begin

text \<open>
  What a cone promises: unless the guard says to plan everything, no block that reads a change is left
  out of its targets, and the targets are nothing but that, the co-managed blocks, what was deleted and
  what a refactoring names.  A provider block is no node of the graph, so what reads a change through
  its provider only is missed.
\<close>

section \<open>Readers\<close>

definition block_reads :: "root_module \<Rightarrow> gostring \<Rightarrow> gostring \<Rightarrow> bool" where
  "block_reads m k r \<longleftrightarrow> (\<exists>b. map_of (md_blocks m) k = Some b \<and> r \<in> set (bk_refs b))"

definition proper_module :: "root_module \<Rightarrow> bool" where
  "proper_module m \<longleftrightarrow> distinct (map fst (md_blocks m)) \<and> distinct (map fst (md_vars m))"

lemma map_of_proper: "proper_module m \<Longrightarrow> (k, b) \<in> set (md_blocks m) \<longleftrightarrow> map_of (md_blocks m) k = Some b"
  by (simp add: proper_module_def)

lemma readers_iff: "proper_module m \<Longrightarrow> k \<in> set (readers m r) \<longleftrightarrow> block_reads m k r"
  by (auto simp: readers_def block_reads_def map_of_proper [symmetric])

lemma descend_grows: "set out \<union> set queue \<subseteq> set (descend m out queue)"
  by (induction m out queue rule: descend.induct) auto

lemma descend_sound:
  "proper_module m \<Longrightarrow> x \<in> set (descend m out queue) \<Longrightarrow>
   x \<in> set out \<or> (\<exists>k\<in>set queue. (block_reads m)\<^sup>*\<^sup>* x k)"
proof (induction m out queue rule: descend.induct)
  case (2 m out k queue)
  show ?case
  proof (cases "k \<in> set out")
    case True
    then show ?thesis using 2 by auto
  next
    case False
    then consider "x \<in> set (k # out)" | r where "r \<in> set queue" "(block_reads m)\<^sup>*\<^sup>* x r"
      | r where "block_reads m r k" "(block_reads m)\<^sup>*\<^sup>* x r"
      using 2 by (auto simp: readers_iff)
    then show ?thesis
      by cases (auto intro: rtranclp.rtrancl_into_rtrancl)
  qed
qed simp

lemma descend_closed:
  "\<forall>k\<in>set out. set (readers m k) \<subseteq> set out \<union> set queue \<Longrightarrow> k \<in> set (descend m out queue) \<Longrightarrow>
   set (readers m k) \<subseteq> set (descend m out queue)"
proof (induction m out queue rule: descend.induct)
  case (2 m out a queue)
  show ?case
  proof (cases "a \<in> set out")
    case True
    then have "\<forall>k\<in>set out. set (readers m k) \<subseteq> set out \<union> set queue" using "2.prems"(1) by auto
    from "2.IH"(1) [OF True this] show ?thesis using "2.prems"(2) True by simp
  next
    case False
    then have "\<forall>k\<in>set (a # out). set (readers m k) \<subseteq> set (a # out) \<union> set (queue @ readers m a)"
      using "2.prems"(1) by auto
    from "2.IH"(2) [OF False this] show ?thesis using "2.prems"(2) False by simp
  qed
qed simp

lemma descendants_iff:
  assumes "proper_module m"
  shows "x \<in> set (descendants m nodes) \<longleftrightarrow> (\<exists>k\<in>set nodes. (block_reads m)\<^sup>*\<^sup>* x k)"
proof
  assume "x \<in> set (descendants m nodes)"
  then show "\<exists>k\<in>set nodes. (block_reads m)\<^sup>*\<^sup>* x k"
    using descend_sound [OF assms, of x "[]" nodes] by (auto simp: descendants_def)
next
  assume "\<exists>k\<in>set nodes. (block_reads m)\<^sup>*\<^sup>* x k"
  then obtain k where k: "k \<in> set nodes" "(block_reads m)\<^sup>*\<^sup>* x k" by blast
  have "k \<in> set (descend m [] nodes)" using descend_grows [of "[]" nodes m] k(1) by auto
  with k(2) have "x \<in> set (descend m [] nodes)"
  proof (induction rule: converse_rtranclp_induct)
    case (step y z)
    then show ?case
      using descend_closed [of "[]" m nodes z] readers_iff [OF assms, of y z] by auto
  qed
  then show "x \<in> set (descendants m nodes)" by (simp add: descendants_def)
qed

section \<open>The parsed module\<close>

lemma put_block_proper: "proper_module m \<Longrightarrow> proper_module (put_block k b m)"
  by (simp add: proper_module_def put_block_def distinct_update)

lemma fold_proper: "(\<And>x m. proper_module m \<Longrightarrow> proper_module (f x m)) \<Longrightarrow> proper_module m \<Longrightarrow> proper_module (fold f xs m)"
  by (induction xs arbitrary: m) auto

lemma add_block_proper:
  assumes "proper_module m"
  shows "proper_module (add_block u b m)"
proof -
  have "proper_module (m\<lparr>md_refactors := rs\<rparr>)" for rs using assms by (simp add: proper_module_def)
  then show ?thesis
    unfolding add_block_def Let_def
    by (auto intro!: put_block_proper fold_proper simp: assms split: prod.splits)
qed

lemma fold_update_distinct:
  "distinct (map fst vs) \<Longrightarrow> distinct (map fst (fold (\<lambda>(k, a). AList.update k (f a)) xs vs))"
  by (induction xs arbitrary: vs) (auto simp: distinct_update)

lemma parse_file_proper: "proper_module (fst acc) \<Longrightarrow> proper_module (fst (parse_file u p f acc))"
  unfolding parse_file_def
  by (auto simp: proper_module_def fold_update_distinct split: prod.splits sum.splits
      intro!: fold_proper [unfolded proper_module_def] add_block_proper [unfolded proper_module_def])

lemma parseModule_proper: "proper_module (fst (parseModule u p files))"
proof -
  have "proper_module (fst acc) \<Longrightarrow> proper_module (fst (fold (parse_file u p) fs acc))" for fs acc
  proof (induction fs arbitrary: acc)
    case (Cons f fs)
    then show ?case using parse_file_proper [OF Cons.prems, of u p f] by simp
  qed simp
  then show ?thesis by (simp add: parseModule_def proper_module_def)
qed

lemma modules_proper [simp]: "proper_module (base_module env inp)" "proper_module (head_module env inp)"
  by (simp_all add: base_module_def head_module_def parseModule_proper)

section \<open>The diff\<close>

definition same_block :: "root_module \<Rightarrow> gostring \<Rightarrow> block \<Rightarrow> bool" where
  "same_block base k b \<longleftrightarrow> (\<exists>b'. map_of (md_blocks base) k = Some b' \<and> bk_text b' = bk_text b)"

definition guarded :: "block \<Rightarrow> bool" where
  "guarded b \<longleftrightarrow> bk_kind b \<in> {KindProvider, KindLive, KindTerraform}"

lemma fall_full [simp]: "g_full (fall k r g)"
  by (simp add: fall_def)

lemma head_guard_iff: "head_guard key (bk_kind b) e = None \<longleftrightarrow> \<not> guarded b"
  by (cases "bk_kind b") (simp_all add: head_guard_def guarded_def)

lemma diff_head_spec:
  "diff_head base xs (g, ch) = (g', ch') \<Longrightarrow>
     (g_full g' \<longleftrightarrow> g_full g \<or> (\<exists>(k, b)\<in>set xs. guarded b \<and> \<not> same_block base k b))
     \<and> set ch' = set ch \<union> {k. \<exists>b. (k, b) \<in> set xs \<and> \<not> guarded b \<and> bk_kind b \<noteq> KindRefactor \<and> \<not> same_block base k b}"
proof (induction xs arbitrary: g ch)
  case (Cons x xs)
  obtain k b where x: "x = (k, b)" by fastforce
  have same: "(case map_of (md_blocks base) k of None \<Rightarrow> False | Some b' \<Rightarrow> bk_text b' = bk_text b) = same_block base k b"
    by (auto simp: same_block_def split: option.splits)
  show ?case
  proof (cases "same_block base k b")
    case True
    then show ?thesis using Cons by (auto simp: x same Let_def)
  next
    case False
    show ?thesis
    proof (cases "guarded b")
      case True
      then obtain kind reason where hg: "head_guard k (bk_kind b) (map_of (md_blocks base) k \<noteq> None) = Some (kind, reason)"
        using head_guard_iff by (metis not_None_eq prod.exhaust)
      have "diff_head base xs (fall kind reason g, ch) = (g', ch')"
        using Cons.prems hg False by (simp add: x same Let_def)
      from Cons.IH [OF this] show ?thesis using False True by (auto simp: x)
    next
      case ng: False
      then have hg: "head_guard k (bk_kind b) (map_of (md_blocks base) k \<noteq> None) = None" by (simp add: head_guard_iff)
      have "diff_head base xs (g, if bk_kind b = KindRefactor then ch else List.insert k ch) = (g', ch')"
        using Cons.prems hg False by (simp add: x same Let_def split: if_splits)
      from Cons.IH [OF this] show ?thesis using False ng by (auto simp: x)
    qed
  qed
qed simp

lemma diff_base_spec:
  "diff_base head xs (g, del) = (g', del') \<Longrightarrow>
     (g_full g' \<longleftrightarrow> g_full g \<or> (\<exists>(k, b)\<in>set xs. guarded b \<and> map_of (md_blocks head) k = None))
     \<and> set del' = set del \<union> {k. \<exists>b. (k, b) \<in> set xs \<and> block_targetable b \<and> map_of (md_blocks head) k = None}"
proof (induction xs arbitrary: g del)
  case (Cons x xs)
  obtain k b where x: "x = (k, b)" by fastforce
  let ?s = "if map_of (md_blocks head) k \<noteq> None then (g, del) else (case bk_kind b of
            KindProvider \<Rightarrow> (fall GuardProvider (S ''a provider block was removed: '' @ k) g, del)
          | KindLive \<Rightarrow> (fall GuardLiveBlock (S ''the live block was removed'') g, del)
          | KindTerraform \<Rightarrow> (fall GuardTerraform (S ''the terraform block was removed'') g, del)
          | KindResource \<Rightarrow> (g, del @ [k]) | KindData \<Rightarrow> (g, del @ [k]) | KindModule \<Rightarrow> (g, del @ [k])
          | _ \<Rightarrow> (g, del))"
  obtain g1 del1 where s: "?s = (g1, del1)" by fastforce
  have IH: "diff_base head xs (g1, del1) = (g', del')"
    using Cons.prems s by (simp only: x diff_base.simps)
  have step: "(g_full g1 \<longleftrightarrow> g_full g \<or> guarded b \<and> map_of (md_blocks head) k = None)
      \<and> set del1 = set del \<union> (if block_targetable b \<and> map_of (md_blocks head) k = None then {k} else {})"
    using s by (cases "bk_kind b") (auto simp: guarded_def block_targetable_def split: if_splits)
  show ?case
    using Cons.IH [OF IH] step by (auto simp: x split: if_splits)
qed simp

lemma check_placed_full:
  "g_full (check_placed env head rb as g) \<longleftrightarrow> g_full g \<or> (\<exists>a\<in>set as. \<not> places head a)"
  by (induction as arbitrary: g) auto

lemma diff_refactors_spec:
  "diff_refactors env base head rbs (g, addrs) = (g', addrs') \<Longrightarrow>
     (g_full g' \<longleftrightarrow> g_full g \<or> (\<exists>rb\<in>set rbs. \<not> hasRefactor base rb \<and> (\<exists>a\<in>set (rf_must_place rb). \<not> places head a)))
     \<and> set addrs' = set addrs \<union> {a. \<exists>rb\<in>set rbs. \<not> hasRefactor base rb \<and> a \<in> set (rf_addrs rb)}"
proof (induction rbs arbitrary: g addrs)
  case (Cons rb rbs)
  show ?case
  proof (cases "hasRefactor base rb")
    case True
    then show ?thesis using Cons by auto
  next
    case False
    then have "diff_refactors env base head rbs (check_placed env head rb (rf_must_place rb) g, addrs @ rf_addrs rb) = (g', addrs')"
      using Cons.prems by simp
    from Cons.IH [OF this] show ?thesis using False by (auto simp: check_placed_full)
  qed
qed simp

lemma diffVars_iff:
  assumes "distinct (map fst a)" "distinct (map fst b)"
  shows "v \<in> set (diffVars a b) \<longleftrightarrow> var_at a v \<noteq> var_at b v"
proof -
  have at: "distinct (map fst m) \<Longrightarrow> (v, x) \<in> set m \<Longrightarrow> var_at m v = x" for m x
    by (simp add: var_at_def)
  have "var_at m v \<noteq> [] \<Longrightarrow> (v, var_at m v) \<in> set m" for m
    by (auto simp: var_at_def dest: map_of_SomeD split: option.splits)
  then show ?thesis
    using at [OF assms(1)] at [OF assms(2)] unfolding diffVars_def by (auto simp: image_iff; metis)
qed

section \<open>The cone\<close>

text \<open>What has changed: a block that is not the same on both sides, a variable whose value differs, a
  local module call with a file changed.\<close>

definition cone_changed :: "cone_input \<Rightarrow> root_module \<Rightarrow> root_module \<Rightarrow> gostring \<Rightarrow> bool" where
  "cone_changed inp base head c \<longleftrightarrow>
     (\<exists>b. map_of (md_blocks head) c = Some b \<and> \<not> guarded b \<and> bk_kind b \<noteq> KindRefactor \<and> \<not> same_block base c b)
     \<or> (\<exists>v. c = S ''var.'' @ v \<and> var_at (md_vars base) v \<noteq> var_at (md_vars head) v)
     \<or> (\<exists>b. map_of (md_blocks head) c = Some b \<and> module_changed (ci_top inp) (ci_prefix inp) (ci_files inp) b)"

definition refactored :: "root_module \<Rightarrow> root_module \<Rightarrow> gostring \<Rightarrow> bool" where
  "refactored base head a \<longleftrightarrow> (\<exists>rb\<in>set (md_refactors head). \<not> hasRefactor base rb \<and> a \<in> set (rf_addrs rb))"

definition in_cone :: "cone_input \<Rightarrow> root_module \<Rightarrow> root_module \<Rightarrow> gostring \<Rightarrow> bool" where
  "in_cone inp base head k \<longleftrightarrow>
     (\<exists>c. (cone_changed inp base head c \<or> refactored base head c \<and> map_of (md_blocks head) c \<noteq> None)
        \<and> (block_reads head)\<^sup>*\<^sup>* k c)"

definition co_managed_with :: "root_module \<Rightarrow> (gostring \<Rightarrow> bool) \<Rightarrow> gostring \<Rightarrow> bool" where
  "co_managed_with head C k \<longleftrightarrow> (\<exists>k' b' b. C k' \<and> map_of (md_blocks head) k' = Some b' \<and> bk_kind b' = KindResource
     \<and> map_of (md_blocks head) k = Some b \<and> bk_kind b = KindResource \<and> bk_typ b \<in> set (coManaged (bk_typ b')))"

definition deleted_block :: "root_module \<Rightarrow> root_module \<Rightarrow> gostring \<Rightarrow> bool" where
  "deleted_block base head k \<longleftrightarrow> map_of (md_blocks head) k = None
     \<and> (\<exists>b. map_of (md_blocks base) k = Some b \<and> block_targetable b)"

lemma changed_nodes_iff:
  assumes "proper_module base" "proper_module head"
    and "set ch = {k. \<exists>b. (k, b) \<in> set (md_blocks head) \<and> \<not> guarded b \<and> bk_kind b \<noteq> KindRefactor \<and> \<not> same_block base k b}"
  shows "c \<in> set (changed_nodes inp base head ch) \<longleftrightarrow> cone_changed inp base head c"
proof -
  have vars: "c \<in> (\<lambda>name. S ''var.'' @ name) ` set (diffVars (md_vars base) (md_vars head)) \<longleftrightarrow>
      (\<exists>v. c = S ''var.'' @ v \<and> var_at (md_vars base) v \<noteq> var_at (md_vars head) v)"
    using assms(1,2) by (auto simp: proper_module_def diffVars_iff simp del: S_simps)
  have modules: "c \<in> fst ` set (filter (\<lambda>(k, hb). module_changed (ci_top inp) (ci_prefix inp) (ci_files inp) hb) (md_blocks head)) \<longleftrightarrow>
      (\<exists>b. map_of (md_blocks head) c = Some b \<and> module_changed (ci_top inp) (ci_prefix inp) (ci_files inp) b)"
    by (force simp: map_of_proper [OF assms(2), symmetric])
  have blocks: "c \<in> set ch \<longleftrightarrow>
      (\<exists>b. map_of (md_blocks head) c = Some b \<and> \<not> guarded b \<and> bk_kind b \<noteq> KindRefactor \<and> \<not> same_block base c b)"
    by (simp add: assms(3) map_of_proper [OF assms(2)])
  show ?thesis
    unfolding changed_nodes_def cone_changed_def set_remdups set_append set_map Un_iff vars modules blocks by blast
qed

lemma reach_of_iff:
  assumes "proper_module head"
  shows "x \<in> set (reach_of head changed refd) \<longleftrightarrow>
    (\<exists>c. (c \<in> set changed \<or> c \<in> set refd \<and> map_of (md_blocks head) c \<noteq> None) \<and> (block_reads head)\<^sup>*\<^sup>* x c)"
  unfolding reach_of_def by (auto simp: descendants_iff [OF assms])

lemma widened_of_iff:
  assumes "proper_module head"
  shows "x \<in> set (widened_of head reach) \<longleftrightarrow> x \<notin> set reach \<and> co_managed_with head (\<lambda>k. k \<in> set reach) x"
proof -
  have one: "x \<in> set (case map_of (md_blocks head) k of None \<Rightarrow> []
       | Some hb \<Rightarrow> if bk_kind hb \<noteq> KindResource then []
         else concat (map (\<lambda>other. map fst (filter (\<lambda>(k2, b2). bk_kind b2 = KindResource \<and> bk_typ b2 = other \<and> k2 \<notin> set reach)
           (md_blocks head))) (coManaged (bk_typ hb)))) \<longleftrightarrow>
      x \<notin> set reach \<and> (\<exists>b' b. map_of (md_blocks head) k = Some b' \<and> bk_kind b' = KindResource
        \<and> map_of (md_blocks head) x = Some b \<and> bk_kind b = KindResource \<and> bk_typ b \<in> set (coManaged (bk_typ b')))" for k
  proof (cases "map_of (md_blocks head) k")
    case (Some hb)
    have "x \<in> set (concat (map (\<lambda>other. map fst (filter (\<lambda>(k2, b2). bk_kind b2 = KindResource \<and> bk_typ b2 = other \<and> k2 \<notin> set reach)
           (md_blocks head))) ts)) \<longleftrightarrow>
        (\<exists>b. (x, b) \<in> set (md_blocks head) \<and> bk_kind b = KindResource \<and> bk_typ b \<in> set ts \<and> x \<notin> set reach)" for ts
      by (induction ts) (auto simp: image_iff)
    then show ?thesis by (auto simp: Some map_of_proper [OF assms])
  qed simp
  have "x \<in> set (widened_of head reach) \<longleftrightarrow> (\<exists>k\<in>set reach. x \<notin> set reach
      \<and> (\<exists>b' b. map_of (md_blocks head) k = Some b' \<and> bk_kind b' = KindResource
        \<and> map_of (md_blocks head) x = Some b \<and> bk_kind b = KindResource \<and> bk_typ b \<in> set (coManaged (bk_typ b'))))"
    unfolding widened_of_def set_remdups set_concat set_map UN_iff by (simp only: one image_iff bex_simps)
  then show ?thesis
    unfolding co_managed_with_def by blast
qed

lemma sortedKeys_simps [simp]: "set (sortedKeys ks) = set ks" "sorted (sortedKeys ks)" "distinct (sortedKeys ks)"
  by (simp_all add: sortedKeys_def)

lemma cone_of_spec:
  fixes env inp defines "bm \<equiv> base_module env inp" and "head \<equiv> head_module env inp"
  assumes "res = cone_of env base share inp"
  shows "sorted (cr_targets res) \<and> distinct (cr_targets res)
    \<and> set (cr_targets res) = {k. \<exists>b. map_of (md_blocks head) k = Some b \<and> block_targetable b
        \<and> (in_cone inp bm head k \<or> co_managed_with head (in_cone inp bm head) k)}
      \<union> {k. deleted_block bm head k} \<union> {a. refactored bm head a}"
    and "cr_cone_blocks res = length (cr_targets res)"
    and "\<not> g_full (cr_guard res) \<Longrightarrow>
      cr_targets res \<noteq> [] \<and> \<not> (0 < cr_blocks res \<and> nat_gt_float (cr_cone_blocks res) (float_times share (cr_blocks res)))
      \<and> (\<forall>k b. map_of (md_blocks head) k = Some b \<and> guarded b \<longrightarrow> same_block bm k b)
      \<and> (\<forall>k b. map_of (md_blocks bm) k = Some b \<and> guarded b \<longrightarrow> map_of (md_blocks head) k \<noteq> None)
      \<and> (\<forall>rb\<in>set (md_refactors head). hasRefactor bm rb \<or> (\<forall>a\<in>set (rf_must_place rb). places head a))"
proof -
  have proper: "proper_module bm" "proper_module head" by (simp_all add: bm_def head_def)
  define g0 where "g0 = read_guard env base inp (cr_guard (new_result base))"
  obtain g1 ch where d1: "diff_head bm (md_blocks head) (g0, []) = (g1, ch)" by fastforce
  obtain g2 del where d2: "diff_base head (md_blocks bm) (g1, []) = (g2, del)" by fastforce
  obtain g3 addrs where d3: "diff_refactors env bm head (md_refactors head) (g2, []) = (g3, addrs)" by fastforce
  define changed where "changed = changed_nodes inp bm head ch"
  define reach where "reach = reach_of head changed (sortedKeys addrs)"
  define targets where "targets = cone_targets head (reach @ widened_of head reach) del (sortedKeys addrs)"
  define blocks where "blocks = length (filter (\<lambda>(k, b). block_targetable b) (md_blocks head))"
  note s1 = diff_head_spec [OF d1] and s2 = diff_base_spec [OF d2] and s3 = diff_refactors_spec [OF d3]
  have res: "cr_targets res = targets" "cr_blocks res = blocks" "cr_cone_blocks res = length targets"
    "g_full (cr_guard res) \<longleftrightarrow> g_full g3 \<or> targets = [] \<or> blocks > 0 \<and> nat_gt_float (length targets) (float_times share blocks)"
    unfolding assms(3) cone_of_def Let_def
    by (simp_all add: bm_def [symmetric] head_def [symmetric] g0_def [symmetric] d1 d2 d3 changed_def [symmetric]
        reach_def [symmetric] targets_def [symmetric] blocks_def [symmetric])
  have changed: "c \<in> set changed \<longleftrightarrow> cone_changed inp bm head c" for c
    unfolding changed_def by (rule changed_nodes_iff [OF proper]) (use s1 in simp)
  have addrs: "a \<in> set addrs \<longleftrightarrow> refactored bm head a" for a
    using s3 by (simp add: refactored_def)
  have reach: "k \<in> set reach \<longleftrightarrow> in_cone inp bm head k" for k
    by (simp add: reach_def reach_of_iff [OF proper(2)] changed addrs in_cone_def)
  have del: "k \<in> set del \<longleftrightarrow> deleted_block bm head k" for k
    using s2 by (auto simp: deleted_block_def map_of_proper [OF proper(1)])
  have wide: "k \<in> set (reach @ widened_of head reach) \<longleftrightarrow> in_cone inp bm head k \<or> co_managed_with head (in_cone inp bm head) k" for k
    by (auto simp: widened_of_iff [OF proper(2)] reach)
  have "set targets = {k. \<exists>b. map_of (md_blocks head) k = Some b \<and> block_targetable b
        \<and> (in_cone inp bm head k \<or> co_managed_with head (in_cone inp bm head) k)}
      \<union> {k. deleted_block bm head k} \<union> {a. refactored bm head a}"
    unfolding targets_def cone_targets_def sortedKeys_simps set_append set_filter
    using wide del addrs by (auto split: option.splits)
  then show "sorted (cr_targets res) \<and> distinct (cr_targets res)
    \<and> set (cr_targets res) = {k. \<exists>b. map_of (md_blocks head) k = Some b \<and> block_targetable b
        \<and> (in_cone inp bm head k \<or> co_managed_with head (in_cone inp bm head) k)}
      \<union> {k. deleted_block bm head k} \<union> {a. refactored bm head a}"
    by (simp add: res targets_def cone_targets_def)
  show "cr_cone_blocks res = length (cr_targets res)" by (simp add: res)
  assume passed: "\<not> g_full (cr_guard res)"
  from passed have g3: "\<not> g_full g3" and sizes: "targets \<noteq> []" "\<not> (0 < blocks \<and> nat_gt_float (length targets) (float_times share blocks))"
    using res(4) by blast+
  have g2: "\<not> g_full g2" and placed: "\<not> (\<exists>rb\<in>set (md_refactors head). \<not> hasRefactor bm rb \<and> (\<exists>a\<in>set (rf_must_place rb). \<not> places head a))"
    using s3 g3 by blast+
  have g1: "\<not> g_full g1" and kept: "\<not> (\<exists>(k, b)\<in>set (md_blocks bm). guarded b \<and> map_of (md_blocks head) k = None)"
    using s2 g2 by blast+
  have same: "\<not> (\<exists>(k, b)\<in>set (md_blocks head). guarded b \<and> \<not> same_block bm k b)"
    using s1 g1 by blast
  have "map_of (md_blocks head) k = Some b \<Longrightarrow> guarded b \<Longrightarrow> same_block bm k b" for k b
    using same map_of_proper [OF proper(2), of k b] by blast
  moreover have "map_of (md_blocks bm) k = Some b \<Longrightarrow> guarded b \<Longrightarrow> map_of (md_blocks head) k \<noteq> None" for k b
    using kept map_of_proper [OF proper(1), of k b] by blast
  ultimately show "cr_targets res \<noteq> [] \<and> \<not> (0 < cr_blocks res \<and> nat_gt_float (cr_cone_blocks res) (float_times share (cr_blocks res)))
      \<and> (\<forall>k b. map_of (md_blocks head) k = Some b \<and> guarded b \<longrightarrow> same_block bm k b)
      \<and> (\<forall>k b. map_of (md_blocks bm) k = Some b \<and> guarded b \<longrightarrow> map_of (md_blocks head) k \<noteq> None)
      \<and> (\<forall>rb\<in>set (md_refactors head). hasRefactor bm rb \<or> (\<forall>a\<in>set (rf_must_place rb). places head a))"
    unfolding res(1-3) using sizes placed by blast
qed

lemma Compute_read:
  assumes "Compute env o' = Inr res" "\<not> g_full (cr_guard res)"
  obtains dir inp where "cone_abs env (co_dir o') = Inr dir" "cone_read env dir (co_base o') = Inr (Some inp)"
    "res = cone_of env (co_base o') (share_of o') inp"
proof -
  obtain dir where dir: "cone_abs env (co_dir o') = Inr dir"
    using assms(1) by (cases "cone_abs env (co_dir o')") (auto simp: Compute_def)
  have base: "trim_space (ce_unicode env) (co_base o') \<noteq> []"
  proof
    assume "trim_space (ce_unicode env) (co_base o') = []"
    then have "g_full (cr_guard res)" using assms(1) by (auto simp: Compute_def dir Let_def)
    then show False using assms(2) by simp
  qed
  obtain inp' where read: "cone_read env dir (co_base o') = Inr inp'"
    using assms(1) base by (cases "cone_read env dir (co_base o')") (auto simp: Compute_def dir Let_def)
  show thesis
  proof (cases inp')
    case None
    then have "g_full (cr_guard res)" using assms(1) base by (auto simp: Compute_def dir read Let_def)
    then show thesis using assms(2) by simp
  next
    case (Some inp)
    then show thesis using that [OF dir, of inp] read assms(1) base by (auto simp: Compute_def dir Let_def)
  qed
qed

text \<open>
  C16.  A cone leaves out no block that reads a change.  When \<open>Compute\<close> answers and its guard does not
  ask for a full plan, the provider, terraform and live blocks are the same on both sides, and every
  resource, data source and module call of the head configuration that reads something changed, by a
  chain of references of any length, is a target; so is every one deleted and every address a new
  refactoring names, and what a refactoring must find is declared.  The targets are not empty, and not
  more than the share of the blocks.
\<close>

theorem cone_covers_change:
  assumes "Compute env o' = Inr res" "\<not> g_full (cr_guard res)"
  shows "\<exists>dir inp. cone_abs env (co_dir o') = Inr dir \<and> cone_read env dir (co_base o') = Inr (Some inp)
    \<and> (\<forall>k b c. map_of (md_blocks (head_module env inp)) k = Some b \<and> block_targetable b
        \<and> cone_changed inp (base_module env inp) (head_module env inp) c \<and> (block_reads (head_module env inp))\<^sup>*\<^sup>* k c
        \<longrightarrow> k \<in> set (cr_targets res))
    \<and> (\<forall>k. deleted_block (base_module env inp) (head_module env inp) k \<longrightarrow> k \<in> set (cr_targets res))
    \<and> (\<forall>k. refactored (base_module env inp) (head_module env inp) k \<longrightarrow> k \<in> set (cr_targets res))
    \<and> (\<forall>rb\<in>set (md_refactors (head_module env inp)). hasRefactor (base_module env inp) rb
        \<or> (\<forall>a\<in>set (rf_must_place rb). places (head_module env inp) a))
    \<and> (\<forall>k b. map_of (md_blocks (head_module env inp)) k = Some b \<and> guarded b \<longrightarrow> same_block (base_module env inp) k b)
    \<and> (\<forall>k b. map_of (md_blocks (base_module env inp)) k = Some b \<and> guarded b \<longrightarrow> map_of (md_blocks (head_module env inp)) k \<noteq> None)
    \<and> cr_targets res \<noteq> []
    \<and> \<not> (0 < cr_blocks res \<and> nat_gt_float (length (cr_targets res)) (float_times (share_of o') (cr_blocks res)))"
proof -
  obtain dir inp where dir: "cone_abs env (co_dir o') = Inr dir" and read: "cone_read env dir (co_base o') = Inr (Some inp)"
    and res: "res = cone_of env (co_base o') (share_of o') inp"
    using Compute_read [OF assms] .
  note targets = cone_of_spec(1) [OF res] and size = cone_of_spec(2) [OF res] and passed = cone_of_spec(3) [OF res assms(2)]
  have "in_cone inp (base_module env inp) (head_module env inp) k"
    if "cone_changed inp (base_module env inp) (head_module env inp) c" "(block_reads (head_module env inp))\<^sup>*\<^sup>* k c" for k c
    using that by (auto simp: in_cone_def)
  then show ?thesis
    using dir read targets passed unfolding size by (intro exI [of _ dir] exI [of _ inp] conjI) blast+
qed

text \<open>
  C17.  The targets are exactly these: the resources, data sources and module calls that read a change or
  a refactored block, those of a type co-managed with one of them, the ones deleted and the addresses
  refactored; each is listed once and in order.
\<close>

theorem cone_targets_exact:
  assumes "cone_abs env (co_dir o') = Inr dir" "cone_read env dir (co_base o') = Inr (Some inp)"
    and "trim_space (ce_unicode env) (co_base o') \<noteq> []"
  shows "\<exists>res. Compute env o' = Inr res \<and> sorted (cr_targets res) \<and> distinct (cr_targets res)
    \<and> set (cr_targets res) =
        {k. \<exists>b. map_of (md_blocks (head_module env inp)) k = Some b \<and> block_targetable b
          \<and> (in_cone inp (base_module env inp) (head_module env inp) k
             \<or> co_managed_with (head_module env inp) (in_cone inp (base_module env inp) (head_module env inp)) k)}
        \<union> {k. deleted_block (base_module env inp) (head_module env inp) k}
        \<union> {a. refactored (base_module env inp) (head_module env inp) a}"
proof -
  have "Compute env o' = Inr (cone_of env (co_base o') (share_of o') inp)"
    using assms by (simp add: Compute_def Let_def)
  then show ?thesis using cone_of_spec(1) [OF refl] by blast
qed

end
