(* ===== verification/ConeDemo.thy ===== *)
theory ConeDemo
  imports ConeFacts
begin

text \<open>
  A change of one variable in an estate of four resources: one reads it, and so does the provider block
  that configures all four.
\<close>

section \<open>The repository\<close>

definition trav :: "gostring \<Rightarrow> gostring \<Rightarrow> traversal" where
  "trav root name = \<lparr>tv_root = root, tv_steps = [StepAttr name]\<rparr>"

definition demo_resource :: "gostring \<Rightarrow> traversal list \<Rightarrow> hcl_block" where
  "demo_resource name vars = \<lparr>hb_type = S ''resource'', hb_labels = [S ''t'', name], hb_src = name, hb_attrs = [], hb_vars = vars\<rparr>"

definition demo_blocks :: "hcl_block list" where
  "demo_blocks =
     [\<lparr>hb_type = S ''provider'', hb_labels = [S ''t''], hb_src = S ''p'', hb_attrs = [], hb_vars = [trav (S ''var'') (S ''r'')]\<rparr>,
      demo_resource (S ''a'') [trav (S ''var'') (S ''r'')], demo_resource (S ''b'') [], demo_resource (S ''c'') [], demo_resource (S ''d'') []]"

text \<open>The value of the variable is the source of its file.\<close>

definition demo_parser :: "gostring \<Rightarrow> gostring \<Rightarrow> gostring + hcl_body" where
  "demo_parser src name = (if name = S ''m.tf'' then Inr \<lparr>hc_attrs = [], hc_blocks = demo_blocks\<rparr>
     else Inr \<lparr>hc_attrs = [(S ''r'', \<lparr>ha_src = src, ha_expr = src, ha_vars = [], ha_string = Some src\<rparr>)], hc_blocks = []\<rparr>)"

definition demo_git :: "gostring \<Rightarrow> gostring list \<Rightarrow> gostring + gostring" where
  "demo_git dir args = Inr (case args of
       [c, x] \<Rightarrow> if c = S ''show'' then S ''1'' else if x = S ''--show-toplevel'' then S ''/w'' else []
     | c # rest \<Rightarrow> if c = S ''ls-tree'' then S ''m.tf'' @ 0 # S ''x.auto.tfvars''
         else if c = S ''diff'' then S ''x.auto.tfvars'' else if c = S ''rev-parse'' then S ''abc'' else []
     | [] \<Rightarrow> [])"

definition demo_env :: cone_env where
  "demo_env = \<lparr>ce_unicode = demo_unicode, ce_quote = id, ce_percent = (\<lambda>_. S ''30''), ce_wd = Inr (S ''/w''), ce_git = demo_git,
     ce_read_dir = (\<lambda>_. Inr [\<lparr>de_name = S ''m.tf'', de_is_dir = False\<rparr>, \<lparr>de_name = S ''x.auto.tfvars'', de_is_dir = False\<rparr>]),
     ce_read_file = (\<lambda>_. Inr (S ''2'')), ce_parser = demo_parser\<rparr>"

definition demo_opts :: cone_options where
  "demo_opts = \<lparr>co_dir = S ''/w'', co_base = S ''main'', co_share = \<lparr>fl_man = 0, fl_exp = 0\<rparr>\<rparr>"

definition demo_input :: cone_input where
  "demo_input = \<lparr>ci_sha = S ''abc'', ci_prefix = [], ci_top = S ''/w'', ci_files = [S ''x.auto.tfvars''],
     ci_base_files = [\<lparr>cf_name = S ''m.tf'', cf_src = S ''1''\<rparr>, \<lparr>cf_name = S ''x.auto.tfvars'', cf_src = S ''1''\<rparr>],
     ci_base_exists = True,
     ci_head_files = [\<lparr>cf_name = S ''m.tf'', cf_src = S ''2''\<rparr>, \<lparr>cf_name = S ''x.auto.tfvars'', cf_src = S ''2''\<rparr>]\<rparr>"

lemma demo_abs: "cone_abs demo_env (co_dir demo_opts) = Inr (S ''/w'')"
  by (simp add: cone_abs_def demo_opts_def IsAbs_def Clean_def clean_elems_def from_elems_def r_slash_def clean_step_def dot_def dotdot_def)

lemma demo_trim [simp]: "trim_space demo_unicode (S ''abc'') = S ''abc''" "trim_space demo_unicode (S ''/w'') = S ''/w''"
  "trim_space demo_unicode (S ''main'') = S ''main''" "trim_space demo_unicode [] = []"
  by (simp_all add: trim_space_def isSpace_def)

lemma demo_config_names: "isConfigName (S ''m.tf'')" "isConfigName (S ''x.auto.tfvars'')"
  by (simp_all add: isConfigName_def HasSuffix_def HasPrefix_def)

lemma cone_demo_split: "split_on 0 (S ''m.tf'' @ 0 # S ''x.auto.tfvars'') = [S ''m.tf'', S ''x.auto.tfvars'']"
  "split_on 0 (S ''x.auto.tfvars'') = [S ''x.auto.tfvars'']"
  by simp_all

lemma demo_answers:
  "demo_git d [S ''rev-parse'', S ''--verify'', S ''--quiet'', x] = Inr (S ''abc'')"
  "demo_git d [S ''rev-parse'', S ''--show-prefix''] = Inr []"
  "demo_git d [S ''rev-parse'', S ''--show-toplevel''] = Inr (S ''/w'')"
  "demo_git d [S ''diff'', S ''--no-ext-diff'', S ''--name-only'', S ''-z'', x] = Inr (S ''x.auto.tfvars'')"
  "demo_git d [S ''ls-files'', S ''--others'', S ''--exclude-standard'', S ''-z''] = Inr []"
  "demo_git d [S ''cat-file'', S ''-e'', x] = Inr []"
  "demo_git d [S ''ls-tree'', S ''--full-tree'', S ''--name-only'', S ''-z'', x] = Inr (S ''m.tf'' @ 0 # S ''x.auto.tfvars'')"
  "demo_git d [S ''show'', x] = Inr (S ''1'')"
  by (simp_all add: demo_git_def)

lemma demo_env_simps [simp]:
  "ce_unicode demo_env = demo_unicode" "ce_git demo_env = demo_git" "ce_parser demo_env = demo_parser"
  "ce_read_dir demo_env d = Inr [\<lparr>de_name = S ''m.tf'', de_is_dir = False\<rparr>, \<lparr>de_name = S ''x.auto.tfvars'', de_is_dir = False\<rparr>]"
  "ce_read_file demo_env p = Inr (S ''2'')" "co_base demo_opts = S ''main''" "co_dir demo_opts = S ''/w''"
  by (simp_all add: demo_env_def demo_opts_def del: S_simps)

lemma demo_files:
  "show_files demo_env d at [S ''m.tf'', S ''x.auto.tfvars''] = Inr (ci_base_files demo_input)"
  "headConfigFiles demo_env d = Inr (ci_head_files demo_input)"
proof -
  have ne: "S ''m.tf'' \<noteq> []" "S ''x.auto.tfvars'' \<noteq> []" by simp_all
  show "show_files demo_env d at [S ''m.tf'', S ''x.auto.tfvars''] = Inr (ci_base_files demo_input)"
    by (simp add: ne demo_config_names demo_answers demo_input_def del: S_simps)
  show "headConfigFiles demo_env d = Inr (ci_head_files demo_input)"
    by (simp add: headConfigFiles_def demo_config_names demo_input_def del: S_simps)
qed

lemma demo_read: "cone_read demo_env (S ''/w'') (co_base demo_opts) = Inr (Some demo_input)"
proof -
  have "changedPaths demo_env (S ''/w'') sha = Inr (ci_files demo_input)" for sha
  proof -
    have ne: "S ''x.auto.tfvars'' \<noteq> []" by simp
    show ?thesis by (simp add: changedPaths_def Let_def demo_answers cone_demo_split ne demo_input_def del: S_simps)
  qed
  moreover have "baseConfigFiles demo_env (S ''/w'') sha [] = Inr (ci_base_files demo_input, True)" for sha
    by (simp add: baseConfigFiles_def Let_def demo_answers cone_demo_split demo_files del: S_simps show_files.simps)
  ultimately show ?thesis
    by (simp add: cone_read_def Let_def demo_answers demo_files del: S_simps) (simp add: demo_input_def del: S_simps)
qed

section \<open>The modules\<close>

lemma demo_names: "HasSuffix (S ''m.tf'') (S ''.json'') = False" "HasSuffix (S ''x.auto.tfvars'') (S ''.json'') = False"
  "HasSuffix (S ''m.tf'') (S ''.tfvars'') = False" "HasSuffix (S ''x.auto.tfvars'') (S ''.tfvars'') = True"
  "autoVars (S ''x.auto.tfvars'') = True"
  by (simp_all add: HasSuffix_def HasPrefix_def autoVars_def)

definition demo_module :: "gostring \<Rightarrow> root_module" where
  "demo_module v = \<lparr>md_blocks =
      [(S ''provider.t'', plain_block KindProvider (S ''p'')),
       (S ''t.a'', \<lparr>bk_kind = KindResource, bk_typ = S ''t'', bk_text = S ''a'', bk_source = [], bk_refs = [S ''var.r'']\<rparr>),
       (S ''t.b'', \<lparr>bk_kind = KindResource, bk_typ = S ''t'', bk_text = S ''b'', bk_source = [], bk_refs = []\<rparr>),
       (S ''t.c'', \<lparr>bk_kind = KindResource, bk_typ = S ''t'', bk_text = S ''c'', bk_source = [], bk_refs = []\<rparr>),
       (S ''t.d'', \<lparr>bk_kind = KindResource, bk_typ = S ''t'', bk_text = S ''d'', bk_source = [], bk_refs = []\<rparr>)],
     md_refactors = [], md_vars = [(S ''r'', v)], md_non_native = False\<rparr>"

lemma demo_refs: "exprRefs [trav (S ''var'') (S ''r'')] = [S ''var.r'']" "exprRefs [] = []"
  by (simp_all add: exprRefs_def trav_def refOf_def trav_name_def sortedKeys_def)

lemma demo_normal: "length s = 1 \<Longrightarrow> \<not> isSpace u (hd s) \<Longrightarrow> normalize u s = s"
  by (cases s) (simp_all add: normalize_def go_fields_def)

lemma demo_add_resource:
  "length n = 1 \<Longrightarrow> \<not> isSpace u (hd n) \<Longrightarrow>
   add_block u (demo_resource n vars) m = put_block (S ''t.'' @ n)
     \<lparr>bk_kind = KindResource, bk_typ = S ''t'', bk_text = n, bk_source = [], bk_refs = exprRefs vars\<rparr> m"
proof -
  assume "length n = 1" "\<not> isSpace u (hd n)"
  then have "normalize u n = n" by (rule demo_normal)
  then show ?thesis
    by (simp add: add_block_def demo_resource_def bodyRefs_def Let_def)
qed

lemma demo_add_provider:
  "add_block u (hd demo_blocks) m = put_block (S ''provider.t'') (plain_block KindProvider (S ''p'')) m"
proof -
  have "normalize u (S ''p'') = S ''p''" by (rule demo_normal) (simp_all add: isSpace_def)
  then show ?thesis
    by (simp add: add_block_def demo_blocks_def provider_key_def Let_def)
qed

lemma demo_blocks_added:
  "fold (add_block u) demo_blocks \<lparr>md_blocks = [], md_refactors = [], md_vars = vs, md_non_native = False\<rparr> =
   (demo_module [])\<lparr>md_vars := vs\<rparr>"
proof -
  have blocks: "demo_blocks = [hd demo_blocks, demo_resource (S ''a'') [trav (S ''var'') (S ''r'')], demo_resource (S ''b'') [],
      demo_resource (S ''c'') [], demo_resource (S ''d'') []]"
    by (simp add: demo_blocks_def)
  have one: "length (S [c]) = 1" for c by simp
  have space: "\<not> isSpace u (hd (S ''a''))" "\<not> isSpace u (hd (S ''b''))" "\<not> isSpace u (hd (S ''c''))" "\<not> isSpace u (hd (S ''d''))"
    by (simp_all add: isSpace_def)
  have keys: "S ''t.'' @ S ''a'' = S ''t.a''" "S ''t.'' @ S ''b'' = S ''t.b''" "S ''t.'' @ S ''c'' = S ''t.c''" "S ''t.'' @ S ''d'' = S ''t.d''"
    by simp_all
  have distinct: "S ''provider.t'' \<noteq> S ''t.a''" "S ''provider.t'' \<noteq> S ''t.b''" "S ''provider.t'' \<noteq> S ''t.c''" "S ''provider.t'' \<noteq> S ''t.d''"
    "S ''t.a'' \<noteq> S ''t.b''" "S ''t.a'' \<noteq> S ''t.c''" "S ''t.a'' \<noteq> S ''t.d''" "S ''t.b'' \<noteq> S ''t.c''" "S ''t.b'' \<noteq> S ''t.d''" "S ''t.c'' \<noteq> S ''t.d''"
    by simp_all
  show ?thesis
    by (subst blocks) (simp add: demo_add_provider demo_add_resource one space keys demo_refs put_block_def distinct demo_module_def del: S_simps)
qed

lemma demo_parsed:
  assumes "length v = 1" "\<not> isSpace demo_unicode (hd v)"
  shows "parseModule demo_unicode demo_parser [\<lparr>cf_name = S ''m.tf'', cf_src = s\<rparr>, \<lparr>cf_name = S ''x.auto.tfvars'', cf_src = v\<rparr>] = (demo_module v, [])"
proof -
  have p: "demo_parser s (S ''m.tf'') = Inr \<lparr>hc_attrs = [], hc_blocks = demo_blocks\<rparr>"
    "demo_parser v (S ''x.auto.tfvars'') = Inr \<lparr>hc_attrs = [(S ''r'', \<lparr>ha_src = v, ha_expr = v, ha_vars = [], ha_string = Some v\<rparr>)], hc_blocks = []\<rparr>"
    by (simp_all add: demo_parser_def)
  show ?thesis
    by (simp add: parseModule_def parse_file_def demo_names p demo_blocks_added demo_normal [OF assms] del: S_simps)
      (simp add: demo_module_def del: S_simps)
qed

lemma demo_modules: "base_module demo_env demo_input = demo_module (S ''1'')" "head_module demo_env demo_input = demo_module (S ''2'')"
proof -
  have v: "length (S ''1'') = 1" "length (S ''2'') = 1" "\<not> isSpace demo_unicode (hd (S ''1''))" "\<not> isSpace demo_unicode (hd (S ''2''))"
    by (simp_all add: isSpace_def)
  show "base_module demo_env demo_input = demo_module (S ''1'')" "head_module demo_env demo_input = demo_module (S ''2'')"
    unfolding base_module_def head_module_def demo_input_def
    by (simp_all add: demo_parsed [OF v(1,3)] demo_parsed [OF v(2,4)] del: S_simps)
qed

section \<open>The cone\<close>

lemma demo_diff:
  "diff_head (demo_module v) (md_blocks (demo_module w)) acc = acc"
  "diff_base (demo_module w) (md_blocks (demo_module v)) acc = acc"
  by (cases acc; simp add: demo_module_def plain_block_def)+

lemma demo_changed:
  "changed_nodes demo_input (demo_module (S ''1'')) (demo_module (S ''2'')) [] = [S ''var.r'']"
  by (simp add: changed_nodes_def demo_module_def diffVars_def var_at_def module_changed_def plain_block_def)

lemma demo_readers: "readers (demo_module v) (S ''var.r'') = [S ''t.a'']" "readers (demo_module v) (S ''t.a'') = []"
  by (simp_all add: readers_def demo_module_def plain_block_def)

lemma demo_reach: "reach_of (demo_module v) [S ''var.r''] [] = [S ''t.a'', S ''var.r'']"
proof -
  have ne: "S ''t.a'' \<noteq> S ''var.r''" by simp
  show ?thesis
    by (simp add: reach_of_def descendants_def demo_readers ne del: S_simps)
qed

lemma demo_widened: "widened_of (demo_module v) [S ''t.a'', S ''var.r''] = []"
  by (simp add: widened_of_def demo_module_def plain_block_def coManaged_def coManagedPairs_def)

lemma demo_targets: "cone_targets (demo_module v) [S ''t.a'', S ''var.r''] [] [] = [S ''t.a'']"
  by (simp add: cone_targets_def sortedKeys_def demo_module_def block_targetable_def)

lemma demo_guard: "read_guard demo_env b demo_input g = g"
proof -
  have v: "length (S ''1'') = 1" "length (S ''2'') = 1" "\<not> isSpace demo_unicode (hd (S ''1''))" "\<not> isSpace demo_unicode (hd (S ''2''))"
    by (simp_all add: isSpace_def)
  have lock: "path_base (S ''x.auto.tfvars'') \<noteq> S ''.terraform.lock.hcl''"
    by (simp add: path_base_def r_slash_def)
  show ?thesis
    by (simp add: read_guard_def demo_input_def demo_parsed [OF v(1,3)] demo_parsed [OF v(2,4)] lock Let_def del: S_simps)
      (simp add: demo_module_def)
qed

lemma bits_step: "0 < n \<Longrightarrow> bits n = Suc (bits (n div 2))" "bits 0 = 0"
  by (subst bits.simps; simp)+

lemma demo_share: "\<not> nat_gt_float 1 (float_times DefaultShare 4)"
proof -
  have "bits 21617278211378380 = 55" by (simp add: bits_step)
  then have "float_times DefaultShare 4 = \<lparr>fl_man = 5404319552844595, fl_exp = -52\<rparr>"
    by (simp add: float_times_def DefaultShare_def round_even_def)
  then show ?thesis by (simp add: nat_gt_float_def)
qed

definition demo_result :: cone_result where
  "demo_result = \<lparr>cr_base = S ''main'', cr_base_sha = S ''abc'', cr_changed = [S ''var.r''], cr_deleted = [], cr_refactor = [],
     cr_widened = [], cr_reach = [S ''t.a'', S ''var.r''], cr_targets = [S ''t.a''], cr_blocks = 4, cr_cone_blocks = 1,
     cr_guard = \<lparr>g_full = False, g_kind = [], g_reason = []\<rparr>\<rparr>"

lemma demo_cone: "cone_of demo_env (S ''main'') (share_of demo_opts) demo_input = demo_result"
proof -
  have blocks: "length (filter (\<lambda>(k, b). block_targetable b) (md_blocks (demo_module v))) = 4" for v
    by (simp add: demo_module_def plain_block_def block_targetable_def)
  have rest: "md_refactors (demo_module v) = []" "sortedKeys [] = []" "sortedKeys [S ''var.r''] = [S ''var.r'']"
    "sortedKeys [S ''t.a'', S ''var.r''] = [S ''t.a'', S ''var.r'']" for v
    by (simp_all add: demo_module_def sortedKeys_def)
  have share: "share_of demo_opts = DefaultShare" by (simp add: share_of_def demo_opts_def)
  show ?thesis
    unfolding cone_of_def demo_modules demo_guard
    by (simp add: demo_diff demo_changed rest demo_reach demo_widened demo_targets blocks share demo_share [simplified] Let_def new_result_def
        demo_result_def demo_input_def [THEN arg_cong [where f = ci_sha]] del: S_simps)
qed

lemma demo_compute: "Compute demo_env demo_opts = Inr demo_result"
proof -
  have "S ''main'' \<noteq> []" by simp
  then show ?thesis
    using demo_abs demo_read by (simp add: Compute_def demo_cone Let_def del: S_simps)
qed

text \<open>The provider block reads the variable that changed, and it configures every resource, yet only the
  resource that reads the variable itself is a target, and the guard is silent.\<close>

lemma cone_misses_provider_readers:
  "trav (S ''var'') (S ''r'') \<in> set (hb_vars (hd demo_blocks)) \<and> hb_type (hd demo_blocks) = S ''provider''
   \<and> Compute demo_env demo_opts = Inr demo_result \<and> \<not> g_full (cr_guard demo_result) \<and> cr_targets demo_result = [S ''t.a'']"
  by (simp add: demo_compute demo_result_def demo_blocks_def del: S_simps)

text \<open>The value of a variable is compared with its blanks collapsed, those inside a string too.\<close>

lemma blanks_in_values_ignored:
  "normalize demo_unicode (r_quote # S ''a  b'' @ [r_quote]) = normalize demo_unicode (r_quote # S ''a b'' @ [r_quote])"
  by (simp add: normalize_def go_fields_def isSpace_def)

lemma demo_changed_var: "cone_changed demo_input (demo_module (S ''1'')) (demo_module (S ''2'')) (S ''var.r'')"
  unfolding cone_changed_def by (intro disjI2 disjI1 exI [of _ "S ''r''"]) (simp add: demo_module_def var_at_def)

lemma demo_block_reads: "block_reads (demo_module v) (S ''t.a'') (S ''var.r'')"
  by (simp add: block_reads_def demo_module_def)

theorem cone_covers_change_witness:
  "S ''t.a'' \<in> set (cr_targets demo_result)
   \<and> same_block (demo_module (S ''1'')) (S ''provider.t'') (plain_block KindProvider (S ''p''))"
proof -
  have "\<not> g_full (cr_guard demo_result)" by (simp add: demo_result_def)
  from cone_covers_change [OF demo_compute this] obtain dir inp where
    dir: "cone_abs demo_env (co_dir demo_opts) = Inr dir" and read: "cone_read demo_env dir (co_base demo_opts) = Inr (Some inp)"
    and targets: "\<And>k b c. map_of (md_blocks (head_module demo_env inp)) k = Some b \<Longrightarrow> block_targetable b \<Longrightarrow>
        cone_changed inp (base_module demo_env inp) (head_module demo_env inp) c \<Longrightarrow>
        (block_reads (head_module demo_env inp))\<^sup>*\<^sup>* k c \<Longrightarrow> k \<in> set (cr_targets demo_result)"
    and same: "\<And>k b. map_of (md_blocks (head_module demo_env inp)) k = Some b \<Longrightarrow> guarded b \<Longrightarrow>
        same_block (base_module demo_env inp) k b"
    by metis
  have inp: "inp = demo_input" using dir read demo_abs demo_read by simp
  obtain b where b: "map_of (md_blocks (demo_module (S ''2''))) (S ''t.a'') = Some b" "block_targetable b"
    by (simp add: demo_module_def block_targetable_def)
  have p: "map_of (md_blocks (demo_module (S ''2''))) (S ''provider.t'') = Some (plain_block KindProvider (S ''p''))"
    "guarded (plain_block KindProvider (S ''p''))"
    by (simp_all add: demo_module_def guarded_def plain_block_def)
  show ?thesis
    using targets [of "S ''t.a''" b "S ''var.r''"] same [of "S ''provider.t''" "plain_block KindProvider (S ''p'')"]
      b p demo_changed_var r_into_rtranclp [of "block_reads (demo_module (S ''2''))", OF demo_block_reads]
    unfolding inp demo_modules by blast
qed

theorem cone_targets_exact_witness:
  "{k. \<exists>b. map_of (md_blocks (demo_module (S ''2''))) k = Some b \<and> block_targetable b
      \<and> (in_cone demo_input (demo_module (S ''1'')) (demo_module (S ''2'')) k
         \<or> co_managed_with (demo_module (S ''2'')) (in_cone demo_input (demo_module (S ''1'')) (demo_module (S ''2''))) k)}
    \<union> {k. deleted_block (demo_module (S ''1'')) (demo_module (S ''2'')) k}
    \<union> {a. refactored (demo_module (S ''1'')) (demo_module (S ''2'')) a} = {S ''t.a''}"
proof -
  have "trim_space (ce_unicode demo_env) (co_base demo_opts) \<noteq> []"
  proof -
    have "S ''main'' \<noteq> []" by simp
    then show ?thesis by (simp del: S_simps)
  qed
  from cone_targets_exact [OF demo_abs demo_read this] demo_compute show ?thesis
    unfolding demo_modules by (auto simp: demo_result_def simp del: S_simps)
qed

end
