(* ===== verification/ConePlanFacts.thy ===== *)
theory ConePlanFacts
  imports ConePlan ConeDemo
begin

text \<open>
  A plan narrowed to a cone covers the change: what reads it is targeted, and what was deleted or
  refactored is within the scope of the run.
\<close>

lemma add_targets_spec:
  "add_targets parse ss (lc, ds) = (lc', []) \<Longrightarrow>
     ds = [] \<and> lc_extra lc' = lc_extra lc \<and> lc_fallback lc' = lc_fallback lc \<and> set (lc_targets lc) \<subseteq> set (lc_targets lc')
     \<and> (\<forall>s\<in>set ss. \<exists>t\<in>set (lc_targets lc'). parse s = Inr t)"
proof (induction ss arbitrary: lc ds)
  case (Cons s ss)
  show ?case
  proof (cases "parse s")
    case (Inl e)
    obtain e1 es where "e = (e1, es)" by fastforce
    then have "add_targets parse ss (lc, ds @ e1 # es) = (lc', [])" using Cons.prems Inl by simp
    from Cons.IH [OF this] show ?thesis by simp
  next
    case (Inr t)
    then have "add_targets parse ss (lc\<lparr>lc_targets := lc_targets lc @ [t], lc_types := add_type t (lc_types lc)\<rparr>, ds) = (lc', [])"
      using Cons.prems by simp
    from Cons.IH [OF this] show ?thesis using Inr by auto
  qed
qed simp

lemma add_extra_spec:
  "lc_targets (add_extra parse ss lc) = lc_targets lc \<and> lc_fallback (add_extra parse ss lc) = lc_fallback lc
   \<and> set (lc_extra (add_extra parse ss lc)) =
       set (lc_extra lc) \<union> {config_resource_string (abs_resource_config r) |r s. s \<in> set ss \<and> parse s = Inr (TAbsResource r)}"
proof (induction ss arbitrary: lc)
  case (Cons s ss)
  let ?lc = "case parse s of Inr (TAbsResource r) \<Rightarrow> lc\<lparr>lc_extra := List.insert (config_resource_string (abs_resource_config r)) (lc_extra lc)\<rparr>
     | _ \<Rightarrow> lc"
  have step: "lc_targets ?lc = lc_targets lc \<and> lc_fallback ?lc = lc_fallback lc
     \<and> set (lc_extra ?lc) = set (lc_extra lc) \<union> {config_resource_string (abs_resource_config r) |r. parse s = Inr (TAbsResource r)}"
    by (auto split: sum.splits targetable.splits)
  show ?case
    unfolding add_extra.simps using Cons.IH [of ?lc] step by auto
qed auto



text \<open>
  The scope takes in resources only: when what was deleted or refactored are module calls, the scope of a
  cone plan is the scope it would have without the cone.
\<close>

lemma deleted_calls_out_of_scope:
  assumes "newLiveCone parse res = (lc, [])" "\<And>s r. s \<in> set (cr_deleted res @ cr_refactor res) \<Longrightarrow> parse s \<noteq> Inr (TAbsResource r)"
  shows "cone_scope (Some lc) (Some f) = Some f"
proof -
  obtain lc0 where lc0: "add_targets parse (cr_targets res)
      (\<lparr>lc_result = res, lc_targets = [], lc_extra = [], lc_types = Some [], lc_fallback = []\<rparr>, []) = (lc0, [])"
    and lc: "lc = add_extra parse (cr_deleted res @ cr_refactor res) lc0"
    using assms(1) by (auto simp: newLiveCone_def split: prod.splits)
  have none: "{config_resource_string (abs_resource_config r) |r s. s \<in> set (cr_deleted res @ cr_refactor res) \<and> parse s = Inr (TAbsResource r)} = {}"
    using assms(2) by blast
  have "set (lc_extra lc) = {}"
    using add_targets_spec [OF lc0] add_extra_spec [of parse "cr_deleted res @ cr_refactor res" lc0] none by (simp add: lc)
  then show ?thesis by (simp add: cone_scope_def)
qed





end
