(* ===== verification/ApprovalFacts.thy ===== *)
theory ApprovalFacts
  imports ApprovalGate
begin

text \<open>
  Facts on the approval gate: what it takes for an apply of a saved plan to go on, that the order in
  which a plan lists its changes or a provider its elements is never a difference, and a collision of
  two renderings.
\<close>

section \<open>Comparing rows\<close>

lemma rows_at_count: "length (rows_at k rows) = count (mset (map row_string rows)) k"
  by (induction rows) (auto simp: rows_at_def)

lemma rows_at_empty: "k \<notin> row_string ` set rows \<Longrightarrow> rows_at k rows = []"
  by (auto simp: rows_at_def filter_empty_conv)

lemma drifts_none:
  "length as = length fs \<Longrightarrow>
   drifts as fs = [] \<longleftrightarrow> list_all2 (\<lambda>a f. CompareValues (rw_values a) (rw_values f) = []) as fs"
  by (induction as fs rule: list_induct2) (simp_all add: Let_def)

definition key_agrees :: "row list \<Rightarrow> row list \<Rightarrow> gostring \<Rightarrow> bool" where
  "key_agrees A F k \<longleftrightarrow>
     list_all2 (\<lambda>a f. CompareValues (rw_values a) (rw_values f) = []) (rows_at k A) (rows_at k F)"

lemma compare_key_empty: "difference_empty (compare_key A F k d) \<longleftrightarrow> difference_empty d \<and> key_agrees A F k"
proof (cases "length (rows_at k A) = length (rows_at k F)")
  case True
  then show ?thesis
    by (auto simp: compare_key_def difference_empty_def key_agrees_def Let_def drifts_none)
next
  case False
  then have "\<not> key_agrees A F k"
    by (auto simp: key_agrees_def dest: list_all2_lengthD)
  moreover have "\<not> difference_empty (compare_key A F k d)"
    using False by (auto simp: compare_key_def difference_empty_def Let_def)
  ultimately show ?thesis by simp
qed

lemma compare_fold_empty:
  "difference_empty (fold (compare_key A F) ks d) \<longleftrightarrow> difference_empty d \<and> list_all (key_agrees A F) ks"
  by (induction ks arbitrary: d) (auto simp: compare_key_empty)

lemma Compare_empty: "difference_empty (Compare A F) \<longleftrightarrow> (\<forall>k. key_agrees A F k)"
proof -
  have "key_agrees A F k" if "k \<notin> row_string ` set (A @ F)" for k
    using that by (simp add: key_agrees_def rows_at_empty image_Un)
  moreover have "difference_empty (Compare A F) \<longleftrightarrow> list_all (key_agrees A F) (sort (remdups (map row_string (A @ F))))"
    unfolding Compare_def compare_fold_empty by (simp add: difference_empty_def)
  ultimately show ?thesis
    by (auto simp: list_all_iff image_Un)
qed

lemma agrees_same_rows:
  assumes "\<forall>k. key_agrees A F k"
  shows "mset (map row_string A) = mset (map row_string F)"
proof (rule multiset_eqI)
  fix k
  have "length (rows_at k A) = length (rows_at k F)"
    using assms by (auto simp: key_agrees_def dest: list_all2_lengthD)
  then show "count (mset (map row_string A)) k = count (mset (map row_string F)) k"
    by (simp only: rows_at_count)
qed

lemma compareSide_refl: "compareSide side m m b b = []"
proof (cases b)
  case False
  have "(case (map_of m n, map_of m n) of
           (Some a, Some f) \<Rightarrow> \<not> (at_unknown a \<or> at_unknown f) \<and> at_text a \<noteq> at_text f | _ \<Rightarrow> True) = False"
    if "n \<in> fst ` set m" for n
    using that by (cases "map_of m n") (auto simp: map_of_eq_None_iff)
  then show ?thesis
    using False by (auto simp: compareSide_def filter_empty_conv)
qed (simp add: compareSide_def)

lemma CompareValues_refl: "CompareValues v v = []"
  by (simp add: CompareValues_def compareSide_refl)

lemma Compare_refl: "difference_empty (Compare A A)"
  by (simp add: Compare_empty key_agrees_def CompareValues_refl list_all2_refl)

section \<open>Outputs of other estates\<close>

definition output_agrees :: "output_read \<Rightarrow> gostring \<Rightarrow> bool" where
  "output_agrees r want = (case r of ReadFails ds \<Rightarrow> ds = [] | r \<Rightarrow> output_text r = want)"

lemma compare_outputs_empty:
  "compare_outputs q reader e outs (ds, rows) = ([], []) \<longleftrightarrow>
     ds = [] \<and> rows = [] \<and> list_all (\<lambda>(n, want). output_agrees (reader e n) want) outs"
proof (induction outs arbitrary: ds rows)
  case (Cons o' outs)
  obtain n want where o': "o' = (n, want)" by fastforce
  show ?case
    unfolding o' using Cons.IH by (cases "reader e n") (auto simp: output_agrees_def)
qed simp

lemma list_all_sorted: "list_all P (sort_key f xs) \<longleftrightarrow> list_all P xs"
  by (simp add: list_all_iff)

lemma compare_estates_empty:
  "compare_estates q reader planned (ds, rows) = ([], []) \<longleftrightarrow>
     ds = [] \<and> rows = []
     \<and> list_all (\<lambda>(e, outs). list_all (\<lambda>(n, want). output_agrees (reader e n) want) outs) planned"
proof (induction planned arbitrary: ds rows)
  case (Cons p rest)
  obtain e outs where p: "p = (e, outs)" by fastforce
  obtain ds' rows' where acc: "compare_outputs q reader e (sort_key fst outs) (ds, rows) = (ds', rows')"
    by fastforce
  show ?case
    using compare_outputs_empty [of q reader e "sort_key fst outs" ds rows] Cons.IH [of ds' rows']
    unfolding p acc list_all_sorted by (auto simp: acc)
qed simp

lemma compareEstateOutputs_silent:
  "fst (compareEstateOutputsFromPlan q path planned reader) = [] \<longleftrightarrow>
     list_all (\<lambda>(e, outs). list_all (\<lambda>(n, want). output_agrees (reader e n) want) outs) planned"
proof -
  obtain ds rows where acc: "compare_estates q reader (sort_key fst planned) ([], []) = (ds, rows)"
    by fastforce
  have "fst (compareEstateOutputsFromPlan q path planned reader) = [] \<longleftrightarrow> (ds, rows) = ([], [])"
    by (simp add: compareEstateOutputsFromPlan_def acc)
  then show ?thesis
    using compare_estates_empty [of q reader "sort_key fst planned" "[]" "[]"] by (simp add: acc list_all_sorted)
qed

lemma approvalGuard_silent:
  "fst (approvalGuard q sha u dec (Some a) (Some p)) = [] \<longleftrightarrow>
     (\<forall>k. key_agrees (ChangeSet sha u dec (ap_plan a)) (ChangeSet sha u dec (Some p)) k)"
  by (simp add: approvalGuard_def Let_def Compare_empty [symmetric])

section \<open>Sensitive values of a joint plan file\<close>

text \<open>What the check of a joint plan file reports, and the approved plan it leaves to compare.\<close>

definition sensitive_lines :: "('ty, 'v) cty_ops \<Rightarrow> unicode \<Rightarrow> (sensitive_hash list \<times> gostring) option \<Rightarrow> approved_plan \<Rightarrow> plan \<Rightarrow> gostring list" where
  "sensitive_lines cy u joint a p = (case joint of None \<Rightarrow> []
     | Some (hashes, key) \<Rightarrow> fst (jointCheckSensitive cy u hashes key (Some p) (ap_plan a)))"

definition compared_plan :: "('ty, 'v) cty_ops \<Rightarrow> unicode \<Rightarrow> (sensitive_hash list \<times> gostring) option \<Rightarrow> approved_plan \<Rightarrow> plan \<Rightarrow> plan option" where
  "compared_plan cy u joint a p = (case joint of None \<Rightarrow> ap_plan a
     | Some (hashes, key) \<Rightarrow> snd (jointCheckSensitive cy u hashes key (Some p) (ap_plan a)))"

lemma plan_guard_silent:
  "fst (plan_guard q sha u dec reader cy joint a (Some p)) = [] \<longleftrightarrow>
     fst (compareEstateOutputsFromPlan q (ap_path a) (ap_outputs a) reader) = [] \<and> sensitive_lines cy u joint a p = []
     \<and> (\<forall>k. key_agrees (ChangeSet sha u dec (compared_plan cy u joint a p)) (ChangeSet sha u dec (Some p)) k)"
proof -
  let ?changeSet = "case joint of None \<Rightarrow> approvalGuard q sha u dec (Some a) | Some check \<Rightarrow> joint_guard q sha u dec cy check a"
  have "fst (?changeSet (Some p)) = [] \<longleftrightarrow> sensitive_lines cy u joint a p = []
     \<and> (\<forall>k. key_agrees (ChangeSet sha u dec (compared_plan cy u joint a p)) (ChangeSet sha u dec (Some p)) k)"
    by (auto simp: joint_guard_def sensitive_lines_def compared_plan_def approvalGuard_silent split: option.split prod.split)
  moreover have "fst (plan_guard q sha u dec reader cy joint a (Some p)) = [] \<longleftrightarrow>
     fst (compareEstateOutputsFromPlan q (ap_path a) (ap_outputs a) reader) = [] \<and> fst (?changeSet (Some p)) = []"
  proof (cases "ap_outputs a = []")
    case True
    then show ?thesis by (simp add: plan_guard_def compareEstateOutputs_silent Let_def)
  next
    case False
    then show ?thesis by (simp add: plan_guard_def Let_def split: prod.splits)
  qed
  ultimately show ?thesis by blast
qed











text \<open>A change of one VPC, and a plan file approving the creation of two.\<close>

definition vpc_change :: "gostring \<Rightarrow> action \<Rightarrow> change" where
  "vpc_change name act = \<lparr>ch_addr = \<lparr>ari_module = [], ari_resource =
       \<lparr>ri_resource = \<lparr>res_mode = ManagedResourceMode, res_type = S ''vpc'', res_name = name\<rparr>, ri_key = NoKey\<rparr>\<rparr>,
     ch_deposed = [], ch_action = act, ch_before = [], ch_after = []\<rparr>"

definition vpc_plan :: "change list \<Rightarrow> plan" where
  "vpc_plan cs = \<lparr>pl_changes = Some (map Some cs), pl_outputs = [], pl_prior = None, pl_targets = []\<rparr>"

definition vpc_approved :: "planned_outputs \<Rightarrow> approved_plan" where
  "vpc_approved outs = \<lparr>ap_path = S ''plan.cdf'', ap_estate = S ''net'',
     ap_plan = Some (vpc_plan [vpc_change (S ''b'') Create, vpc_change (S ''a'') Create]), ap_outputs = outs, ap_rerun = []\<rparr>"

lemma apply_guard_silent:
  "fst (apply_guard q sha u dec reader cy joint a cone (Some p)) = [] \<longleftrightarrow>
     (case cone of None \<Rightarrow> True | Some (path, ts) \<Rightarrow> join_with 10 (sort ts) = targetSet u (pl_targets p))
     \<and> fst (plan_guard q sha u dec reader cy joint a (Some p)) = []"
  by (auto simp: apply_guard_def coneApprovalGuard_def coneApprovalCheck_def split: option.splits)

text \<open>
  C4.  An apply given an approved plan goes on exactly when the cone planned is the cone approved, if the
  plan is one of a cone, every output of another estate the plan was made on is recorded as planned,
  the check of the sensitive values has nothing to report, if the plan is a joint one, and, the approved
  plan compared being in that case the one with the checked values put back, the fresh plan has exactly
  the rows approved, counted with their multiplicity, and under each row's key the paired rows have no
  attribute to report.
\<close>

theorem approval_goes_on_exactly:
  "fst (askPlanGuard (apply_guard q sha u dec reader cy joint a cone) (Some p)) \<longleftrightarrow>
     (case cone of None \<Rightarrow> True | Some (path, ts) \<Rightarrow> join_with 10 (sort ts) = targetSet u (pl_targets p))
     \<and> (\<forall>(e, outs)\<in>set (ap_outputs a). \<forall>(n, want)\<in>set outs. output_agrees (reader e n) want)
     \<and> sensitive_lines cy u joint a p = []
     \<and> mset (map row_string (ChangeSet sha u dec (compared_plan cy u joint a p))) = mset (map row_string (ChangeSet sha u dec (Some p)))
     \<and> (\<forall>k. list_all2 (\<lambda>r f. CompareValues (rw_values r) (rw_values f) = [])
              (rows_at k (ChangeSet sha u dec (compared_plan cy u joint a p))) (rows_at k (ChangeSet sha u dec (Some p))))"
proof -
  have "fst (askPlanGuard (apply_guard q sha u dec reader cy joint a cone) (Some p)) \<longleftrightarrow>
      fst (apply_guard q sha u dec reader cy joint a cone (Some p)) = []"
    by (simp add: askPlanGuard_def split: prod.splits)
  then show ?thesis
    using agrees_same_rows [of "ChangeSet sha u dec (compared_plan cy u joint a p)" "ChangeSet sha u dec (Some p)"]
    by (auto simp: apply_guard_silent plan_guard_silent compareEstateOutputs_silent key_agrees_def list_all_iff)
qed


lemma vpc_rows:
  "ChangeSet sha u dec (ap_plan (vpc_approved outs)) \<noteq> []"
  "ChangeSet sha u dec (Some (vpc_plan [])) = []"
  by (simp_all add: ChangeSet_def vpc_approved_def vpc_plan_def vpc_change_def acted_on_def sort_rows_def)

text \<open>Cty operations on values that are their own text, and the hash of one value of a VPC.\<close>

definition text_cty :: "(unit, gostring) cty_ops" where
  "text_cty = \<lparr>cy_hmac = (\<lambda>key text. key @ text), cy_schema = (\<lambda>_. Some ()), cy_dynamic = (), cy_key = Inr, cy_decode = (\<lambda>enc _. Inr enc),
     cy_null = (\<lambda>_. []), cy_apply = (\<lambda>_ v. Inr v), cy_known = (\<lambda>v. v \<noteq> S ''?''), cy_marshal = Some,
     cy_transform = (\<lambda>_ _ v. Inr v), cy_encode = (\<lambda>v _. Inr v), cy_format = (\<lambda>_. [])\<rparr>"






theorem approval_goes_on_exactly_witness:
  "fst (askPlanGuard (apply_guard id id demo_unicode (\<lambda>_. None) (\<lambda>e n. Recorded (S ''vpc-1'')) text_cty None
       (vpc_approved [(S ''core'', [(S ''vpc'', S ''vpc-1'')])]) None) (ap_plan (vpc_approved [])))
   \<and> \<not> fst (askPlanGuard (apply_guard id id demo_unicode (\<lambda>_. None) (\<lambda>e n. Recorded (S ''vpc-2'')) text_cty None
       (vpc_approved [(S ''core'', [(S ''vpc'', S ''vpc-1'')])]) None) (ap_plan (vpc_approved [])))
   \<and> \<not> fst (askPlanGuard (apply_guard id id demo_unicode (\<lambda>_. None) (\<lambda>e n. NoEntry) text_cty None (vpc_approved []) None) (Some (vpc_plan [])))
   \<and> \<not> fst (askPlanGuard (apply_guard id id demo_unicode (\<lambda>_. None) (\<lambda>e n. NoEntry) text_cty None (vpc_approved []) (Some (S ''plan.cdf'', [S ''vpc.a''])))
       (ap_plan (vpc_approved [])))"
proof -
  have p: "ap_plan (vpc_approved outs) = Some (vpc_plan [vpc_change (S ''b'') Create, vpc_change (S ''a'') Create])"
    "ap_outputs (vpc_approved outs) = outs" "pl_targets (vpc_plan cs) = []" for outs cs
    by (simp_all add: vpc_approved_def vpc_plan_def)
  have "S ''vpc-2'' \<noteq> S ''vpc-1''" "S ''vpc.a'' \<noteq> []" by simp_all
  then show ?thesis
    using vpc_rows(1) [of id demo_unicode "\<lambda>_. None" "[]"] vpc_rows(2) [of id demo_unicode "\<lambda>_. None"]
    by (simp add: p approval_goes_on_exactly output_agrees_def output_text_def CompareValues_refl list_all2_refl targetSet_def
        sensitive_lines_def compared_plan_def del: S_simps)
qed


section \<open>Rendering\<close>

text \<open>Values that differ only in the order of the elements of their sets and of the members of their
  objects, at any depth.\<close>

inductive same_value :: "cty_value \<Rightarrow> cty_value \<Rightarrow> bool" where
  same_refl: "same_value v v"
| same_sensitive: "same_value v w \<Longrightarrow> same_value (CtySensitive v) (CtySensitive w)"
| same_list: "list_all2 same_value vs ws \<Longrightarrow> same_value (CtyList vs) (CtyList ws)"
| same_set: "list_all2 same_value vs ws \<Longrightarrow> mset ws = mset ws' \<Longrightarrow> same_value (CtySet vs) (CtySet ws')"
| same_object: "list_all2 (rel_prod (=) same_value) ms ns \<Longrightarrow> mset ns = mset ns' \<Longrightarrow>
    same_value (CtyObject ms) (CtyObject ns')"

lemma renderElements_map:
  "renderElements sha vs = (map (\<lambda>v. fst (renderValue sha v)) vs, list_ex (\<lambda>v. snd (renderValue sha v)) vs)"
  by (induction vs) (simp_all add: Let_def split: prod.splits)

lemma renderPairs_map:
  "renderPairs sha ms = (map (\<lambda>m. (fst m, fst (renderValue sha (snd m)))) ms, list_ex (\<lambda>m. snd (renderValue sha (snd m))) ms)"
  by (induction ms) (auto simp: Let_def split: prod.splits)

lemma list_ex_mset: "mset xs = mset ys \<Longrightarrow> list_ex P xs = list_ex P ys"
  by (metis list_ex_iff mset_eq_setD)

lemma sort_mset: "mset xs = mset ys \<Longrightarrow> sort xs = sort (ys :: 'a::linorder list)"
  by (metis mset_sort properties_for_sort sorted_sort)

lemma render_set_perm:
  assumes "mset ws = mset ws'"
  shows "renderValue sha (CtySet ws) = renderValue sha (CtySet ws')"
proof -
  have "sort (map (\<lambda>v. fst (renderValue sha v)) ws) = sort (map (\<lambda>v. fst (renderValue sha v)) ws')"
    using assms by (intro sort_mset) simp
  then show ?thesis
    using list_ex_mset [OF assms] by (simp add: renderElements_map)
qed

lemma render_object_perm:
  assumes "mset ns = mset ns'"
  shows "renderValue sha (CtyObject ns) = renderValue sha (CtyObject ns')"
proof -
  have "sort (map (\<lambda>m. (fst m, fst (renderValue sha (snd m)))) ns) = sort (map (\<lambda>m. (fst m, fst (renderValue sha (snd m)))) ns')"
    using assms by (intro sort_mset) simp
  then show ?thesis
    using list_ex_mset [OF assms] by (simp add: renderPairs_map)
qed

lemma renderElements_cong:
  "list_all2 (\<lambda>v w. renderValue sha v = renderValue sha w) vs ws \<Longrightarrow> renderElements sha vs = renderElements sha ws"
  by (induction rule: list_all2_induct) simp_all

lemma renderPairs_cong:
  "list_all2 (rel_prod (=) (\<lambda>v w. renderValue sha v = renderValue sha w)) ms ns \<Longrightarrow> renderPairs sha ms = renderPairs sha ns"
  by (induction rule: list_all2_induct) (auto simp: rel_prod.simps)

text \<open>
  C34.  Values that differ only in the order their sets' elements and their objects' members are
  walked in, at any depth, render to the same text and agree on whether they are known.
\<close>

theorem rendering_canonical: "same_value v w \<Longrightarrow> renderValue sha v = renderValue sha w"
proof (induction rule: same_value.induct)
  case (same_list vs ws)
  then have "list_all2 (\<lambda>v w. renderValue sha v = renderValue sha w) vs ws"
    by (auto elim: list_all2_mono)
  then show ?case
    using renderElements_cong by simp
next
  case (same_set vs ws ws')
  then have "list_all2 (\<lambda>v w. renderValue sha v = renderValue sha w) vs ws"
    by (auto elim: list_all2_mono)
  then show ?case
    using renderElements_cong render_set_perm [OF same_set.hyps] by simp
next
  case (same_object ms ns ns')
  then have "list_all2 (rel_prod (=) (\<lambda>v w. renderValue sha v = renderValue sha w)) ms ns"
    by (auto elim!: list_all2_mono)
  then show ?case
    using renderPairs_cong render_object_perm [OF same_object.hyps] by simp
qed simp_all

theorem rendering_canonical_witness:
  "renderValue id (CtyObject [(S ''ids'', CtySet [CtyString (S ''x''), CtyUnknown]), (S ''name'', CtyNull)]) =
   renderValue id (CtyObject [(S ''name'', CtyNull), (S ''ids'', CtySet [CtyUnknown, CtyString (S ''x'')])])"
proof (rule rendering_canonical)
  have "same_value (CtySet [CtyString (S ''x''), CtyUnknown]) (CtySet [CtyUnknown, CtyString (S ''x'')])"
    by (rule same_set [where ws = "[CtyString (S ''x''), CtyUnknown]"]) (simp_all add: same_refl del: S_simps)
  then show "same_value (CtyObject [(S ''ids'', CtySet [CtyString (S ''x''), CtyUnknown]), (S ''name'', CtyNull)])
      (CtyObject [(S ''name'', CtyNull), (S ''ids'', CtySet [CtyUnknown, CtyString (S ''x'')])])"
    by (intro same_object [where ns = "[(S ''ids'', CtySet [CtyUnknown, CtyString (S ''x'')]), (S ''name'', CtyNull)]"])
      (simp_all add: same_refl del: S_simps)
qed

text \<open>
  The rendering does not delimit its scalars, so two different lists, one of two strings and one of a
  single string, have one text: a planned value that moved between them is not reported.
\<close>

lemma render_collision:
  "renderValue sha (CtyList [CtyString (S ''a''), CtyString (S ''b'')]) =
   renderValue sha (CtyList [CtyString (S ''a,s:b'')])"
  by (simp add: Let_def)

end
