(* ===== verification/Dag.thy ===== *)
theory Dag
  imports Prelude
begin

text \<open>
  The graph library \<open>internal/dag\<close>: \<open>set.go\<close>, \<open>graph.go\<close>, \<open>edge.go\<close> and \<open>dag.go\<close>.  No vertex of
  the program defines a hashcode, so a vertex is its own, a value of the type \<open>'v\<close>; an edge's is the pair of
  its vertices, and an edge is that pair.  A set is a list without repetition, in the order it is ranged
  over, which Go leaves open.

  The parallel walk of \<open>walk.go\<close>, \<open>Cycles\<close>, with \<open>tarjan.go\<close> and \<open>Validate\<close> on top of it, the rendering of
  graphs and the sorted walks of the tests are left out.
\<close>

section \<open>Sets\<close>

definition set_Add :: "'v \<Rightarrow> 'v list \<Rightarrow> 'v list" where
  "set_Add v s = (if v \<in> set s then s else s @ [v])"

definition set_Delete :: "'v \<Rightarrow> 'v list \<Rightarrow> 'v list" where
  "set_Delete v s = filter (\<lambda>x. x \<noteq> v) s"

definition set_Intersection :: "'v list \<Rightarrow> 'v list \<Rightarrow> 'v list" where
  "set_Intersection s t = (let (s, t) = (if length t < length s then (t, s) else (s, t)) in filter (\<lambda>v. v \<in> set t) s)"

definition set_Difference :: "'v list \<Rightarrow> 'v list \<Rightarrow> 'v list" where
  "set_Difference s t = filter (\<lambda>v. v \<notin> set t) s"

section \<open>Graphs\<close>

type_synonym 'v dag_edge = "'v \<times> 'v"

record 'v graph =
  gr_vertices :: "'v list"
  gr_edges :: "'v dag_edge list"
  gr_down :: "'v \<rightharpoonup> 'v list"
  gr_up :: "'v \<rightharpoonup> 'v list"

definition empty_graph :: "'v graph" where
  "empty_graph = \<lparr>gr_vertices = [], gr_edges = [], gr_down = (\<lambda>_. None), gr_up = (\<lambda>_. None)\<rparr>"

definition adjacent :: "('v \<rightharpoonup> 'v list) \<Rightarrow> 'v \<Rightarrow> 'v list" where
  "adjacent m v = (case m v of None \<Rightarrow> [] | Some s \<Rightarrow> s)"

definition DownEdges :: "'v graph \<Rightarrow> 'v \<Rightarrow> 'v list" where
  "DownEdges g v = adjacent (gr_down g) v"

definition UpEdges :: "'v graph \<Rightarrow> 'v \<Rightarrow> 'v list" where
  "UpEdges g v = adjacent (gr_up g) v"

definition EdgesFrom :: "'v graph \<Rightarrow> 'v \<Rightarrow> 'v dag_edge list" where
  "EdgesFrom g v = filter (\<lambda>e. fst e = v) (gr_edges g)"

definition EdgesTo :: "'v graph \<Rightarrow> 'v \<Rightarrow> 'v dag_edge list" where
  "EdgesTo g v = filter (\<lambda>e. snd e = v) (gr_edges g)"

definition dag_Add :: "'v \<Rightarrow> 'v graph \<Rightarrow> 'v graph" where
  "dag_Add v g = g\<lparr>gr_vertices := set_Add v (gr_vertices g)\<rparr>"

text \<open>Deleting from the set of a key there is; a key without one stays without.\<close>

definition drop_adjacent :: "'v \<Rightarrow> 'v \<Rightarrow> ('v \<rightharpoonup> 'v list) \<Rightarrow> ('v \<rightharpoonup> 'v list)" where
  "drop_adjacent k v m = (case m k of None \<Rightarrow> m | Some s \<Rightarrow> m(k \<mapsto> set_Delete v s))"

definition RemoveEdge :: "'v dag_edge \<Rightarrow> 'v graph \<Rightarrow> 'v graph" where
  "RemoveEdge e g = (case e of (u, v) \<Rightarrow>
     g\<lparr>gr_edges := set_Delete e (gr_edges g), gr_down := drop_adjacent u v (gr_down g), gr_up := drop_adjacent v u (gr_up g)\<rparr>)"

definition Connect :: "'v dag_edge \<Rightarrow> 'v graph \<Rightarrow> 'v graph" where
  "Connect e g = (case e of (u, v) \<Rightarrow>
     if v \<in> set (DownEdges g u) then g
     else g\<lparr>gr_edges := set_Add e (gr_edges g), gr_down := (gr_down g)(u \<mapsto> set_Add v (DownEdges g u)),
            gr_up := (gr_up g)(v \<mapsto> set_Add u (UpEdges g v))\<rparr>)"

definition dag_Remove :: "'v \<Rightarrow> 'v graph \<Rightarrow> 'v graph" where
  "dag_Remove v g =
     (let g = g\<lparr>gr_vertices := set_Delete v (gr_vertices g)\<rparr>;
          g = fold (\<lambda>target. RemoveEdge (v, target)) (DownEdges g v) g
      in fold (\<lambda>source. RemoveEdge (source, v)) (UpEdges g v) g)"

definition dag_Replace :: "'v \<Rightarrow> 'v \<Rightarrow> 'v graph \<Rightarrow> bool \<times> 'v graph" where
  "dag_Replace original replacement g =
     (if original \<notin> set (gr_vertices g) then (False, g)
      else if original = replacement then (True, g)
      else (let g = dag_Add replacement g;
                g = fold (\<lambda>target. Connect (replacement, target)) (DownEdges g original) g;
                g = fold (\<lambda>source. Connect (source, replacement)) (UpEdges g original) g
            in (True, dag_Remove original g)))"

definition Subsume :: "'v graph \<Rightarrow> 'v graph \<Rightarrow> 'v graph" where
  "Subsume other g = fold Connect (gr_edges other) (fold dag_Add (gr_vertices other) g)"

section \<open>Walks\<close>

text \<open>
  The loop of \<open>walk\<close> over a state the callback changes: the edges of a vertex are read after its callback
  ran, from the state then.  \<open>None\<close> is a loop that did not end within the fuel.
\<close>

fun walk_loop :: "nat \<Rightarrow> bool \<Rightarrow> ('s \<Rightarrow> 'v \<Rightarrow> 'v list) \<Rightarrow> ('v \<Rightarrow> nat \<Rightarrow> 's \<Rightarrow> 'e option \<times> 's)
    \<Rightarrow> 'v list \<Rightarrow> ('v \<times> nat) list \<Rightarrow> 's \<Rightarrow> ('e option \<times> 's) option" where
  "walk_loop n depthFirst next f seen [] s = Some (None, s)"
| "walk_loop 0 depthFirst next f seen (x # frontier) s = None"
| "walk_loop (Suc n) depthFirst next f seen (x # frontier) s =
     (let (v, d) = (if depthFirst then last (x # frontier) else x);
          rest = (if depthFirst then butlast (x # frontier) else frontier)
      in if v \<in> set seen then walk_loop n depthFirst next f seen rest s
         else (case f v d s of
             (Some e, s) \<Rightarrow> Some (Some e, s)
           | (None, s) \<Rightarrow> walk_loop n depthFirst next f (v # seen) (rest @ map (\<lambda>u. (u, d + 1)) (next s v)) s))"

text \<open>A vertex is expanded once, so what is pushed is no more than the start and the edges.\<close>

definition dag_walk :: "nat \<Rightarrow> bool \<Rightarrow> ('s \<Rightarrow> 'v \<Rightarrow> 'v list) \<Rightarrow> 'v list \<Rightarrow> ('v \<Rightarrow> nat \<Rightarrow> 's \<Rightarrow> 'e option \<times> 's) \<Rightarrow> 's
    \<Rightarrow> ('e option \<times> 's) option" where
  "dag_walk edges depthFirst next start f s =
     walk_loop (length start + edges) depthFirst next f [] (map (\<lambda>v. (v, 0)) start) s"

definition memo :: "'v \<Rightarrow> nat \<Rightarrow> 'v list \<Rightarrow> unit option \<times> 'v list" where
  "memo v d s = (None, set_Add v s)"

definition Ancestors :: "'v graph \<Rightarrow> 'v \<Rightarrow> (unit option \<times> 'v list) option" where
  "Ancestors g v = dag_walk (length (gr_edges g)) True (\<lambda>_. DownEdges g) (DownEdges g v) memo []"

definition Descendents :: "'v graph \<Rightarrow> 'v \<Rightarrow> (unit option \<times> 'v list) option" where
  "Descendents g v = dag_walk (length (gr_edges g)) True (\<lambda>_. UpEdges g) (UpEdges g v) memo []"

datatype 'v root_error = MultipleRoots "'v list" | NoRoots

definition Root :: "'v graph \<Rightarrow> 'v root_error + 'v" where
  "Root g = (case filter (\<lambda>v. UpEdges g v = []) (gr_vertices g) of
       [] \<Rightarrow> Inl NoRoots | [v] \<Rightarrow> Inr v | vs \<Rightarrow> Inl (MultipleRoots vs))"

section \<open>The transitive reduction\<close>

text \<open>The callback at a vertex \<open>v\<close> of the walk from the targets of \<open>u\<close>, whose set it changes as it goes.\<close>

definition reduce_visit :: "'v \<Rightarrow> 'v \<Rightarrow> nat \<Rightarrow> 'v graph \<Rightarrow> unit option \<times> 'v graph" where
  "reduce_visit u v d g =
     (None, fold (\<lambda>vPrime. RemoveEdge (u, vPrime)) (set_Intersection (DownEdges g u) (DownEdges g v)) g)"

fun reduce_all :: "'v list \<Rightarrow> 'v graph \<Rightarrow> 'v graph option" where
  "reduce_all [] g = Some g"
| "reduce_all (u # us) g =
     (case dag_walk (length (gr_edges g)) True DownEdges (DownEdges g u) (reduce_visit u) g of
        None \<Rightarrow> None | Some (_, g) \<Rightarrow> reduce_all us g)"

definition TransitiveReduction :: "'v graph \<Rightarrow> 'v graph option" where
  "TransitiveReduction g = reduce_all (gr_vertices g) g"

section \<open>Topological order\<close>

record 'v topo =
  tp_tmp :: "'v \<Rightarrow> bool"
  tp_perm :: "'v \<Rightarrow> bool"
  tp_sorted :: "'v list"

datatype cycle_panic = CycleFound

text \<open>
  Visiting vertices in turn.  On the right of the option is the panic or the state; \<open>None\<close> is a recursion
  deeper than the fuel.
\<close>

function topo_visit :: "nat \<Rightarrow> ('v \<Rightarrow> 'v list) \<Rightarrow> 'v list \<Rightarrow> 'v topo \<Rightarrow> (cycle_panic + 'v topo) option" where
  "topo_visit n next [] st = Some (Inr st)"
| "topo_visit 0 next (v # vs) st = None"
| "topo_visit (Suc n) next (v # vs) st =
     (if tp_perm st v then topo_visit (Suc n) next vs st
      else if tp_tmp st v then Some (Inl CycleFound)
      else (case topo_visit n next (next v) (st\<lparr>tp_tmp := (tp_tmp st)(v := True)\<rparr>) of
          None \<Rightarrow> None
        | Some (Inl p) \<Rightarrow> Some (Inl p)
        | Some (Inr st') \<Rightarrow> topo_visit (Suc n) next vs
            (st'\<lparr>tp_tmp := (tp_tmp st')(v := False), tp_perm := (tp_perm st')(v := True), tp_sorted := tp_sorted st' @ [v]\<rparr>)))"
  by pat_completeness auto
termination
  by (relation "measures [\<lambda>(n, next, vs, st). n, \<lambda>(n, next, vs, st). length vs]") auto

definition topoOrder :: "('v \<Rightarrow> 'v list) \<Rightarrow> 'v list \<Rightarrow> (cycle_panic + 'v list) option" where
  "topoOrder next vs =
     (case topo_visit (Suc (length vs)) next vs \<lparr>tp_tmp = (\<lambda>_. False), tp_perm = (\<lambda>_. False), tp_sorted = []\<rparr> of
        None \<Rightarrow> None | Some (Inl p) \<Rightarrow> Some (Inl p) | Some (Inr st) \<Rightarrow> Some (Inr (tp_sorted st)))"

definition TopologicalOrder :: "'v graph \<Rightarrow> (cycle_panic + 'v list) option" where
  "TopologicalOrder g = topoOrder (UpEdges g) (gr_vertices g)"

definition ReverseTopologicalOrder :: "'v graph \<Rightarrow> (cycle_panic + 'v list) option" where
  "ReverseTopologicalOrder g = topoOrder (DownEdges g) (gr_vertices g)"

end
