(* ===== verification/DagFacts.thy ===== *)
theory DagFacts
  imports Dag
begin

text \<open>
  What the graph library keeps: the edges of a graph and the sets it looks up from either end agree after
  every operation.  The walk is an interface, \<open>walk_visitor\<close>: a callback that leaves alone the edges of
  what can be reached is called once for each vertex that can.
\<close>

section \<open>The three views of the edges\<close>

definition graph_ok :: "'v graph \<Rightarrow> bool" where
  "graph_ok g \<longleftrightarrow> distinct (gr_vertices g) \<and> distinct (gr_edges g)
     \<and> (\<forall>v. distinct (DownEdges g v) \<and> distinct (UpEdges g v))
     \<and> (\<forall>u v. v \<in> set (DownEdges g u) \<longleftrightarrow> (u, v) \<in> set (gr_edges g))
     \<and> (\<forall>u v. u \<in> set (UpEdges g v) \<longleftrightarrow> (u, v) \<in> set (gr_edges g))"

lemma graph_ok_sets [simp]:
  assumes "graph_ok g"
  shows "set (DownEdges g u) = {v. (u, v) \<in> set (gr_edges g)}" "set (UpEdges g v) = {u. (u, v) \<in> set (gr_edges g)}"
    "distinct (gr_vertices g)" "distinct (gr_edges g)" "distinct (DownEdges g u)" "distinct (UpEdges g u)"
  using assms unfolding graph_ok_def by blast+

lemma graph_okI:
  assumes "distinct (gr_vertices g)" "distinct (gr_edges g)" "\<And>v. distinct (DownEdges g v)" "\<And>v. distinct (UpEdges g v)"
    and "\<And>u v. v \<in> set (DownEdges g u) \<longleftrightarrow> (u, v) \<in> set (gr_edges g)" "\<And>u v. u \<in> set (UpEdges g v) \<longleftrightarrow> (u, v) \<in> set (gr_edges g)"
  shows "graph_ok g"
  using assms by (simp add: graph_ok_def del: graph_ok_sets)

lemma set_ops [simp]:
  "set (set_Add v s) = insert v (set s)" "distinct (set_Add v s) \<longleftrightarrow> distinct s"
  "set (set_Delete v s) = set s - {v}" "distinct s \<Longrightarrow> distinct (set_Delete v s)"
  "set (set_Intersection s t) = set s \<inter> set t" "set (set_Difference s t) = set s - set t"
  by (auto simp: set_Add_def set_Delete_def set_Intersection_def set_Difference_def Let_def split: if_splits)

lemma adjacent_drop [simp]: "adjacent (drop_adjacent k v m) x = (if x = k then set_Delete v (adjacent m k) else adjacent m x)"
  by (auto simp: adjacent_def drop_adjacent_def set_Delete_def split: option.splits)

lemma adjacent_upd [simp]: "adjacent (m(k \<mapsto> s)) x = (if x = k then s else adjacent m x)"
  by (simp add: adjacent_def)

lemma empty_ok: "graph_ok empty_graph"
  by (rule graph_okI) (simp_all add: empty_graph_def DownEdges_def UpEdges_def adjacent_def)

lemma Add_sets [simp]: "set (gr_vertices (dag_Add v g)) = insert v (set (gr_vertices g))" "gr_edges (dag_Add v g) = gr_edges g"
  "DownEdges (dag_Add v g) = DownEdges g" "UpEdges (dag_Add v g) = UpEdges g"
  by (simp_all add: dag_Add_def DownEdges_def UpEdges_def fun_eq_iff)

lemma Add_ok [simp]: "graph_ok g \<Longrightarrow> graph_ok (dag_Add v g)"
  unfolding graph_ok_def Add_sets by (simp add: dag_Add_def)

lemma RemoveEdge_sets [simp]:
  "gr_vertices (RemoveEdge e g) = gr_vertices g" "set (gr_edges (RemoveEdge e g)) = set (gr_edges g) - {e}"
  "DownEdges (RemoveEdge e g) x = (if x = fst e then set_Delete (snd e) (DownEdges g x) else DownEdges g x)"
  "UpEdges (RemoveEdge e g) x = (if x = snd e then set_Delete (fst e) (UpEdges g x) else UpEdges g x)"
  by (cases e; simp add: RemoveEdge_def DownEdges_def UpEdges_def)+

lemma RemoveEdge_ok [simp]:
  assumes "graph_ok g"
  shows "graph_ok (RemoveEdge e g)"
proof -
  obtain u v where e: "e = (u, v)" by fastforce
  show ?thesis
  proof (rule graph_okI)
    show "distinct (gr_edges (RemoveEdge e g))" using assms by (simp add: RemoveEdge_def e)
  qed (use assms in \<open>auto simp: e\<close>)
qed

lemma Connect_sets [simp]:
  assumes "graph_ok g"
  shows "gr_vertices (Connect e g) = gr_vertices g" "set (gr_edges (Connect e g)) = insert e (set (gr_edges g))"
  using assms by (cases e; auto simp: Connect_def)+

lemma Connect_ok [simp]:
  assumes "graph_ok g"
  shows "graph_ok (Connect e g)"
proof -
  obtain u v where e: "e = (u, v)" by fastforce
  show ?thesis
  proof (cases "v \<in> set (DownEdges g u)")
    case True
    then show ?thesis using assms by (simp add: Connect_def e)
  next
    case False
    then have down: "DownEdges (Connect (u, v) g) x = (if x = u then set_Add v (DownEdges g u) else DownEdges g x)"
      and up: "UpEdges (Connect (u, v) g) x = (if x = v then set_Add u (UpEdges g v) else UpEdges g x)" for x
      by (simp_all add: Connect_def DownEdges_def UpEdges_def)
    show ?thesis
    proof (rule graph_okI)
      show "distinct (gr_edges (Connect e g))" using assms False by (simp add: Connect_def e)
    qed (use assms in \<open>auto simp: down up e\<close>)
  qed
qed

lemma fold_RemoveEdge:
  assumes "graph_ok g"
  shows "graph_ok (fold (\<lambda>x. RemoveEdge (h x)) xs g)
    \<and> gr_vertices (fold (\<lambda>x. RemoveEdge (h x)) xs g) = gr_vertices g
    \<and> set (gr_edges (fold (\<lambda>x. RemoveEdge (h x)) xs g)) = set (gr_edges g) - h ` set xs"
  using assms by (induction xs arbitrary: g) auto

lemma fold_Connect:
  assumes "graph_ok g"
  shows "graph_ok (fold (\<lambda>x. Connect (h x)) xs g)
    \<and> gr_vertices (fold (\<lambda>x. Connect (h x)) xs g) = gr_vertices g
    \<and> set (gr_edges (fold (\<lambda>x. Connect (h x)) xs g)) = set (gr_edges g) \<union> h ` set xs"
  using assms by (induction xs arbitrary: g) auto

lemma fold_Add:
  assumes "graph_ok g"
  shows "graph_ok (fold dag_Add vs g) \<and> set (gr_vertices (fold dag_Add vs g)) = set (gr_vertices g) \<union> set vs
    \<and> gr_edges (fold dag_Add vs g) = gr_edges g"
  using assms by (induction vs arbitrary: g) auto

lemma Remove_spec:
  assumes "graph_ok g"
  shows "graph_ok (dag_Remove v g) \<and> set (gr_vertices (dag_Remove v g)) = set (gr_vertices g) - {v}
    \<and> set (gr_edges (dag_Remove v g)) = {(a, b) \<in> set (gr_edges g). a \<noteq> v \<and> b \<noteq> v}"
proof -
  define g0 where "g0 = g\<lparr>gr_vertices := set_Delete v (gr_vertices g)\<rparr>"
  have g0: "graph_ok g0" "set (gr_vertices g0) = set (gr_vertices g) - {v}" "gr_edges g0 = gr_edges g"
    using assms by (simp_all add: g0_def graph_ok_def DownEdges_def UpEdges_def del: graph_ok_sets)
  define g1 where "g1 = fold (\<lambda>target. RemoveEdge (v, target)) (DownEdges g0 v) g0"
  note r1 = fold_RemoveEdge [OF g0(1), of "\<lambda>target. (v, target)" "DownEdges g0 v", folded g1_def]
  then have g1: "graph_ok g1" by blast
  note r2 = fold_RemoveEdge [OF g1, of "\<lambda>source. (source, v)" "UpEdges g1 v"]
  have "dag_Remove v g = fold (\<lambda>source. RemoveEdge (source, v)) (UpEdges g1 v) g1"
    by (simp add: dag_Remove_def g0_def g1_def Let_def)
  moreover have "set (gr_edges g1) = set (gr_edges g) - {v} \<times> UNIV"
    using r1 g0 by auto
  moreover have "set (UpEdges g1 v) = {u. (u, v) \<in> set (gr_edges g1)}" using g1 by simp
  ultimately show ?thesis using r1 r2 g0(2) by (auto simp del: graph_ok_sets)
qed

abbreviation rename :: "'v \<Rightarrow> 'v \<Rightarrow> 'v \<Rightarrow> 'v" where
  "rename original replacement x \<equiv> if x = original then replacement else x"

lemma rename_edges:
  assumes "original \<noteq> replacement"
    and E1: "E1 = E \<union> {(replacement, t) |t. (original, t) \<in> E}"
    and E2: "E2 = E1 \<union> {(s, replacement) |s. (s, original) \<in> E1}"
  shows "{(a, b) \<in> E2. a \<noteq> original \<and> b \<noteq> original} = map_prod (rename original replacement) (rename original replacement) ` E"
    (is "?L = ?h ` E")
proof (intro equalityI subrelI)
  fix a b
  assume "(a, b) \<in> ?L"
  then consider "(a, b) \<in> E" "a \<noteq> original" "b \<noteq> original"
    | "a = replacement" "(original, b) \<in> E" "b \<noteq> original"
    | "b = replacement" "(a, original) \<in> E" "a \<noteq> original"
    | "b = replacement" "a = replacement" "(original, original) \<in> E"
    unfolding E2 E1 by blast
  then show "(a, b) \<in> ?h ` E"
  proof cases
    case 1
    then show ?thesis by (intro image_eqI [where x = "(a, b)"]) auto
  next
    case 2
    then show ?thesis by (intro image_eqI [where x = "(original, b)"]) auto
  next
    case 3
    then show ?thesis by (intro image_eqI [where x = "(a, original)"]) auto
  next
    case 4
    then show ?thesis by (intro image_eqI [where x = "(original, original)"]) auto
  qed
next
  fix a b
  assume "(a, b) \<in> ?h ` E"
  then obtain x y where "(x, y) \<in> E" "a = rename original replacement x" "b = rename original replacement y" by auto
  then show "(a, b) \<in> ?L" using assms(1) by (cases "x = original"; cases "y = original") (auto simp: E2 E1)
qed

lemma Replace_spec:
  assumes "graph_ok g" "original \<in> set (gr_vertices g)" "original \<noteq> replacement"
  shows "\<exists>g'. dag_Replace original replacement g = (True, g') \<and> graph_ok g'
    \<and> set (gr_vertices g') = insert replacement (set (gr_vertices g) - {original})
    \<and> set (gr_edges g') = map_prod (rename original replacement) (rename original replacement) ` set (gr_edges g)"
proof -
  define g0 where "g0 = dag_Add replacement g"
  have g0: "graph_ok g0" "set (gr_vertices g0) = insert replacement (set (gr_vertices g))" "gr_edges g0 = gr_edges g"
    using assms(1) by (simp_all add: g0_def)
  define g1 where "g1 = fold (\<lambda>target. Connect (replacement, target)) (DownEdges g0 original) g0"
  note r1 = fold_Connect [OF g0(1), of "\<lambda>target. (replacement, target)" "DownEdges g0 original", folded g1_def]
  then have g1: "graph_ok g1" by blast
  define g2 where "g2 = fold (\<lambda>source. Connect (source, replacement)) (UpEdges g1 original) g1"
  note r2 = fold_Connect [OF g1, of "\<lambda>source. (source, replacement)" "UpEdges g1 original", folded g2_def]
  then have g2: "graph_ok g2" by blast
  note r3 = Remove_spec [OF g2, of original]
  have eq: "dag_Replace original replacement g = (True, dag_Remove original g2)"
    using assms(2,3) by (simp add: dag_Replace_def g0_def g1_def g2_def Let_def)
  have E1: "set (gr_edges g1) = set (gr_edges g) \<union> {(replacement, t) |t. (original, t) \<in> set (gr_edges g)}"
    using r1 g0 by auto
  have E2: "set (gr_edges g2) = set (gr_edges g1) \<union> {(s, replacement) |s. (s, original) \<in> set (gr_edges g1)}"
    using r2 g1 by auto
  have "set (gr_edges (dag_Remove original g2)) = {(a, b) \<in> set (gr_edges g2). a \<noteq> original \<and> b \<noteq> original}"
    using r3 by blast
  also have "\<dots> = map_prod (rename original replacement) (rename original replacement) ` set (gr_edges g)"
    by (rule rename_edges [OF assms(3) E1 E2])
  finally have edges: "set (gr_edges (dag_Remove original g2)) =
      map_prod (rename original replacement) (rename original replacement) ` set (gr_edges g)" .
  have "set (gr_vertices (dag_Remove original g2)) = insert replacement (set (gr_vertices g) - {original})"
    using r1 r2 r3 g0(2) assms(3) by (simp del: graph_ok_sets) blast
  then show ?thesis using eq r3 edges by blast
qed

end
