(* ===== verification/DagWalk.thy ===== *)
theory DagWalk
  imports DagFacts
begin

text \<open>
  The walk of \<open>dag.go\<close> as an interface, \<open>walk_visitor\<close>: a callback that leaves alone the edges of what can
  be reached is called once for each vertex that can, whichever way the frontier is popped, and the fuel
  is enough.  \<open>Ancestors\<close> and \<open>Descendents\<close> provide it here, the transitive reduction in \<open>DagReduce\<close>.
\<close>

lemma pop_frontier:
  assumes "(if depthFirst then last (x # xs) else x) = e"
  shows "set (x # xs) = insert e (set (if depthFirst then butlast (x # xs) else xs))"
    "length (if depthFirst then butlast (x # xs) else xs) = length xs"
proof -
  have "set (x # xs) = set (butlast (x # xs) @ [last (x # xs)])" by (subst append_butlast_last_id) simp_all
  then show "set (x # xs) = insert e (set (if depthFirst then butlast (x # xs) else xs))" using assms by (cases depthFirst) auto
qed simp

locale walk_visitor =
  fixes succs :: "'s \<Rightarrow> 'v \<Rightarrow> 'v list" and visit :: "'v \<Rightarrow> nat \<Rightarrow> 's \<Rightarrow> 'e option \<times> 's"
    and E :: "('v \<times> 'v) set" and S :: "'v set" and visited :: "'v set \<Rightarrow> 's \<Rightarrow> bool"
  assumes finite_edges: "visited V s \<Longrightarrow> finite E"
    and succs_edges: "\<lbrakk>visited V s; v \<in> V; v \<in> E\<^sup>* `` S\<rbrakk> \<Longrightarrow> distinct (succs s v) \<and> set (succs s v) = E `` {v}"
    and visit_step: "\<lbrakk>visited V s; v \<notin> V; v \<in> E\<^sup>* `` S\<rbrakk> \<Longrightarrow> fst (visit v d s) = None \<and> visited (insert v V) (snd (visit v d s))"
begin

abbreviation pending :: "'v set \<Rightarrow> ('v \<times> 'v) set" where
  "pending V \<equiv> {e \<in> E. fst e \<notin> V}"

lemma pending_insert:
  assumes "finite E" "v \<notin> V"
  shows "card (pending V) = card (pending (insert v V)) + card (E `` {v})"
proof -
  have "pending V = pending (insert v V) \<union> Pair v ` (E `` {v})" using assms(2) by force
  moreover have "pending (insert v V) \<inter> Pair v ` (E `` {v}) = {}" by auto
  moreover have "finite (E `` {v})" using assms(1) by (rule finite_Image)
  ultimately show ?thesis using assms(1) by (simp add: card_Un_disjoint card_image inj_on_def)
qed

lemma closed_visits:
  assumes "S \<subseteq> V" "E `` V \<subseteq> V" "V \<subseteq> E\<^sup>* `` S"
  shows "V = E\<^sup>* `` S"
proof -
  have "E\<^sup>* `` V = V" using assms(2) by (rule Image_closed_trancl)
  then show ?thesis using assms(1,3) by blast
qed

lemma loop_visits:
  assumes "visited (set seen) s" "set seen \<subseteq> E\<^sup>* `` S" "fst ` set frontier \<subseteq> E\<^sup>* `` S" "S \<subseteq> set seen \<union> fst ` set frontier"
    and "E `` set seen \<subseteq> set seen \<union> fst ` set frontier" "length frontier + card (pending (set seen)) \<le> n"
  shows "\<exists>s'. walk_loop n depthFirst succs visit seen frontier s = Some (None, s') \<and> visited (E\<^sup>* `` S) s'"
  using assms
proof (induction n arbitrary: seen frontier s)
  case (0 seen frontier s)
  then have "frontier = []" by simp
  moreover have "set seen = E\<^sup>* `` S" using 0(2,4,5) \<open>frontier = []\<close> by (intro closed_visits) simp_all
  ultimately show ?case using 0(1) by simp
next
  case (Suc n seen frontier s)
  note inv = Suc.prems
  show ?case
  proof (cases frontier)
    case Nil
    then have "set seen = E\<^sup>* `` S" using inv(2,4,5) by (intro closed_visits) simp_all
    then show ?thesis using inv(1) Nil by simp
  next
    case (Cons x xs)
    obtain v d where vd: "(if depthFirst then last (x # xs) else x) = (v, d)" by fastforce
    define rest where "rest = (if depthFirst then butlast (x # xs) else xs)"
    have popped: "set frontier = insert (v, d) (set rest)" "length rest < length frontier"
      using pop_frontier [of depthFirst x xs "(v, d)"] vd Cons by (simp_all add: rest_def)
    show ?thesis
    proof (cases "v \<in> set seen")
      case True
      have "\<exists>s'. walk_loop n depthFirst succs visit seen rest s = Some (None, s') \<and> visited (E\<^sup>* `` S) s'"
        by (rule Suc.IH) (use inv popped True in auto)
      then show ?thesis using True Cons vd by (simp add: rest_def Let_def)
    next
      case False
      have v: "v \<in> E\<^sup>* `` S" using inv(3) popped(1) by auto
      then have E_v: "E `` {v} \<subseteq> E\<^sup>* `` S" by (auto intro: rtrancl_into_rtrancl)
      obtain s' where s': "visit v d s = (None, s')" "visited (set (v # seen)) s'"
        using visit_step [OF inv(1) False v, of d] by (cases "visit v d s") auto
      have new: "distinct (succs s' v)" "set (succs s' v) = E `` {v}"
        using succs_edges [OF s'(2) _ v] by simp_all
      define pushed where "pushed = rest @ map (\<lambda>u. (u, d + 1)) (succs s' v)"
      have sets: "fst ` set pushed = fst ` set rest \<union> E `` {v}" by (simp add: pushed_def new(2) image_Un image_image)
      have len: "length pushed = length rest + card (E `` {v})" using new by (simp add: pushed_def flip: distinct_card)
      have "\<exists>t. walk_loop n depthFirst succs visit (v # seen) pushed s' = Some (None, t) \<and> visited (E\<^sup>* `` S) t"
      proof (rule Suc.IH)
        show "length pushed + card (pending (set (v # seen))) \<le> n"
          using inv(6) popped(2) pending_insert [OF finite_edges [OF inv(1)] False] len by simp
      qed (use inv popped(1) v E_v s'(2) in \<open>auto simp: sets\<close>)
      then show ?thesis using False Cons vd s'(1) by (simp add: rest_def pushed_def Let_def)
    qed
  qed
qed

lemma walk_visits:
  assumes "visited {} s" "set start = S" "card E \<le> edges"
  shows "\<exists>s'. dag_walk edges depthFirst succs start visit s = Some (None, s') \<and> visited (E\<^sup>* `` S) s'"
  unfolding dag_walk_def
  by (rule loop_visits) (use assms in \<open>auto simp: image_image\<close>)

end

section \<open>Ancestors and descendants\<close>

definition memoized :: "'v graph \<Rightarrow> 'v set \<Rightarrow> 'v list \<Rightarrow> bool" where
  "memoized g V s \<longleftrightarrow> graph_ok g \<and> distinct s \<and> set s = V"

interpretation down: walk_visitor "\<lambda>_. DownEdges g" memo "set (gr_edges g)" S "memoized g" for g :: "'v graph" and S
  by unfold_locales (auto simp: memoized_def memo_def)

interpretation up: walk_visitor "\<lambda>_. UpEdges g" memo "(set (gr_edges g))\<inverse>" S "memoized g" for g :: "'v graph" and S
  by unfold_locales (auto simp: memoized_def memo_def)

lemma rtrancl_after_edge: "E\<^sup>* `` {w. (v, w) \<in> E} = {w. (v, w) \<in> E\<^sup>+}"
  by (auto dest: rtrancl_into_trancl2 tranclD)

lemma Ancestors_spec:
  assumes "graph_ok g"
  shows "\<exists>s. Ancestors g v = Some (None, s) \<and> distinct s \<and> set s = {w. (v, w) \<in> (set (gr_edges g))\<^sup>+}"
proof -
  have "set (DownEdges g v) = {w. (v, w) \<in> set (gr_edges g)}" using assms by simp
  then show ?thesis
    using down.walk_visits [of g "[]" "DownEdges g v" "set (DownEdges g v)" "length (gr_edges g)" True] assms
    by (simp add: memoized_def Ancestors_def card_length rtrancl_after_edge)
qed

lemma Descendents_spec:
  assumes "graph_ok g"
  shows "\<exists>s. Descendents g v = Some (None, s) \<and> distinct s \<and> set s = {w. (w, v) \<in> (set (gr_edges g))\<^sup>+}"
proof -
  have "set (UpEdges g v) = (set (gr_edges g))\<inverse> `` {v}" using assms by auto
  moreover have "card ((set (gr_edges g))\<inverse>) \<le> length (gr_edges g)" by (metis card_inverse card_length)
  ultimately show ?thesis
    using up.walk_visits [of g "[]" "UpEdges g v" "set (UpEdges g v)" "length (gr_edges g)" True] assms rtrancl_after_edge [of "(set (gr_edges g))\<inverse>" v]
    by (simp add: memoized_def Descendents_def trancl_converse)
qed

end
