(* ===== verification/DagReduce.thy ===== *)
theory DagReduce
  imports DagWalk
begin

text \<open>
  \<open>TransitiveReduction\<close> of \<open>dag.go\<close>: on a graph without cycles it leaves out exactly the edges that a longer
  path replaces, so what can be reached stays and no set of edges with the same reachability is smaller.
\<close>

section \<open>Reductions of a relation\<close>

definition shortcuts :: "('v \<times> 'v) set \<Rightarrow> 'v set \<Rightarrow> ('v \<times> 'v) set" where
  "shortcuts E D = {(u, w) \<in> E. u \<in> D \<and> (\<exists>t. (u, t) \<in> E \<and> (t, w) \<in> E\<^sup>+)}"

lemma between_smaller:
  assumes "finite E" "acyclic E" "(u, t) \<in> E\<^sup>+" "(t, w) \<in> E\<^sup>+"
  shows "card {x. (u, x) \<in> E\<^sup>+ \<and> (x, t) \<in> E\<^sup>+} < card {x. (u, x) \<in> E\<^sup>+ \<and> (x, w) \<in> E\<^sup>+}"
    "card {x. (t, x) \<in> E\<^sup>+ \<and> (x, w) \<in> E\<^sup>+} < card {x. (u, x) \<in> E\<^sup>+ \<and> (x, w) \<in> E\<^sup>+}"
proof -
  have "{x. (u, x) \<in> E\<^sup>+ \<and> (x, w) \<in> E\<^sup>+} \<subseteq> snd ` E\<^sup>+" by force
  moreover have "finite (snd ` E\<^sup>+)" using assms(1) by simp
  ultimately have fin: "finite {x. (u, x) \<in> E\<^sup>+ \<and> (x, w) \<in> E\<^sup>+}" by (rule finite_subset)
  have "(t, t) \<notin> E\<^sup>+" using assms(2) by (simp add: acyclic_def)
  then show "card {x. (u, x) \<in> E\<^sup>+ \<and> (x, t) \<in> E\<^sup>+} < card {x. (u, x) \<in> E\<^sup>+ \<and> (x, w) \<in> E\<^sup>+}"
    "card {x. (t, x) \<in> E\<^sup>+ \<and> (x, w) \<in> E\<^sup>+} < card {x. (u, x) \<in> E\<^sup>+ \<and> (x, w) \<in> E\<^sup>+}"
    using assms(3,4) by (auto intro!: psubset_card_mono [OF fin] dest: trancl_trans)
qed

lemma reduction_reaches:
  assumes "finite E" "acyclic E"
  shows "(E - shortcuts E D)\<^sup>+ = E\<^sup>+"
proof (intro equalityI subrelI)
  fix u w
  assume "(u, w) \<in> E\<^sup>+"
  then show "(u, w) \<in> (E - shortcuts E D)\<^sup>+"
  proof (induction "card {x. (u, x) \<in> E\<^sup>+ \<and> (x, w) \<in> E\<^sup>+}" arbitrary: u w rule: less_induct)
    case less
    show ?case
    proof (cases "\<exists>t. (u, t) \<in> E\<^sup>+ \<and> (t, w) \<in> E\<^sup>+")
      case True
      then obtain t where t: "(u, t) \<in> E\<^sup>+" "(t, w) \<in> E\<^sup>+" by blast
      then show ?thesis using between_smaller [OF assms t] by (blast intro: less.hyps trancl_trans)
    next
      case False
      then have "(u, w) \<in> E" using less.prems by (meson converse_tranclE r_into_trancl')
      moreover have "(u, w) \<notin> shortcuts E D" using False by (auto simp: shortcuts_def)
      ultimately show ?thesis by blast
    qed
  qed
next
  fix u w
  assume "(u, w) \<in> (E - shortcuts E D)\<^sup>+"
  then show "(u, w) \<in> E\<^sup>+" by (rule trancl_mono) blast
qed

lemma reduction_least:
  assumes "R\<^sup>+ = E\<^sup>+" "fst ` E \<subseteq> D"
  shows "E - shortcuts E D \<subseteq> R"
proof (rule subrelI)
  fix u w
  assume uw: "(u, w) \<in> E - shortcuts E D"
  then have "(u, w) \<in> R\<^sup>+" using assms(1) by blast
  then show "(u, w) \<in> R"
  proof (rule converse_tranclE)
    fix t
    assume "(u, t) \<in> R" "(t, w) \<in> R\<^sup>+"
    then have "(u, t) \<in> E\<^sup>+" "(t, w) \<in> E\<^sup>+" using assms(1) by blast+
    then obtain t' where "(u, t') \<in> E" "(t', w) \<in> E\<^sup>+"
      by (meson converse_tranclE trancl_trans)
    then have "(u, w) \<in> shortcuts E D" using uw assms(2) by (force simp: shortcuts_def)
    then show ?thesis using uw by blast
  qed simp
qed

section \<open>The walk from one vertex\<close>

text \<open>The graph of a vertex \<open>u\<close> when the walk from its targets, in \<open>g0\<close>, has visited \<open>V\<close>.\<close>

definition reducing :: "'v graph \<Rightarrow> 'v \<Rightarrow> 'v set \<Rightarrow> 'v graph \<Rightarrow> bool" where
  "reducing g0 u V g \<longleftrightarrow> graph_ok g0 \<and> acyclic (set (gr_edges g0)) \<and> graph_ok g \<and> gr_vertices g = gr_vertices g0
     \<and> set (gr_edges g) = set (gr_edges g0) - {u} \<times> {w. \<exists>v \<in> V. (v, w) \<in> set (gr_edges g0)}"

lemma reducing_below:
  assumes "reducing g0 u V g" "v \<in> (set (gr_edges g0))\<^sup>* `` {w. (u, w) \<in> set (gr_edges g0)}"
  shows "v \<noteq> u" "set (DownEdges g v) = set (gr_edges g0) `` {v}"
proof -
  show "v \<noteq> u" using assms by (auto simp: reducing_def acyclic_def dest: rtrancl_into_trancl2)
  then show "set (DownEdges g v) = set (gr_edges g0) `` {v}" using assms(1) by (auto simp: reducing_def)
qed

interpretation reduce: walk_visitor DownEdges "reduce_visit u" "set (gr_edges g0)" "{w. (u, w) \<in> set (gr_edges g0)}" "reducing g0 u"
  for g0 :: "'v graph" and u
proof unfold_locales
  fix V g v
  assume "reducing g0 u V g" "v \<in> (set (gr_edges g0))\<^sup>* `` {w. (u, w) \<in> set (gr_edges g0)}"
  then show "distinct (DownEdges g v) \<and> set (DownEdges g v) = set (gr_edges g0) `` {v}"
    using reducing_below [of g0 u V g v] by (auto simp: reducing_def)
next
  fix V g v d
  assume inv: "reducing g0 u V g" and v: "v \<in> (set (gr_edges g0))\<^sup>* `` {w. (u, w) \<in> set (gr_edges g0)}"
  then have g: "graph_ok g" by (simp add: reducing_def)
  have "graph_ok (snd (reduce_visit u v d g))" "gr_vertices (snd (reduce_visit u v d g)) = gr_vertices g"
    "set (gr_edges (snd (reduce_visit u v d g))) = set (gr_edges g) - Pair u ` (set (DownEdges g u) \<inter> set (DownEdges g v))"
    using fold_RemoveEdge [OF g, of "Pair u"] by (simp_all add: reduce_visit_def del: graph_ok_sets)
  moreover have "set (gr_edges g) - Pair u ` (set (DownEdges g u) \<inter> set (DownEdges g v))
      = set (gr_edges g0) - {u} \<times> {w. \<exists>x \<in> insert v V. (x, w) \<in> set (gr_edges g0)}"
    unfolding reducing_below(2) [OF inv v] using inv g by (auto simp: reducing_def)
  ultimately show "fst (reduce_visit u v d g) = None \<and> reducing g0 u (insert v V) (snd (reduce_visit u v d g))"
    using inv by (simp add: reducing_def reduce_visit_def del: graph_ok_sets)
qed (simp add: reducing_def)

lemma reduce_one:
  assumes "graph_ok g" "acyclic (set (gr_edges g))"
  shows "\<exists>g'. dag_walk (length (gr_edges g)) True DownEdges (DownEdges g u) (reduce_visit u) g = Some (None, g') \<and> graph_ok g'
    \<and> gr_vertices g' = gr_vertices g \<and> set (gr_edges g') = set (gr_edges g) - shortcuts (set (gr_edges g)) {u}"
proof -
  let ?E = "set (gr_edges g)"
  have "reducing g u {} g" using assms by (simp add: reducing_def)
  moreover have "set (DownEdges g u) = {w. (u, w) \<in> ?E}" using assms(1) by simp
  ultimately obtain g' where g': "dag_walk (length (gr_edges g)) True DownEdges (DownEdges g u) (reduce_visit u) g = Some (None, g')"
    "reducing g u (?E\<^sup>* `` {w. (u, w) \<in> ?E}) g'"
    using reduce.walk_visits [of g u g "DownEdges g u" "length (gr_edges g)" True] by (auto simp: card_length)
  have "(\<exists>v \<in> ?E\<^sup>* `` {w. (u, w) \<in> ?E}. (v, w) \<in> ?E) \<longleftrightarrow> (\<exists>t. (u, t) \<in> ?E \<and> (t, w) \<in> ?E\<^sup>+)" for w
    by (auto intro: rtrancl_into_trancl1 dest: tranclD2)
  then have "set (gr_edges g') = ?E - shortcuts ?E {u}"
    using g'(2) unfolding reducing_def shortcuts_def by auto
  then show ?thesis using g' by (auto simp: reducing_def)
qed

lemma shortcuts_step:
  assumes "finite E" "acyclic E" "u \<notin> D"
  shows "E - shortcuts E D - shortcuts (E - shortcuts E D) {u} = E - shortcuts E (insert u D)"
proof -
  have "shortcuts (E - shortcuts E D) {u} = shortcuts E {u} - shortcuts E D"
    using assms(3) reduction_reaches [OF assms(1,2), of D] by (auto simp: shortcuts_def)
  then show ?thesis by (auto simp: shortcuts_def)
qed

lemma reduce_all_reduces:
  assumes "graph_ok g" "finite E" "acyclic E" "set (gr_edges g) = E - shortcuts E D" "distinct us" "set us \<inter> D = {}"
  shows "\<exists>g'. reduce_all us g = Some g' \<and> graph_ok g' \<and> gr_vertices g' = gr_vertices g
    \<and> set (gr_edges g') = E - shortcuts E (D \<union> set us)"
  using assms
proof (induction us arbitrary: g D)
  case (Cons u us)
  have acyc: "acyclic (set (gr_edges g))" using Cons.prems(3,4) by (auto intro: acyclic_subset)
  then obtain g1 where g1: "dag_walk (length (gr_edges g)) True DownEdges (DownEdges g u) (reduce_visit u) g = Some (None, g1)"
    "graph_ok g1" "gr_vertices g1 = gr_vertices g" "set (gr_edges g1) = set (gr_edges g) - shortcuts (set (gr_edges g)) {u}"
    using reduce_one [OF Cons.prems(1) acyc, of u] by blast
  have "set (gr_edges g1) = E - shortcuts E (insert u D)"
    unfolding g1(4) Cons.prems(4) by (rule shortcuts_step [OF Cons.prems(2,3)]) (use Cons.prems(6) in auto)
  then obtain g' where "reduce_all us g1 = Some g'" "graph_ok g'" "gr_vertices g' = gr_vertices g1"
    "set (gr_edges g') = E - shortcuts E (insert u D \<union> set us)"
    using Cons.IH [of g1 "insert u D"] g1(2) Cons.prems(2,3,5,6) by (auto simp del: graph_ok_sets)
  then show ?case using g1(1,3) by (simp del: graph_ok_sets)
qed (simp del: graph_ok_sets)

lemma reduction_spec:
  assumes "graph_ok g" "acyclic (set (gr_edges g))"
  shows "\<exists>g'. TransitiveReduction g = Some g' \<and> graph_ok g' \<and> gr_vertices g' = gr_vertices g
    \<and> set (gr_edges g') = set (gr_edges g) - shortcuts (set (gr_edges g)) (set (gr_vertices g))"
  using reduce_all_reduces [of g "set (gr_edges g)" "{}" "gr_vertices g"] assms
  by (simp add: TransitiveReduction_def shortcuts_def)

text \<open>
  C35. The transitive reduction of a graph without cycles, every edge of which starts at one of its vertices,
  ends in a graph that is well formed, has the same vertices, only edges it had, and reaches from every
  vertex what it reached, with the fewest edges: every set of edges that reaches the same holds them all.
\<close>

theorem reduction_minimal:
  assumes "graph_ok g" "acyclic (set (gr_edges g))" "fst ` set (gr_edges g) \<subseteq> set (gr_vertices g)"
  shows "\<exists>g'. TransitiveReduction g = Some g' \<and> graph_ok g' \<and> gr_vertices g' = gr_vertices g
    \<and> set (gr_edges g') \<subseteq> set (gr_edges g) \<and> (set (gr_edges g'))\<^sup>+ = (set (gr_edges g))\<^sup>+
    \<and> (\<forall>R. R\<^sup>+ = (set (gr_edges g))\<^sup>+ \<longrightarrow> set (gr_edges g') \<subseteq> R)"
proof -
  let ?E = "set (gr_edges g)" and ?D = "set (gr_vertices g)"
  have "(?E - shortcuts ?E ?D)\<^sup>+ = ?E\<^sup>+" using assms(2) by (simp add: reduction_reaches)
  moreover have "\<forall>R. R\<^sup>+ = ?E\<^sup>+ \<longrightarrow> ?E - shortcuts ?E ?D \<subseteq> R" using assms(3) by (simp add: reduction_least)
  ultimately show ?thesis using reduction_spec [OF assms(1,2)] by (metis Diff_subset)
qed

text \<open>A graph whose edge from 1 to 3 the path over 2 replaces.\<close>

definition triangle :: "nat graph" where
  "triangle = fold Connect [(1, 2), (2, 3), (1, 3)] (fold dag_Add [1, 2, 3] empty_graph)"

lemma triangle_graph:
  "graph_ok triangle" "set (gr_edges triangle) = {(1, 2), (2, 3), (1, 3)}" "set (gr_vertices triangle) = {1, 2, 3}"
proof -
  note add = fold_Add [OF empty_ok, of "[1, 2, 3::nat]"]
  then have "graph_ok (fold dag_Add [1, 2, 3::nat] empty_graph)" by blast
  note con = fold_Connect [OF this, of "\<lambda>e. e" "[(1, 2), (2, 3), (1, 3)]"]
  show "graph_ok triangle" "set (gr_edges triangle) = {(1, 2), (2, 3), (1, 3)}" "set (gr_vertices triangle) = {1, 2, 3}"
    using add con by (auto simp: triangle_def empty_graph_def)
qed

theorem reduction_minimal_witness:
  "\<exists>g'. TransitiveReduction triangle = Some g' \<and> set (gr_edges g') \<subseteq> {(1, 2), (2, 3)}
    \<and> (set (gr_edges g'))\<^sup>+ = {(1, 2), (2, 3), (1, 3)}\<^sup>+"
proof -
  have "{(1, 2), (2, 3), (1, 3)} \<subseteq> less_than" by auto
  then have acyc: "acyclic (set (gr_edges triangle))"
    unfolding triangle_graph using wf_acyclic [OF wf_less_than] acyclic_subset by blast
  have "(1, 3) \<in> {(1::nat, 2), (2::nat, 3)}\<^sup>+" by (rule trancl_into_trancl [of _ 2]) auto
  then have "{(1::nat, 2), (2, 3), (1, 3)} \<subseteq> {(1, 2), (2, 3)}\<^sup>+" by auto
  then have "{(1::nat, 2), (2, 3), (1, 3)}\<^sup>+ \<subseteq> ({(1, 2), (2, 3)}\<^sup>+)\<^sup>+" by (intro subrelI) (erule trancl_mono)
  moreover have "{(1::nat, 2), (2, 3)}\<^sup>+ \<subseteq> {(1, 2), (2, 3), (1, 3)}\<^sup>+" by (intro subrelI, erule trancl_mono) auto
  ultimately have same: "{(1::nat, 2), (2, 3)}\<^sup>+ = (set (gr_edges triangle))\<^sup>+" unfolding triangle_graph by (simp add: trancl_id)
  have "fst ` set (gr_edges triangle) \<subseteq> set (gr_vertices triangle)" by (simp add: triangle_graph)
  then obtain g' where "TransitiveReduction triangle = Some g'" "(set (gr_edges g'))\<^sup>+ = (set (gr_edges triangle))\<^sup>+"
    "\<And>R. R\<^sup>+ = (set (gr_edges triangle))\<^sup>+ \<Longrightarrow> set (gr_edges g') \<subseteq> R"
    using reduction_minimal [OF triangle_graph(1) acyc] by metis
  then show ?thesis using same triangle_graph(2) by metis
qed

end
