(* ===== verification/DagTopo.thy ===== *)
theory DagTopo
  imports DagFacts
begin

text \<open>
  The topological orders of \<open>dag.go\<close>: of a graph without cycles an order of all its vertices that agrees
  with the edges, of one with a cycle the panic.  A vertex being visited reaches what is visited next; the
  recursion is never deeper than there are vertices.
\<close>

definition edges_of :: "('v \<Rightarrow> 'v list) \<Rightarrow> ('v \<times> 'v) set" where
  "edges_of next = {(v, u). u \<in> set (next v)}"

definition ordered :: "('v \<Rightarrow> 'v list) \<Rightarrow> 'v list \<Rightarrow> bool" where
  "ordered next vs \<longleftrightarrow> (\<forall>i < length vs. set (next (vs ! i)) \<subseteq> set (take i vs))"

lemma ordered_Nil [simp]: "ordered next []"
  by (simp add: ordered_def)

lemma ordered_snoc [simp]: "ordered next (vs @ [v]) \<longleftrightarrow> ordered next vs \<and> set (next v) \<subseteq> set vs"
  by (auto simp: ordered_def nth_append less_Suc_eq)

lemma ordered_acyclic:
  assumes "ordered next vs" "distinct vs" "Domain (edges_of next) \<subseteq> set vs"
  shows "acyclic (edges_of next)"
proof -
  define pos where "pos v = (THE i. i < length vs \<and> vs ! i = v)" for v
  have pos: "pos (vs ! i) = i" if "i < length vs" for i
    using that assms(2) by (auto simp: pos_def nth_eq_iff_index_eq intro!: the_equality)
  have "pos u < pos v" if "(v, u) \<in> edges_of next" for v u
  proof -
    have "v \<in> set vs" using assms(3) that by blast
    then obtain i where i: "i < length vs" "vs ! i = v" by (auto simp: in_set_conv_nth)
    have "u \<in> set (take i vs)" using assms(1) i that unfolding ordered_def edges_of_def by blast
    then obtain j where "j < i" "vs ! j = u" using i(1) by (auto simp: in_set_conv_nth)
    then show ?thesis using pos [of i] pos [of j] i by simp
  qed
  then have "(edges_of next)\<inverse> \<subseteq> measure pos" by auto
  then have "acyclic ((edges_of next)\<inverse>)" using wf_acyclic [OF wf_measure] acyclic_subset by blast
  then show ?thesis by (simp add: acyclic_converse)
qed

definition perm_set :: "'v topo \<Rightarrow> 'v set" where
  "perm_set st = {v. tp_perm st v}"

definition topo_ok :: "('v \<Rightarrow> 'v list) \<Rightarrow> 'v topo \<Rightarrow> bool" where
  "topo_ok next st \<longleftrightarrow> (\<forall>v. \<not> (tp_tmp st v \<and> tp_perm st v)) \<and> distinct (tp_sorted st)
     \<and> set (tp_sorted st) = perm_set st \<and> ordered next (tp_sorted st)"

lemma topo_visit_spec:
  assumes "topo_ok next st" "finite V" "edges_of next \<subseteq> UNIV \<times> V" "set vs \<subseteq> V" "card (V - {v. tp_tmp st v}) < n"
    and "\<forall>t v. tp_tmp st t \<longrightarrow> v \<in> set vs \<longrightarrow> (t, v) \<in> (edges_of next)\<^sup>+"
  shows "(topo_visit n next vs st = Some (Inl CycleFound) \<and> \<not> acyclic (edges_of next))
    \<or> (\<exists>st'. topo_visit n next vs st = Some (Inr st') \<and> topo_ok next st' \<and> tp_tmp st' = tp_tmp st
        \<and> perm_set st' \<subseteq> perm_set st \<union> V \<and> perm_set st \<union> set vs \<subseteq> perm_set st')"
  using assms
proof (induction n "next" vs st rule: topo_visit.induct)
  case (3 n "next" v vs st)
  note prems = "3.prems"
  consider "tp_perm st v" | "\<not> tp_perm st v" "tp_tmp st v" | "\<not> tp_perm st v" "\<not> tp_tmp st v" by blast
  then show ?case
  proof cases
    case 1
    then have "v \<in> perm_set st" "topo_visit (Suc n) next (v # vs) st = topo_visit (Suc n) next vs st" by (simp_all add: perm_set_def)
    then show ?thesis using "3.IH"(1) [OF 1 prems(1-3)] prems(4-6) by (auto simp del: topo_visit.simps)
  next
    case 2
    then have "(v, v) \<in> (edges_of next)\<^sup>+" using prems(6) by simp
    then have "\<not> acyclic (edges_of next)" by (auto simp: acyclic_def)
    then show ?thesis using 2 by simp
  next
    case 3
    define st1 where "st1 = st\<lparr>tp_tmp := (tp_tmp st)(v := True)\<rparr>"
    have "V - {x. tp_tmp st1 x} = V - {x. tp_tmp st x} - {v}" by (auto simp: st1_def)
    moreover have "v \<in> V - {x. tp_tmp st x}" using prems(4) 3 by simp
    ultimately have "card (V - {x. tp_tmp st1 x}) < n"
      using prems(2,5) card_Diff1_less [of "V - {x. tp_tmp st x}" v] by simp
    moreover have "topo_ok next st1" using prems(1) 3 by (simp add: topo_ok_def st1_def perm_set_def)
    moreover have "set (next v) \<subseteq> V" using prems(3) by (auto simp: edges_of_def)
    moreover have "\<forall>t u. tp_tmp st1 t \<longrightarrow> u \<in> set (next v) \<longrightarrow> (t, u) \<in> (edges_of next)\<^sup>+"
      using prems(6) by (auto simp: st1_def edges_of_def intro: trancl_into_trancl)
    ultimately consider (panic) "topo_visit n next (next v) st1 = Some (Inl CycleFound)" "\<not> acyclic (edges_of next)"
      | (visited) st2 where "topo_visit n next (next v) st1 = Some (Inr st2)" "topo_ok next st2" "tp_tmp st2 = tp_tmp st1"
          "perm_set st2 \<subseteq> perm_set st1 \<union> V" "perm_set st1 \<union> set (next v) \<subseteq> perm_set st2"
      using "3.IH"(2) [OF 3, folded st1_def, OF _ prems(2,3)] by blast
    then show ?thesis
    proof cases
      case panic
      then show ?thesis using 3 by (simp add: st1_def)
    next
      case visited
      define st3 where "st3 = st2\<lparr>tp_tmp := (tp_tmp st2)(v := False), tp_perm := (tp_perm st2)(v := True), tp_sorted := tp_sorted st2 @ [v]\<rparr>"
      have tmp: "tp_tmp st3 = tp_tmp st" using visited(3) 3(2) by (simp add: st3_def st1_def fun_eq_iff)
      have perm: "perm_set st3 = insert v (perm_set st2)" by (auto simp: st3_def perm_set_def)
      have "\<not> tp_perm st2 v" using visited(2,3) by (auto simp: topo_ok_def st1_def)
      then have "topo_ok next st3" using visited(2,5) by (auto simp: topo_ok_def st3_def perm_set_def)
      then have IH: "(topo_visit (Suc n) next vs st3 = Some (Inl CycleFound) \<and> \<not> acyclic (edges_of next))
        \<or> (\<exists>st'. topo_visit (Suc n) next vs st3 = Some (Inr st') \<and> topo_ok next st' \<and> tp_tmp st' = tp_tmp st3
          \<and> perm_set st' \<subseteq> perm_set st3 \<union> V \<and> perm_set st3 \<union> set vs \<subseteq> perm_set st')"
        using "3.IH"(3) [OF 3, folded st1_def, OF visited(1) refl, folded st3_def] prems tmp by simp
      have step: "topo_visit (Suc n) next (v # vs) st = topo_visit (Suc n) next vs st3"
        using 3 visited(1) by (simp add: st1_def st3_def)
      have st1: "perm_set st1 = perm_set st" by (simp add: st1_def perm_set_def)
      have "v \<in> V" using prems(4) by simp
      from IH show ?thesis
      proof (elim disjE exE conjE)
        fix st'
        assume st': "topo_visit (Suc n) next vs st3 = Some (Inr st')" "topo_ok next st'" "tp_tmp st' = tp_tmp st3"
          and sets: "perm_set st' \<subseteq> perm_set st3 \<union> V" "perm_set st3 \<union> set vs \<subseteq> perm_set st'"
        have "perm_set st' \<subseteq> perm_set st \<union> V" using sets(1) visited(4) \<open>v \<in> V\<close> unfolding perm st1 by blast
        moreover have "perm_set st \<union> set (v # vs) \<subseteq> perm_set st'" using sets(2) visited(5) unfolding perm st1 by auto
        ultimately show ?thesis unfolding step using st' tmp by simp
      qed (simp add: step del: topo_visit.simps)
    qed
  qed
qed auto

lemma topoOrder_spec:
  assumes "distinct vs" "edges_of next \<subseteq> set vs \<times> set vs"
  shows "if acyclic (edges_of next) then \<exists>ws. topoOrder next vs = Some (Inr ws) \<and> distinct ws \<and> set ws = set vs \<and> ordered next ws
    else topoOrder next vs = Some (Inl CycleFound)"
proof -
  define st0 where "st0 = (\<lparr>tp_tmp = (\<lambda>_. False), tp_perm = (\<lambda>_. False), tp_sorted = []\<rparr> :: 'a topo)"
  have "topo_ok next st0" by (simp add: topo_ok_def st0_def perm_set_def)
  moreover have "finite (set vs)" "edges_of next \<subseteq> UNIV \<times> set vs" "set vs \<subseteq> set vs" using assms(2) by auto
  moreover have "card (set vs - {v. tp_tmp st0 v}) < Suc (length vs)" by (simp add: st0_def card_length le_imp_less_Suc)
  moreover have "\<forall>t v. tp_tmp st0 t \<longrightarrow> v \<in> set vs \<longrightarrow> (t, v) \<in> (edges_of next)\<^sup>+" by (simp add: st0_def)
  ultimately consider (panic) "topo_visit (Suc (length vs)) next vs st0 = Some (Inl CycleFound)" "\<not> acyclic (edges_of next)"
    | (sorted) st where "topo_visit (Suc (length vs)) next vs st0 = Some (Inr st)" "topo_ok next st"
        "perm_set st \<subseteq> perm_set st0 \<union> set vs" "perm_set st0 \<union> set vs \<subseteq> perm_set st"
    using topo_visit_spec [of "next" st0 "set vs" vs "Suc (length vs)"] by blast
  then show ?thesis
  proof cases
    case panic
    then show ?thesis by (simp add: topoOrder_def st0_def)
  next
    case sorted
    have perm: "perm_set st = set vs" using sorted(3,4) by (auto simp: st0_def perm_set_def)
    then have ws: "distinct (tp_sorted st)" "set (tp_sorted st) = set vs" "ordered next (tp_sorted st)"
      using sorted(2) by (auto simp: topo_ok_def)
    then have "acyclic (edges_of next)" using assms(2) by (intro ordered_acyclic) auto
    then show ?thesis using ws sorted(1) by (simp add: topoOrder_def st0_def)
  qed
qed

section \<open>The orders of a graph\<close>

definition closed_graph :: "'v graph \<Rightarrow> bool" where
  "closed_graph g \<longleftrightarrow> graph_ok g \<and> set (gr_edges g) \<subseteq> set (gr_vertices g) \<times> set (gr_vertices g)"

text \<open>The topological order of a graph whose edges are between its vertices, and the reverse one: all
  vertices once, every edge's source before its target or after it, or the panic if there is a cycle.\<close>

lemma topological_orders:
  assumes "closed_graph g"
  shows "if acyclic (set (gr_edges g))
    then \<exists>down up. TopologicalOrder g = Some (Inr down) \<and> ReverseTopologicalOrder g = Some (Inr up)
      \<and> distinct down \<and> set down = set (gr_vertices g) \<and> distinct up \<and> set up = set (gr_vertices g)
      \<and> (\<forall>i < length down. \<forall>u. (u, down ! i) \<in> set (gr_edges g) \<longrightarrow> u \<in> set (take i down))
      \<and> (\<forall>i < length up. \<forall>w. (up ! i, w) \<in> set (gr_edges g) \<longrightarrow> w \<in> set (take i up))
    else TopologicalOrder g = Some (Inl CycleFound) \<and> ReverseTopologicalOrder g = Some (Inl CycleFound)"
proof -
  have g: "graph_ok g" using assms by (simp add: closed_graph_def)
  have down: "edges_of (UpEdges g) = (set (gr_edges g))\<inverse>" and up: "edges_of (DownEdges g) = set (gr_edges g)"
    using g by (auto simp: edges_of_def)
  have "edges_of (UpEdges g) \<subseteq> set (gr_vertices g) \<times> set (gr_vertices g)" "edges_of (DownEdges g) \<subseteq> set (gr_vertices g) \<times> set (gr_vertices g)"
    using assms by (auto simp: down up closed_graph_def)
  then have "if acyclic (set (gr_edges g)) then \<exists>ws. TopologicalOrder g = Some (Inr ws) \<and> distinct ws \<and> set ws = set (gr_vertices g) \<and> ordered (UpEdges g) ws
      else TopologicalOrder g = Some (Inl CycleFound)"
    and "if acyclic (set (gr_edges g)) then \<exists>ws. ReverseTopologicalOrder g = Some (Inr ws) \<and> distinct ws \<and> set ws = set (gr_vertices g) \<and> ordered (DownEdges g) ws
      else ReverseTopologicalOrder g = Some (Inl CycleFound)"
    using topoOrder_spec [of "gr_vertices g"] g unfolding TopologicalOrder_def ReverseTopologicalOrder_def
    by (simp_all add: down up)
  moreover have "ordered (UpEdges g) ws \<Longrightarrow> \<forall>i < length ws. \<forall>u. (u, ws ! i) \<in> set (gr_edges g) \<longrightarrow> u \<in> set (take i ws)"
    and "ordered (DownEdges g) ws \<Longrightarrow> \<forall>i < length ws. \<forall>w. (ws ! i, w) \<in> set (gr_edges g) \<longrightarrow> w \<in> set (take i ws)" for ws
    using g unfolding ordered_def graph_ok_def by blast+
  ultimately show ?thesis by (cases "acyclic (set (gr_edges g))") force+
qed

end
