(* ===== verification/Spec2Isabelle.thy ===== *)
theory Spec2Isabelle
  imports MarkerFacts Slots Reconcile Rollout ConePlanFacts ApprovalFacts DagReduce DagTopo
begin

text \<open>
  A model of the parts of choudoufu that decide what a run without a state file owns, in which order a
  set of roots is planned and applied, and whether what is applied is what was approved.

  \<^bold>\<open>The program.\<close>  A live resource carries its owner in its tags: the estate and the escaped address of
  the instance that declares it.  A run lists what is live, reads the tags back and decides for each
  resource what to do (\<open>internal/live/markers\<close>, \<open>markerkey\<close>, \<open>slots\<close>, \<open>policy\<close>, \<open>discovery\<close>).  Several
  roots, each owning an estate and reading the outputs of others, are planned in one invocation
  (\<open>setplan\<close>), their plans digested (\<open>setdigest\<close>), ordered into waves (\<open>waves\<close>), and applied wave by
  wave against an approved digest.  A single root can also be approved by its saved plan (\<open>approval\<close>
  and \<open>internal/command/live_approval.go\<close>): the apply plans again and is refused unless the fresh plan
  is the approved one.  A plan can be narrowed to the cone of a git change (\<open>cone\<close> and
  \<open>internal/command/live_cone_plan.go\<close>), which then is part of what an approval covers.

  \<^bold>\<open>The theories\<close>, bottom up.

  \<^item> \<open>Prelude\<close>, \<open>GoText\<close>, \<open>GoRegexp\<close>, \<open>GoBytes\<close>, \<open>GoPath\<close>: generic facts and the parts of Go's standard
  library the code calls on text, patterns, bytes and file paths.  Unicode's tables are a parameter.
  \<^item> \<open>Addrs\<close>: the addresses of \<open>internal/addrs\<close> with their text, order and \<open>-target\<close> containment.  \<open>Less\<close>
  is a strict total order on concrete addresses; on a wildcard key the code panics, \<open>None\<close> here.
  \<^item> \<open>MarkerKey\<close>, \<open>Markers\<close>, \<open>MarkerFacts\<close>: the two escaping layers of \<open>markerkey.go\<close> and \<open>markers.go\<close>, the
  splitting of an address over continuation tags and \<open>AddressMatches\<close>.  Every layer reads back what it
  wrote, so a stamped marker names one instance; a key of the digits of an index has the marker of that
  index (\<open>marker_address\<close>).
  \<^item> \<open>Slots\<close>: the matching of declared indices with live members of a count set, \<open>slots.go\<close>.
  \<^item> \<open>Policy\<close>, \<open>Reconcile\<close>: verbs, quadrants and policy blocks with their linter; the pass over a cloud
  account (\<open>discovery/reconcile.go\<close>) and what \<open>livePolicyReconcile\<close> proposes to destroy.  The cloud's
  answers are a record of functions.
  \<^item> \<open>SetDigest\<close>: \<open>digest.go\<close>, the reading of a set plan document, the canonical text of a root's changes and
  the two digests.  The lemmas read the hashed texts back, so equal digests mean equal changes or a
  collision of SHA-256, which is a parameter.
  \<^item> \<open>Waves\<close>, \<open>ReadGraph\<close>, \<open>WaveFacts\<close>: \<open>split.go\<close>.  The search for a cycle and the numbering are proved over
  the locale \<open>read_graph\<close>, interpreted on the edges \<open>Split\<close> builds.
  \<^item> \<open>WaveBuild\<close>: \<open>build.go\<close> and the part of \<open>reads.go\<close> above the configuration loader, a parameter.
  \<^item> \<open>WaveApply\<close>, \<open>WaveApplyFacts\<close>, \<open>WaveLanding\<close>: \<open>apply.go\<close>, the gates, the order within a wave, the resume file
  (the locale \<open>outcome_file\<close>) and the exit codes.  Planning, applying and saving act on a world of any
  type, each by a function that may fail.
  \<^item> \<open>SetPlan\<close>, \<open>SetPlanFacts\<close>: the sequential parts of \<open>setplan.go\<close> and \<open>order.go\<close>: the paths of the roots,
  Kahn's algorithm, the document with its digests and exit code.
  \<^item> \<open>SetPlanRun\<close>, \<open>SetPlanRunFacts\<close>: the goroutines as a step relation \<open>set_step\<close>, one step between two points
  where a goroutine can wait.  An invariant ties every goroutine to the sequential \<open>root_outcome\<close> of its
  root; termination is a measure on the program counters.
  \<^item> \<open>Rollout\<close>: what links the document of \<open>waves_Build\<close> to the run of \<open>Apply\<close> that is given it.
  \<^item> \<open>Approval\<close>, \<open>JointCheck\<close>, \<open>ApprovalGate\<close>, \<open>ApprovalFacts\<close>: \<open>approval.go\<close> and \<open>values.go\<close>, the check of the
  sensitive values a joint plan file left out (\<open>joint_saved.go\<close>), the guards of \<open>live_approval.go\<close> as
  \<open>apply.go\<close> composes them, that of a cone plan included, and the question of
  \<open>backend/local/plan_guard.go\<close>.  The check works on values of the cty packages through a record of
  operations.
  \<^item> \<open>Cone\<close>, \<open>ConeCompute\<close>, \<open>ConePlan\<close>: \<open>module.go\<close>, \<open>cone.go\<close> and the plan made from a cone.  The search for
  readers ends because the nodes read are finitely many; \<open>ConeFacts\<close> relates \<open>Compute\<close> to the closure
  \<open>block_reads\<close> of a parsed module, \<open>ConePlanFacts\<close> carries that to the plan's targets and scope, and
  \<open>ConeDemo\<close> runs a repository through all of it.  The share is a \<open>float64\<close> with its rounding.
  \<^item> \<open>Dag\<close>, \<open>DagFacts\<close>, \<open>DagWalk\<close>, \<open>DagReduce\<close>, \<open>DagTopo\<close>: the graph library \<open>internal/dag\<close>.  A graph keeps its
  edges three times, and every operation keeps them in agreement (\<open>graph_ok\<close>).  The walk with its
  callback is the locale \<open>walk_visitor\<close>, interpreted on the callbacks of \<open>Ancestors\<close>, \<open>Descendents\<close> and
  \<open>TransitiveReduction\<close>.
  \<^item> This theory: the properties that span planning, waves and applying.

  \<^bold>\<open>State.\<close>  A struct is a record, an enumeration a datatype, a Go map a HOL map (or an association list
  where it is ranged over), an error the left side of a sum.  A text is the list of its runes, or of its
  bytes where the code goes through those.  Loops
  that mutate locals are folds or recursions over a record of these locals (\<open>edge_state\<close>, \<open>dfs\<close>,
  \<open>apply_state\<close>, \<open>order_state\<close>, \<open>match_result\<close>); \<open>set_run\<close> holds the coordinator and the program counters.

  \<^bold>\<open>Fuel.\<close>  The recursions of \<open>findCycle\<close> and \<open>assign\<close> in \<open>Split\<close> have fuel \<open>Suc\<close> of the number of roots: a
  path of unfinished roots has no repetition, so it is no longer than the set (\<open>ReadGraph\<close>).  The queue
  of \<open>kahn\<close> has fuel the number of roots, as each is queued at most once (\<open>kahn_ends\<close>).  A walk of a graph
  has fuel the start and the edges, as a vertex is expanded once (\<open>walk_visits\<close>), a topological order
  \<open>Suc\<close> of the number of vertices (\<open>topoOrder_spec\<close>).  Running out is
  \<open>None\<close>, and the properties \<open>split_accepts_iff\<close> and \<open>order_finds_cycles\<close> say that it does not happen.

  \<^bold>\<open>Bounds.\<close>  A slot is a natural number below the code's ceiling of ten digits, which \<open>uint64\<close> exceeds, so
  nothing wraps.  The bound on goroutines is the integer the command was given, refused below 1.

  \<^bold>\<open>Not modelled.\<close>  The reading of provider configurations and resource identities (\<open>live/identity\<close>,
  \<open>live/projection\<close>, most of \<open>live/discovery\<close>), the evaluation of HCL, the provider protocol, the command
  line, state storage and backends: they rest on packages that are not in the repository, or are I/O
  around the parts above, or are inherited unchanged.  Of the graph library the parallel walk, which may
  be updated while it runs, and the report of cycles are left out; so are the texts of reports, the
  tracing spans, the JSON documents of a cone and the making of joint plan files.
\<close>

section \<open>From the wave document to the apply\<close>

text \<open>C1. A rollout lands what is read before what reads it: when a wave of a document \<open>waves_Build\<close>
  built is applied and a root of it is applied, every root of the set it declares a read of had landed
  before, in an earlier wave or earlier in this run, and the resume file records it as landed.\<close>

theorem rollout_lands_producers_first:
  assumes "waves_Build sha u reader bopts = Some (Inr doc)" "ao_waves opts = wave_document.truncate doc"
    and "Apply sha u run opts rs w = (res, st)" "st_applied st = xs @ r # ys" "reads (bd_roots doc) r p"
  shows "(landed_in rs p \<or> p \<in> set xs) \<and> landed_in (st_resume st) p"
proof -
  have range: "1 \<le> ao_wave opts" "ao_wave opts \<le> int (length (wd_waves doc))"
    using Apply_out_of_range [OF assms(3)] assms(2,4) by (auto simp: wave_document.truncate_def)
  have dist: "distinct (opts_roots opts)" using built_read [OF assms(1,2) range] by blast
  have "r \<in> set (opts_roots opts)" using applied_gates [OF assms(3) dist, of r] assms(4) by simp
  then have "p \<in> set (opts_producers opts r)" "wave_num (opts_wave_of opts) p \<le> ao_wave opts"
    using built_read [OF assms(1,2) range, of r p] assms(5) by blast+
  from applied_after_producers [OF assms(3) dist assms(4) this] show ?thesis by blast
qed

theorem rollout_lands_producers_first_witness:
  "\<exists>doc opts out st. waves_Build (\<lambda>s. s) demo_unicode quiet_reader quiet_canaries = Some (Inr doc)
     \<and> Apply (\<lambda>s. s) demo_unicode quiet_runner opts new_resume 0 = (Inr out, st)
     \<and> S ''app'' \<in> set (st_applied st) \<and> landed_in (st_resume st) (S ''net'')"
proof -
  obtain doc where doc: "waves_Build (\<lambda>s. s) demo_unicode quiet_reader quiet_canaries = Some (Inr doc)"
    "bd_roots doc = [quiet_app, quiet_net]" "map wv_roots (wd_waves doc) = [[S ''app'', S ''net'']]" "map wv_number (wd_waves doc) = [1]"
    "map (\<lambda>e. (ed_reader e, ed_producer e)) (wd_edges doc) = [(S ''app'', S ''net'')]" by (rule canaries_built)
  obtain d where d: "DocumentDigests (\<lambda>s. s) quiet_set = Inr ([S ''app'' \<mapsto> quiet_digest ''app'', S ''net'' \<mapsto> quiet_digest ''net''], d)"
    using quiet_set_digest by blast
  let ?opts = "\<lparr>ao_set = quiet_set, ao_approved = d, ao_waves = wave_document.truncate doc, ao_wave = 1\<rparr>"
  obtain out st where run: "Apply (\<lambda>s. s) demo_unicode quiet_runner ?opts new_resume 0 = (Inr out, st)"
      and applied: "st_applied st = [S ''net''] @ S ''app'' # []"
    using canaries_apply [OF doc(3-5) d] by auto
  have "reads (bd_roots doc) (S ''app'') (S ''net'')" using canaries_read doc(2) by simp
  from rollout_lands_producers_first [OF doc(1) _ run applied this] have "landed_in (st_resume st) (S ''net'')" by simp
  then show ?thesis using doc(1) run applied by (intro exI conjI) (assumption | simp del: S_simps)+
qed

text \<open>C2. What is applied is what the set plan showed: when the digest of a set plan's document is
  approved and a wave over that document is applied, the run applies a root only if the set plan planned
  it and its fresh plan makes exactly the changes the set plan printed for it, unless SHA-256 collides on
  the two texts.\<close>

theorem applied_changes_are_approved:
  assumes "plan_document_of sha sroots = Inr pdoc" "ao_set opts = \<lparr>sd_roots = map root_plan_of (dc_roots pdoc)\<rparr>"
    and "waves_Build sha u reader bopts = Some (Inr doc)" "ao_waves opts = wave_document.truncate doc"
    and "Apply sha u run opts rs w = (res, st)" "r \<in> set (st_applied st)"
  shows "ao_approved opts = dc_digest pdoc
    \<and> (\<exists>left fresh w' f q. ru_plan run left w = (Inr fresh, w') \<and> fresh r = Some f \<and> rp_status (fp_plan f) = StatusPlanned
        \<and> q \<in> set sroots \<and> sr_root q = r \<and> sr_status q = StatusPlanned
        \<and> same_changes sha (root_plan_of q) (as_approved (opts_plans opts) r (fp_plan f)))"
proof -
  have range: "1 \<le> ao_wave opts" "ao_wave opts \<le> int (length (wd_waves doc))"
    using Apply_out_of_range [OF assms(5)] assms(4) length_pos_if_in_set [OF assms(6)] by (auto simp: wave_document.truncate_def)
  have dist: "distinct (opts_roots opts)" using built_read [OF assms(3,4) range] by blast
  note digests = set_digests [OF assms(1)]
  from applied_gates [OF assms(5) dist assms(6)] obtain approved left fresh w' f d where
    a: "DocumentDigests sha (ao_set opts) = Inr (approved, ao_approved opts)" and
    f: "ru_plan run left w = (Inr fresh, w')" "fresh r = Some f" "rp_status (fp_plan f) = StatusPlanned"
      "RootDigest sha (plan_of (opts_plans opts) r) = Inr d"
      "RootDigest sha (as_approved (opts_plans opts) r (fp_plan f)) = Inr d" "r \<in> set left"
    by fastforce
  have planned: "planned_in (opts_plans opts) r" using applied_planned [OF assms(5) dist assms(6)] .
  then obtain p where p: "opts_plans opts r = Some p" "rp_status p = StatusPlanned"
    by (cases "opts_plans opts r") (auto simp: planned_in_def plan_of_def StatusPlanned_def)
  have "p \<in> set (sd_roots (ao_set opts))" "rp_root p = r"
    using p(1) by (auto simp: opts_plans_def by_root_def dest!: map_of_SomeD)
  moreover have "sd_roots (ao_set opts) = map root_plan_of sroots" using digests by (simp add: assms(2))
  ultimately obtain q where q: "q \<in> set sroots" "root_plan_of q = p" by auto
  have "sr_root q = r" "sr_status q = StatusPlanned" using q(2) p(2) \<open>rp_root p = r\<close> by (auto simp: root_plan_of_def)
  moreover have "same_changes sha (root_plan_of q) (as_approved (opts_plans opts) r (fp_plan f))"
    using same_changesI f(4,5) q(2) p(1) by (simp add: plan_of_def)
  moreover have "ao_approved opts = dc_digest pdoc" using a conjunct1 [OF digests] by (simp add: assms(2))
  ultimately show ?thesis using f(1-3) q(1) by blast
qed

theorem applied_changes_are_approved_witness:
  "\<exists>pdoc opts out st (fresh :: gostring \<rightharpoonup> fresh_plan) f q. plan_document_of (\<lambda>s. s) [quiet_entry ''app'', quiet_entry ''net''] = Inr pdoc
     \<and> ao_approved opts = dc_digest pdoc
     \<and> Apply (\<lambda>s. s) demo_unicode quiet_runner opts new_resume 0 = (Inr out, st) \<and> S ''app'' \<in> set (st_applied st)
     \<and> fresh (S ''app'') = Some f \<and> same_changes (\<lambda>s. s) (root_plan_of q) (as_approved (opts_plans opts) (S ''app'') (fp_plan f))"
proof -
  obtain doc where doc: "waves_Build (\<lambda>s. s) demo_unicode quiet_reader quiet_canaries = Some (Inr doc)"
    "bd_roots doc = [quiet_app, quiet_net]" "map wv_roots (wd_waves doc) = [[S ''app'', S ''net'']]" "map wv_number (wd_waves doc) = [1]"
    "map (\<lambda>e. (ed_reader e, ed_producer e)) (wd_edges doc) = [(S ''app'', S ''net'')]" by (rule canaries_built)
  obtain d where d: "DocumentDigests (\<lambda>s. s) quiet_set = Inr ([S ''app'' \<mapsto> quiet_digest ''app'', S ''net'' \<mapsto> quiet_digest ''net''], d)"
    using quiet_set_digest by blast
  obtain pdoc where pdoc: "plan_document_of (\<lambda>s. s) [quiet_entry ''app'', quiet_entry ''net''] = Inr pdoc"
    using quiet_entries_document by blast
  have "map root_plan_of (dc_roots pdoc) = [quiet_plan ''app'', quiet_plan ''net'']"
    using set_digests [OF pdoc] by (simp add: quiet_entry_plan)
  then have set: "quiet_set = \<lparr>sd_roots = map root_plan_of (dc_roots pdoc)\<rparr>" by (simp add: quiet_set_def)
  let ?opts = "\<lparr>ao_set = quiet_set, ao_approved = d, ao_waves = wave_document.truncate doc, ao_wave = 1\<rparr>"
  obtain out st where run: "Apply (\<lambda>s. s) demo_unicode quiet_runner ?opts new_resume 0 = (Inr out, st)"
      and applied: "S ''app'' \<in> set (st_applied st)"
    using canaries_apply [OF doc(3-5) d] by auto
  have opts: "ao_set ?opts = \<lparr>sd_roots = map root_plan_of (dc_roots pdoc)\<rparr>" "ao_waves ?opts = wave_document.truncate doc"
    using set by simp_all
  obtain left fresh w' f q where "ao_approved ?opts = dc_digest pdoc"
    "ru_plan quiet_runner left 0 = (Inr fresh, w')" "fresh (S ''app'') = Some f"
    "same_changes (\<lambda>s. s) (root_plan_of q) (as_approved (opts_plans ?opts) (S ''app'') (fp_plan f))"
    using applied_changes_are_approved [OF pdoc opts(1) doc(1) opts(2) run applied] by (elim conjE exE) (rule that)
  then show ?thesis using pdoc run applied
    by (intro exI [of _ pdoc] exI [of _ ?opts] exI [of _ out] exI [of _ st] exI [of _ fresh] exI [of _ f] exI [of _ q] conjI)
qed

end
